(* ===== verification/Js_Prelude.thy ===== *)
theory Js_Prelude
  imports Main
begin

text \<open>
  The part of the JavaScript standard library that the modelled sources use, and the
  generic lemmas the components share.

  A string of the program is a list of code units. Components whose text stays inside the
  first 256 code units use \<^typ>\<open>string\<close>; a component that handles other code units uses
  lists of \<^typ>\<open>nat\<close>. The operations below are therefore polymorphic in the code unit
  wherever the source operation does not look at it.

  Collections: \<open>js_string\<close> gathers the facts about trimming, splitting and joining;
  \<open>js_order\<close> those about insertion-ordered sets; \<open>js_num\<close> those about decimal numerals.
\<close>

named_theorems js_string \<open>trimming, splitting and joining of strings\<close>
named_theorems js_order \<open>insertion-ordered sets\<close>
named_theorems js_num \<open>decimal numerals\<close>

section \<open>Definitions\<close>

subsection \<open>White space and trimming\<close>

text \<open>White space and line terminators among the first 256 code units
  (\<open>\s\<close> of a regular expression and \<open>String.prototype.trim\<close> use the same set).\<close>

definition is_ws :: "char \<Rightarrow> bool" where
  "is_ws c \<longleftrightarrow> c \<in> {CHR 0x09, CHR 0x0A, CHR 0x0B, CHR 0x0C, CHR 0x0D, CHR 0x20, CHR 0xA0}"

definition trim_start_by :: "('a \<Rightarrow> bool) \<Rightarrow> 'a list \<Rightarrow> 'a list" where
  "trim_start_by ws s = dropWhile ws s"

definition trim_by :: "('a \<Rightarrow> bool) \<Rightarrow> 'a list \<Rightarrow> 'a list" where
  "trim_by ws s = rev (dropWhile ws (rev (dropWhile ws s)))"

definition trim :: "string \<Rightarrow> string" where
  "trim s = trim_by is_ws s"

subsection \<open>Case, splitting, joining, searching\<close>

definition to_lower_char :: "char \<Rightarrow> char" where
  "to_lower_char c =
     (let n = of_char c :: nat in
      if (65 \<le> n \<and> n \<le> 90) \<or> (192 \<le> n \<and> n \<le> 222 \<and> n \<noteq> 215) then char_of (n + 32) else c)"

text \<open>\<open>toLowerCase\<close> on the first 256 code units.\<close>

definition toLowerCase :: "string \<Rightarrow> string" where
  "toLowerCase s = map to_lower_char s"

fun split_on :: "'a \<Rightarrow> 'a list \<Rightarrow> 'a list list" where
  "split_on c [] = [[]]"
| "split_on c (x # xs) =
     (if x = c then [] # split_on c xs
      else (case split_on c xs of [] \<Rightarrow> [[x]] | p # ps \<Rightarrow> (x # p) # ps))"

fun join :: "'a list \<Rightarrow> 'a list list \<Rightarrow> 'a list" where
  "join sep [] = []"
| "join sep [x] = x"
| "join sep (x # y # ys) = x @ sep @ join sep (y # ys)"

definition starts_with :: "'a list \<Rightarrow> 'a list \<Rightarrow> bool" where
  "starts_with p s \<longleftrightarrow> take (length p) s = p"

definition ends_with :: "'a list \<Rightarrow> 'a list \<Rightarrow> bool" where
  "ends_with p s \<longleftrightarrow> length p \<le> length s \<and> drop (length s - length p) s = p"

text \<open>\<open>index_of p s\<close> is the first position at which \<open>p\<close> occurs in \<open>s\<close>
  (\<open>None\<close> for JavaScript's -1).\<close>

fun index_of :: "'a list \<Rightarrow> 'a list \<Rightarrow> nat option" where
  "index_of p [] = (if p = [] then Some 0 else None)"
| "index_of p (x # xs) =
     (if starts_with p (x # xs) then Some 0 else map_option Suc (index_of p xs))"

definition str_includes :: "'a list \<Rightarrow> 'a list \<Rightarrow> bool" where
  "str_includes s p \<longleftrightarrow> index_of p s \<noteq> None"

text \<open>\<open>replace_all_char c r s\<close> is \<open>s.replace(/c/g, r)\<close> for a one-character pattern and a
  replacement text without \<open>$\<close>.\<close>

definition replace_all_char :: "'a \<Rightarrow> 'a list \<Rightarrow> 'a list \<Rightarrow> 'a list" where
  "replace_all_char c r s = concat (map (\<lambda>x. if x = c then r else [x]) s)"

subsection \<open>Insertion-ordered sets\<close>

definition set_add :: "'a list \<Rightarrow> 'a \<Rightarrow> 'a list" where
  "set_add s x = (if x \<in> set s then s else s @ [x])"

definition js_set :: "'a list \<Rightarrow> 'a list" where
  "js_set xs = foldl set_add [] xs"

subsection \<open>Sorting with a comparator\<close>

text \<open>\<open>Array.prototype.sort\<close> is stable, so for a comparator that is a weak order its
  result is the one of insertion sort. \<open>lt a b\<close> says that the comparator is negative on
  \<open>a, b\<close>.\<close>

fun insert_by :: "('a \<Rightarrow> 'a \<Rightarrow> bool) \<Rightarrow> 'a \<Rightarrow> 'a list \<Rightarrow> 'a list" where
  "insert_by lt x [] = [x]"
| "insert_by lt x (y # ys) = (if lt y x then y # insert_by lt x ys else x # y # ys)"

definition js_sort :: "('a \<Rightarrow> 'a \<Rightarrow> bool) \<Rightarrow> 'a list \<Rightarrow> 'a list" where
  "js_sort lt xs = foldr (insert_by lt) xs []"

subsection \<open>Decimal numerals\<close>

definition digit_char :: "nat \<Rightarrow> char" where
  "digit_char d = char_of (48 + d)"

definition is_digit :: "char \<Rightarrow> bool" where
  "is_digit c \<longleftrightarrow> 48 \<le> (of_char c :: nat) \<and> (of_char c :: nat) \<le> 57"

definition digit_val :: "char \<Rightarrow> nat" where
  "digit_val c = of_char c - 48"

fun show_nat :: "nat \<Rightarrow> string" where
  "show_nat n = (if n < 10 then [digit_char n] else show_nat (n div 10) @ [digit_char (n mod 10)])"

declare show_nat.simps [simp del]

definition show_int :: "int \<Rightarrow> string" where
  "show_int i = (if i < 0 then CHR ''-'' # show_nat (nat (- i)) else show_nat (nat i))"

definition digits_val :: "string \<Rightarrow> nat" where
  "digits_val s = foldl (\<lambda>n c. 10 * n + digit_val c) 0 s"

section \<open>Trimming\<close>

lemma trim_by_Nil [simp]: "trim_by ws [] = []"
  by (simp add: trim_by_def)

lemma trim_Nil [simp]: "trim [] = []"
  by (simp add: trim_def)

lemma trim_by_id [js_string]:
  assumes "s = [] \<or> (\<not> ws (hd s) \<and> \<not> ws (last s))"
  shows "trim_by ws s = s"
proof (cases s rule: rev_cases)
  case Nil
  then show ?thesis by simp
next
  case (snoc ys y)
  have "dropWhile ws s = s" using assms by (cases s) auto
  moreover have "dropWhile ws (rev s) = rev s" using assms snoc by simp
  ultimately show ?thesis by (simp add: trim_by_def)
qed

lemma last_dropWhile: "dropWhile P xs \<noteq> [] \<Longrightarrow> last (dropWhile P xs) = last xs"
  by (induction xs) (auto split: if_splits)

lemma trim_by_hd_last:
  assumes "trim_by ws s \<noteq> []"
  shows "\<not> ws (hd (trim_by ws s)) \<and> \<not> ws (last (trim_by ws s))"
proof -
  let ?d = "dropWhile ws s"
  let ?e = "dropWhile ws (rev ?d)"
  have e: "?e \<noteq> []" using assms by (simp add: trim_by_def)
  have l: "\<not> ws (hd ?e)" using e by (rule hd_dropWhile)
  have d: "?d \<noteq> []" using e by (metis dropWhile.simps(1) rev.simps(1))
  have "last ?e = last (rev ?d)" using e by (rule last_dropWhile)
  also have "\<dots> = hd ?d" using d by (simp add: last_rev)
  finally have "\<not> ws (last ?e)" using d by (simp add: hd_dropWhile)
  then show ?thesis using l e by (simp add: trim_by_def hd_rev last_rev)
qed

lemma trim_by_idem [simp]: "trim_by ws (trim_by ws s) = trim_by ws s"
  using trim_by_hd_last [of ws s] by (intro trim_by_id) auto

lemma trim_idem [simp]: "trim (trim s) = trim s"
  by (simp add: trim_def)

lemma set_trim_by: "set (trim_by ws s) \<subseteq> set s"
  by (auto simp: trim_by_def dest!: set_dropWhileD)

lemma set_trim: "set (trim s) \<subseteq> set s"
  by (simp add: trim_def set_trim_by)

lemma trim_no_ws [js_string]: "\<forall>c \<in> set s. \<not> is_ws c \<Longrightarrow> trim s = s"
  using trim_by_id [of s is_ws] hd_in_set [of s] last_in_set [of s]
  by (cases "s = []") (simp_all add: trim_def)

section \<open>Splitting and joining\<close>

lemma split_on_not_Nil [simp]: "split_on c s \<noteq> []"
  by (cases s) (auto split: list.splits)

lemma split_on_no_sep [js_string]: "c \<notin> set s \<Longrightarrow> split_on c s = [s]"
  by (induction s) auto

lemma split_on_append_sep [js_string]:
  "c \<notin> set s \<Longrightarrow> split_on c (s @ c # t) = s # split_on c t"
  by (induction s) auto

lemma split_on_no_sep_inside: "p \<in> set (split_on c s) \<Longrightarrow> c \<notin> set p"
proof (induction s arbitrary: p)
  case Nil
  then show ?case by simp
next
  case (Cons x xs)
  then show ?case by (cases "split_on c xs") (auto split: if_splits)
qed

lemma join_split_on: "join [c] (split_on c s) = s"
proof (induction s)
  case Nil
  then show ?case by simp
next
  case (Cons x xs)
  obtain p ps where eq: "split_on c xs = p # ps"
    by (cases "split_on c xs") auto
  then show ?case using Cons by (cases ps) auto
qed

lemma join_Cons: "join sep (x # xs) = (if xs = [] then x else x @ sep @ join sep xs)"
  by (cases xs) auto

lemma set_join: "set (join sep xs) \<subseteq> set sep \<union> \<Union> (set ` set xs)"
  by (induction sep xs rule: join.induct) auto

text \<open>
  The interface between the code that writes separated lists (\<open>xs.join(sep)\<close>) and the code
  that reads them back (\<open>s.split(sep)\<close>): items of the kind \<open>item\<close> never contain the
  separator. The client lemmas are proved once here.
\<close>

locale separated =
  fixes sep :: 'a and item :: "'a list \<Rightarrow> bool"
  assumes item_no_sep: "item x \<Longrightarrow> sep \<notin> set x"
begin

lemma split_join:
  "xs \<noteq> [] \<Longrightarrow> (\<And>x. x \<in> set xs \<Longrightarrow> item x) \<Longrightarrow> split_on sep (join [sep] xs) = xs"
proof (induction "[sep]" xs rule: join.induct)
  case (3 x y ys)
  then show ?case by (simp add: split_on_append_sep item_no_sep)
qed (auto simp: split_on_no_sep item_no_sep)

lemma join_inject:
  assumes "xs \<noteq> []" "ys \<noteq> []" "\<And>x. x \<in> set xs \<union> set ys \<Longrightarrow> item x"
    and "join [sep] xs = join [sep] ys"
  shows "xs = ys"
proof -
  have "xs = split_on sep (join [sep] xs)" using assms(1,3) by (simp add: split_join)
  also have "\<dots> = split_on sep (join [sep] ys)" by (simp only: assms(4))
  also have "\<dots> = ys" using assms(2,3) by (simp add: split_join)
  finally show ?thesis .
qed

end

section \<open>Prefixes and occurrences\<close>

lemma starts_with_append [simp]: "starts_with p (p @ s)"
  by (simp add: starts_with_def)

lemma starts_with_Nil [simp]: "starts_with [] s"
  by (simp add: starts_with_def)

lemma starts_with_Cons [simp]:
  "starts_with (x # p) s \<longleftrightarrow> (case s of [] \<Rightarrow> False | y # ys \<Rightarrow> x = y \<and> starts_with p ys)"
  by (auto simp: starts_with_def split: list.splits)

lemma starts_with_iff: "starts_with p s \<longleftrightarrow> (\<exists>t. s = p @ t)"
  by (metis append_eq_conv_conj append_take_drop_id starts_with_def)

lemma index_of_Some_split:
  "index_of p s = Some i \<Longrightarrow> i + length p \<le> length s \<and> s = take i s @ p @ drop (i + length p) s"
proof (induction s arbitrary: i)
  case Nil
  then show ?case by (simp split: if_splits)
next
  case (Cons x xs)
  show ?case
  proof (cases "starts_with p (x # xs)")
    case True
    with Cons.prems have "i = 0" by simp
    moreover obtain t where "x # xs = p @ t" using True by (auto simp: starts_with_iff)
    ultimately show ?thesis by simp
  next
    case False
    with Cons.prems obtain j where "index_of p xs = Some j" and "i = Suc j" by auto
    then show ?thesis using Cons.IH [of j] by auto
  qed
qed

lemma index_of_least:
  "index_of p s = Some i \<Longrightarrow> j < i \<Longrightarrow> \<not> starts_with p (drop j s)"
proof (induction s arbitrary: i j)
  case Nil
  then show ?case by (simp split: if_splits)
next
  case (Cons x xs)
  then show ?case by (cases j) (auto split: if_splits)
qed

lemma index_of_None: "index_of p s = None \<longleftrightarrow> (\<forall>j. \<not> starts_with p (drop j s))"
proof (induction s)
  case Nil
  then show ?case by (cases p) auto
next
  case (Cons x xs)
  have "(\<forall>j. \<not> starts_with p (drop j (x # xs))) \<longleftrightarrow>
      \<not> starts_with p (x # xs) \<and> (\<forall>j. \<not> starts_with p (drop j xs))"
    by (metis drop0 drop_Suc_Cons not0_implies_Suc)
  then show ?case using Cons by auto
qed

lemma includes_iff: "str_includes s p \<longleftrightarrow> (\<exists>a b. s = a @ p @ b)"
proof
  assume "str_includes s p"
  then obtain i where "index_of p s = Some i" by (auto simp: str_includes_def)
  then show "\<exists>a b. s = a @ p @ b" using index_of_Some_split by blast
next
  assume "\<exists>a b. s = a @ p @ b"
  then obtain a b where "s = a @ p @ b" by blast
  then have "starts_with p (drop (length a) s)" by simp
  then show "str_includes s p" by (auto simp: str_includes_def index_of_None)
qed

lemma index_of_Some_prefix:
  assumes "p \<noteq> []" "index_of p s = Some i"
  shows "\<not> str_includes (take i s) p"
proof
  assume "str_includes (take i s) p"
  then obtain a b where ab: "take i s = a @ p @ b" by (auto simp: includes_iff)
  then have s: "s = a @ p @ b @ drop i s"
    by (metis append.assoc append_take_drop_id)
  have "length (take i s) = length a + length p + length b" by (simp add: ab)
  then have "length a < i" using assms(1) by (cases p) auto
  then have "\<not> starts_with p (drop (length a) s)" using assms(2) index_of_least by blast
  moreover have "drop (length a) s = p @ b @ drop i s" by (metis append_eq_conv_conj s)
  ultimately show False by simp
qed

text \<open>A pattern whose first character does not come back in it occurs first where it is
  written, when the text before does not contain it.\<close>

lemma starts_with_overlap:
  assumes "c \<notin> set q" "starts_with q (xs @ c # r)"
  shows "starts_with q xs"
  using assms
proof (induction q arbitrary: xs)
  case (Cons d q)
  then show ?case by (cases xs) auto
qed simp

lemma index_of_fresh:
  assumes "c \<notin> set q" "\<not> str_includes v (c # q)"
  shows "index_of (c # q) (v @ (c # q) @ r) = Some (length v)"
  using assms
proof (induction v)
  case (Cons x xs)
  have "\<not> starts_with (c # q) (x # xs)" and *: "\<not> str_includes xs (c # q)"
    using Cons.prems(2) by (auto simp: str_includes_def split: if_splits)
  then have "\<not> starts_with (c # q) (x # xs @ (c # q) @ r)"
    using starts_with_overlap [OF Cons.prems(1), of xs "q @ r"] by auto
  then show ?case using Cons.IH [OF Cons.prems(1) *] by simp
qed simp

lemma not_includes_index_of: "\<not> str_includes s p \<longleftrightarrow> index_of p s = None"
  by (simp add: str_includes_def)

section \<open>Insertion-ordered sets\<close>

lemma foldl_set_add_set: "set (foldl set_add acc xs) = set acc \<union> set xs"
  by (induction xs arbitrary: acc) (auto simp: set_add_def)

lemma foldl_set_add_distinct: "distinct acc \<Longrightarrow> distinct (foldl set_add acc xs)"
  by (induction xs arbitrary: acc) (auto simp: set_add_def)

lemma set_js_set [js_order, simp]: "set (js_set xs) = set xs"
  by (simp add: js_set_def foldl_set_add_set)

lemma distinct_js_set [js_order, simp]: "distinct (js_set xs)"
  by (simp add: js_set_def foldl_set_add_distinct)

lemma foldl_set_add_new:
  "distinct (acc @ xs) \<Longrightarrow> foldl set_add acc xs = acc @ xs"
  by (induction xs arbitrary: acc) (auto simp: set_add_def)

lemma js_set_distinct [js_order]: "distinct xs \<Longrightarrow> js_set xs = xs"
  by (simp add: js_set_def foldl_set_add_new)

lemma js_set_idem [js_order, simp]: "js_set (js_set xs) = js_set xs"
  by (rule js_set_distinct) simp

lemma js_set_Nil [simp]: "js_set [] = []"
  by (simp add: js_set_def)

section \<open>Sorting\<close>

lemma set_insert_by [simp]: "set (insert_by lt x xs) = insert x (set xs)"
  by (induction xs) auto

lemma js_sort_Nil [simp]: "js_sort lt [] = []"
  by (simp add: js_sort_def)

lemma js_sort_Cons [simp]: "js_sort lt (x # xs) = insert_by lt x (js_sort lt xs)"
  by (simp add: js_sort_def)

lemma set_js_sort [simp]: "set (js_sort lt xs) = set xs"
  by (induction xs) auto

lemma length_insert_by [simp]: "length (insert_by lt x xs) = Suc (length xs)"
  by (induction xs) auto

lemma length_js_sort [simp]: "length (js_sort lt xs) = length xs"
  by (induction xs) auto

lemma distinct_insert_by [simp]: "distinct (insert_by lt x xs) \<longleftrightarrow> x \<notin> set xs \<and> distinct xs"
  by (induction xs) auto

lemma distinct_js_sort [simp]: "distinct (js_sort lt xs) = distinct xs"
  by (induction xs) auto

text \<open>The order interface of a comparator: what \<open>Array.prototype.sort\<close> requires of it.\<close>

locale comparator =
  fixes lt :: "'a \<Rightarrow> 'a \<Rightarrow> bool"
  assumes lt_asym: "lt x y \<Longrightarrow> \<not> lt y x"
    and not_lt_trans: "\<not> lt y x \<Longrightarrow> \<not> lt z y \<Longrightarrow> \<not> lt z x"
begin

lemma insert_by_sorted:
  "sorted_wrt (\<lambda>a b. \<not> lt b a) xs \<Longrightarrow> sorted_wrt (\<lambda>a b. \<not> lt b a) (insert_by lt x xs)"
proof (induction xs)
  case Nil
  then show ?case by simp
next
  case (Cons y ys)
  then have "\<not> lt y x \<Longrightarrow> z \<in> set ys \<Longrightarrow> \<not> lt z x" for z
    using not_lt_trans [of y x z] by simp
  then show ?case using Cons by (auto dest: lt_asym)
qed

lemma js_sort_sorted: "sorted_wrt (\<lambda>a b. \<not> lt b a) (js_sort lt xs)"
  by (induction xs) (auto simp: insert_by_sorted)

lemma js_sort_id:
  "sorted_wrt (\<lambda>a b. \<not> lt b a) xs \<Longrightarrow> js_sort lt xs = xs"
proof (induction xs)
  case Nil
  then show ?case by simp
next
  case (Cons x xs)
  then have "js_sort lt (x # xs) = insert_by lt x xs" by simp
  also have "\<dots> = x # xs" using Cons.prems by (cases xs) auto
  finally show ?case .
qed

end

section \<open>Decimal numerals\<close>

lemma is_digit_digit_char [simp]: "d < 10 \<Longrightarrow> is_digit (digit_char d)"
  by (simp add: is_digit_def digit_char_def)

lemma digit_val_digit_char [simp]: "d < 10 \<Longrightarrow> digit_val (digit_char d) = d"
  by (simp add: digit_val_def digit_char_def)

lemma show_nat_not_Nil [simp]: "show_nat n \<noteq> []"
  by (subst show_nat.simps) simp

lemma show_nat_digits [js_num]: "c \<in> set (show_nat n) \<Longrightarrow> is_digit c"
proof (induction n arbitrary: c rule: show_nat.induct)
  case (1 n)
  then show ?case
    by (cases "n < 10") (auto simp: show_nat.simps [of n])
qed

lemma digits_val_snoc [simp]: "digits_val (s @ [c]) = 10 * digits_val s + digit_val c"
  by (simp add: digits_val_def)

lemma digits_val_show_nat [js_num, simp]: "digits_val (show_nat n) = n"
proof (induction n rule: show_nat.induct)
  case (1 n)
  show ?case
  proof (cases "n < 10")
    case True
    then show ?thesis by (simp add: show_nat.simps [of n] digits_val_def)
  next
    case False
    then have "digits_val (show_nat n) = 10 * (n div 10) + n mod 10"
      using 1 by (simp add: show_nat.simps [of n])
    then show ?thesis by simp
  qed
qed

lemma show_nat_inject: "show_nat m = show_nat n \<longleftrightarrow> m = n"
  by (metis digits_val_show_nat)

lemma is_digit_not_ws: "is_digit c \<Longrightarrow> \<not> is_ws c"
  by (auto simp: is_digit_def is_ws_def)

lemma show_nat_no_ws [simp]: "c \<in> set (show_nat n) \<Longrightarrow> \<not> is_ws c"
  by (auto dest: show_nat_digits is_digit_not_ws)

end
