(* ===== verification/Playground_Types.thy ===== *)
theory Playground_Types
  imports Complex_Main Js_Prelude
begin

text \<open>
  The data of the playground: \<^verbatim>\<open>features/playground/types.ts\<close> and the constants of
  \<^verbatim>\<open>features/playground/constants.ts\<close>. An optional property is an \<open>option\<close>
  (\<open>None\<close> for \<open>undefined\<close> and for \<open>null\<close>, which the modelled code never tells apart); an
  optional flag that the code only tests for truth is a \<open>bool\<close>, false when absent.
  Sampling parameters are rational numbers: the code only copies them.
\<close>

section \<open>Messages\<close>

datatype message_role = User | Assistant | System

datatype message_status = Loading | Streaming | Complete | Error

datatype playground_mode = Chat | Agent

text \<open>The id of a version is absent when the code spreads a missing version.\<close>

record message_version =
  mv_id :: "string option"
  mv_content :: string

datatype attachment_type = ImageAttachment | TextAttachment

record playground_attachment =
  att_id :: string
  att_type :: attachment_type
  att_name :: string
  att_mimeType :: "string option"
  att_size :: "nat option"
  att_url :: "string option"
  att_textContent :: "string option"

datatype tool_display_status = Pending | Approved | Running | Denied | ToolComplete

record agent_tool_display_result =
  dr_id :: "string option"
  dr_tool :: string
  dr_path :: string
  dr_ok :: bool
  dr_status :: "tool_display_status option"
  dr_requiresApproval :: bool
  dr_summary :: "string option"
  dr_output :: "string option"
  dr_diff :: "string option"
  dr_error :: "string option"

text \<open>Items of the Responses protocol that a conversation keeps (the entries of \<open>summary\<close> and \<open>content\<close>
  are opaque strings: the code only copies them).\<close>

record responses_function_call_item =
  fc_id :: "string option"
  fc_call_id :: string
  fc_name :: string
  fc_arguments :: string
  fc_status :: "string option"

record responses_reasoning_output_item =
  ro_summary :: "string list option"
  ro_encrypted_content :: "string option"
  ro_content :: "string list option"
  ro_status :: "string option"

datatype responses_output_history_item =
    FunctionCall responses_function_call_item
  | Reasoning responses_reasoning_output_item

record message_reasoning =
  re_content :: string
  re_duration :: nat

record message =
  m_key :: string
  m_from :: message_role
  m_versions :: "message_version list"
  m_apiContent :: "string option"
  m_attachments :: "playground_attachment list option"
  m_isAgentToolResult :: bool
  m_agentToolResults :: "agent_tool_display_result list option"
  m_agentResponsesOutputItems :: "responses_output_history_item list option"
  m_agentToolApprovalId :: "string option"
  m_sources :: "(string \<times> string) list option"
  m_reasoning :: "message_reasoning option"
  m_isReasoningStreaming :: bool
  m_isReasoningComplete :: bool
  m_isContentComplete :: bool
  m_status :: "message_status option"
  m_errorCode :: "string option"

text \<open>An object literal with only the three mandatory properties.\<close>

definition plain_message :: "string \<Rightarrow> message_role \<Rightarrow> message_version list \<Rightarrow> message" where
  "plain_message key role versions =
     \<lparr>m_key = key, m_from = role, m_versions = versions, m_apiContent = None,
       m_attachments = None, m_isAgentToolResult = False, m_agentToolResults = None,
       m_agentResponsesOutputItems = None, m_agentToolApprovalId = None, m_sources = None,
       m_reasoning = None, m_isReasoningStreaming = False,
       m_isReasoningComplete = False, m_isContentComplete = False, m_status = None, m_errorCode = None\<rparr>"

section \<open>API payloads\<close>

datatype content_part = TextPart string | ImagePart string

datatype message_content = TextContent string | PartsContent "content_part list"

record chat_completion_message =
  cm_role :: message_role
  cm_content :: message_content

datatype reasoning_effort = EffortNone | EffortMinimal | EffortLow | EffortMedium | EffortHigh
  | EffortXHigh

datatype request_mode = StandardMode | FastMode | CompatibleMode

text \<open>\<open>openaiRequestMode\<close> may be missing in a stored configuration.\<close>

record playground_config =
  pc_model :: string
  pc_group :: string
  pc_openaiReasoningEffort :: reasoning_effort
  pc_openaiRequestMode :: "request_mode option"
  pc_openaiFastMode :: bool
  pc_temperature :: rat
  pc_top_p :: rat
  pc_max_tokens :: int
  pc_frequency_penalty :: rat
  pc_presence_penalty :: rat
  pc_seed :: "int option"
  pc_stream :: bool

record parameter_enabled =
  pe_temperature :: bool
  pe_top_p :: bool
  pe_max_tokens :: bool
  pe_frequency_penalty :: bool
  pe_presence_penalty :: bool
  pe_seed :: bool

record chat_completion_request =
  cr_model :: string
  cr_group :: string
  cr_messages :: "chat_completion_message list"
  cr_stream :: bool
  cr_prompt_cache_key :: "string option"
  cr_reasoning_effort :: "reasoning_effort option"
  cr_service_tier :: "string option"
  cr_temperature :: "rat option"
  cr_top_p :: "rat option"
  cr_max_tokens :: "int option"
  cr_frequency_penalty :: "rat option"
  cr_presence_penalty :: "rat option"
  cr_seed :: "int option"

section \<open>Conversations\<close>

record playground_conversation =
  cv_id :: string
  cv_title :: string
  cv_createdAt :: nat
  cv_updatedAt :: nat
  cv_mode :: "playground_mode option"
  cv_workspaceName :: "string option"
  cv_agentPreviousResponseId :: "string option"
  cv_agentResponsesSentMessageCount :: "nat option"
  cv_agentResponsesPendingToolCallIds :: "string list option"
  cv_agentResponsesModel :: "string option"
  cv_agentResponsesWorkspaceName :: "string option"
  cv_agentResponsesStateVersion :: "nat option"
  cv_messages :: "message list"

section \<open>Constants\<close>

definition API_REQUEST_ERROR :: string where
  "API_REQUEST_ERROR = ''Request error occurred''"

definition PARSE_ERROR :: string where
  "PARSE_ERROR = ''Error parsing response data''"

definition STREAM_START_ERROR :: string where
  "STREAM_START_ERROR = ''Error establishing connection''"

definition CONNECTION_CLOSED :: string where
  "CONNECTION_CLOSED = ''Connection closed''"

definition INTERRUPTED :: string where
  "INTERRUPTED = ''Generation was interrupted''"

text \<open>\<open>DEFAULT_CONFIG\<close> and \<open>DEFAULT_PARAMETER_ENABLED\<close>.\<close>

definition DEFAULT_CONFIG :: playground_config where
  "DEFAULT_CONFIG =
     \<lparr>pc_model = ''gpt-4o'', pc_group = ''default'', pc_openaiReasoningEffort = EffortMedium,
       pc_openaiRequestMode = Some StandardMode, pc_openaiFastMode = False,
       pc_temperature = 7 / 10, pc_top_p = 1, pc_max_tokens = 4096,
       pc_frequency_penalty = 0, pc_presence_penalty = 0, pc_seed = None, pc_stream = True\<rparr>"

definition DEFAULT_PARAMETER_ENABLED :: parameter_enabled where
  "DEFAULT_PARAMETER_ENABLED =
     \<lparr>pe_temperature = True, pe_top_p = True, pe_max_tokens = False,
       pe_frequency_penalty = True, pe_presence_penalty = True, pe_seed = False\<rparr>"

end
