(* ===== verification/Chat_Messages.thy ===== *)
theory Chat_Messages
  imports Playground_Types
begin

text \<open>
  \<^verbatim>\<open>features/playground/lib/message-utils.ts\<close>: construction, validation and API form of
  messages, the separation of \<open><think>\<close> blocks from the visible text, and the operations on
  the last assistant message that the streaming handlers use. A nanoid is an argument of the
  operation that draws it.
\<close>

section \<open>Messages and their versions\<close>

definition createMessageVersion :: "string \<Rightarrow> string \<Rightarrow> message_version" where
  "createMessageVersion nanoid content = \<lparr>mv_id = Some nanoid, mv_content = content\<rparr>"

definition getCurrentVersion :: "message \<Rightarrow> message_version" where
  "getCurrentVersion m =
     (case m_versions m of
        [] \<Rightarrow> \<lparr>mv_id = Some ''default'', mv_content = ''''\<rparr>
      | v # _ \<Rightarrow> v)"

definition updateCurrentVersionContent :: "message \<Rightarrow> string \<Rightarrow> message" where
  "updateCurrentVersionContent m content =
     m\<lparr>m_versions := [(getCurrentVersion m)\<lparr>mv_content := content\<rparr>]\<rparr>"

definition createUserMessage ::
  "string \<Rightarrow> string \<Rightarrow> string \<Rightarrow> playground_attachment list \<Rightarrow> message" where
  "createUserMessage key vid content attachments =
     (plain_message key User [createMessageVersion vid content])\<lparr>m_attachments := Some attachments\<rparr>"

definition createLoadingAssistantMessage :: "string \<Rightarrow> string \<Rightarrow> message" where
  "createLoadingAssistantMessage key vid =
     (plain_message key Assistant [createMessageVersion vid ''''])\<lparr>m_status := Some Loading\<rparr>"

section \<open>The API form of a message\<close>

definition buildMessageContent :: "string \<Rightarrow> string list \<Rightarrow> message_content" where
  "buildMessageContent text imageUrls =
     (let validImages = filter (\<lambda>url. trim url \<noteq> []) imageUrls in
      if validImages = [] then TextContent text
      else PartsContent (TextPart text # map (\<lambda>url. ImagePart (trim url)) validImages))"

fun is_text_part :: "content_part \<Rightarrow> bool" where
  "is_text_part (TextPart _) = True"
| "is_text_part (ImagePart _) = False"

definition getTextContent :: "message_content \<Rightarrow> string" where
  "getTextContent content =
     (case content of
        TextContent s \<Rightarrow> s
      | PartsContent ps \<Rightarrow>
          (case List.find is_text_part ps of Some (TextPart s) \<Rightarrow> s | _ \<Rightarrow> []))"

definition has_text :: "string option \<Rightarrow> bool" where
  "has_text s = (case s of None \<Rightarrow> False | Some t \<Rightarrow> trim t \<noteq> [])"

definition attachments_of :: "message \<Rightarrow> playground_attachment list" where
  "attachments_of m = (case m_attachments m of None \<Rightarrow> [] | Some as \<Rightarrow> as)"

definition attachment_text :: "playground_attachment \<Rightarrow> string" where
  "attachment_text a =
     ''[Attachment: '' @ att_name a @ '']'' @ [CHR 0x0A] @
     (case att_textContent a of None \<Rightarrow> [] | Some t \<Rightarrow> trim t)"

definition NL2 :: string where
  "NL2 = [CHR 0x0A, CHR 0x0A]"

definition formatMessageForAPI :: "message \<Rightarrow> chat_completion_message" where
  "formatMessageForAPI m =
     (let textAttachments = filter (\<lambda>a. att_type a = TextAttachment \<and> has_text (att_textContent a))
                              (attachments_of m);
          imageAttachments = filter (\<lambda>a. att_type a = ImageAttachment \<and> has_text (att_url a))
                              (attachments_of m);
          attachmentText = join NL2 (map attachment_text textAttachments);
          baseContent = (case m_apiContent m of
                           None \<Rightarrow> mv_content (getCurrentVersion m) | Some c \<Rightarrow> c);
          mergedText = join NL2 (filter (\<lambda>s. s \<noteq> []) [trim baseContent, attachmentText])
      in \<lparr>cm_role = m_from m,
          cm_content = buildMessageContent mergedText
            (filter (\<lambda>url. trim url \<noteq> [])
               (map (\<lambda>a. case att_url a of None \<Rightarrow> [] | Some u \<Rightarrow> u) imageAttachments))\<rparr>)"

definition isValidMessage :: "message \<Rightarrow> bool" where
  "isValidMessage m =
     (case m_versions m of
        [] \<Rightarrow> False
      | v # _ \<Rightarrow>
          (let content = (case m_apiContent m of None \<Rightarrow> mv_content v | Some c \<Rightarrow> c) in
           if m_from m = Assistant \<and> trim content = [] then False
           else if m_from m = User \<and> trim content = [] \<and> attachments_of m = [] then False
           else True))"

section \<open>Think tags\<close>

abbreviation (input) think_open :: string where
  "think_open \<equiv> ''<think>''"

abbreviation (input) think_close :: string where
  "think_close \<equiv> ''</think>''"

text \<open>The loop of \<open>parseThinkTags\<close>, as a recursion on the text from \<open>currentPos\<close> on: the
  visible parts, the reasoning parts and whether a tag is left open.\<close>

function think_scan :: "string \<Rightarrow> string list \<times> string list \<times> bool" where
  "think_scan rest =
     (case index_of think_open rest of
        None \<Rightarrow> (if rest = [] then [] else [rest], [], False)
      | Some openPos \<Rightarrow>
          (let before = (if openPos > 0 then [take openPos rest] else []);
               after = drop (openPos + 7) rest in
           case index_of think_close after of
             None \<Rightarrow> (before, [after], True)
           | Some closePos \<Rightarrow>
               (case think_scan (drop (closePos + 8) after) of
                  (vs, rs, unclosed) \<Rightarrow> (before @ vs, take closePos after # rs, unclosed))))"
  by auto

termination
proof (relation "measure length")
  fix rest x2 x xa x2a
  assume "index_of think_open rest = Some x2"
  then have "rest \<noteq> []"
    by (cases rest) (auto simp: index_of_Some_split dest!: index_of_Some_split)
  then show "(drop (x2a + 8) xa, rest) \<in> measure length" if "xa = drop (x2 + 7) rest"
    using that by simp
qed simp

declare think_scan.simps [simp del]

record think_result =
  tr_visibleContent :: string
  tr_reasoning :: string
  tr_hasUnclosedTag :: bool

definition parseThinkTags :: "string \<Rightarrow> think_result" where
  "parseThinkTags content =
     (if \<not> str_includes content think_open
      then \<lparr>tr_visibleContent = content, tr_reasoning = [], tr_hasUnclosedTag = False\<rparr>
      else (case think_scan content of (visibleParts, reasoningParts, hasUnclosed) \<Rightarrow>
        \<lparr>tr_visibleContent = trim (concat visibleParts),
          tr_reasoning = trim (join NL2 reasoningParts),
          tr_hasUnclosedTag = hasUnclosed\<rparr>))"

section \<open>Updating the last assistant message\<close>

definition updateLastAssistantMessage :: "message list \<Rightarrow> (message \<Rightarrow> message) \<Rightarrow> message list" where
  "updateLastAssistantMessage messages updater =
     (if messages = [] then messages
      else if m_from (last messages) \<noteq> Assistant then messages
      else messages[length messages - 1 := updater (last messages)])"

text \<open>A falsy (empty) error code becomes \<open>null\<close>.\<close>

definition errorMessageUpdate :: "string \<Rightarrow> string option \<Rightarrow> message \<Rightarrow> message" where
  "errorMessageUpdate errorMessage errorCode m =
     (updateCurrentVersionContent m (API_REQUEST_ERROR @ '': '' @ errorMessage))
       \<lparr>m_status := Some Error, m_isReasoningStreaming := False,
         m_errorCode := (if errorCode = Some [] then None else errorCode)\<rparr>"

definition updateAssistantMessageWithError ::
  "message list \<Rightarrow> string \<Rightarrow> string option \<Rightarrow> message list" where
  "updateAssistantMessageWithError messages errorMessage errorCode =
     updateLastAssistantMessage messages (errorMessageUpdate errorMessage errorCode)"

definition processStreamingContent :: "message \<Rightarrow> string \<Rightarrow> message" where
  "processStreamingContent m contentChunk =
     (let fullContent = mv_content (getCurrentVersion m) @ contentChunk;
          parsed = parseThinkTags fullContent
      in (updateCurrentVersionContent m fullContent)
           \<lparr>m_reasoning := (if tr_reasoning parsed \<noteq> []
                           then Some \<lparr>re_content = tr_reasoning parsed, re_duration = 0\<rparr>
                           else m_reasoning m),
             m_isReasoningStreaming := tr_hasUnclosedTag parsed\<rparr>)"

text \<open>\<open>a || b\<close> on optional strings: the first one that is neither missing nor empty.\<close>

definition js_or :: "string option \<Rightarrow> string option \<Rightarrow> string option" where
  "js_or a b = (case a of None \<Rightarrow> b | Some s \<Rightarrow> if s = [] then b else a)"

definition finalizeMessage :: "message \<Rightarrow> string option \<Rightarrow> message" where
  "finalizeMessage m apiReasoningContent =
     (let parsed = parseThinkTags (mv_content (getCurrentVersion m));
          finalReasoning =
            js_or apiReasoningContent
              (js_or (map_option re_content (m_reasoning m)) (Some (tr_reasoning parsed)));
          duration = (case m_reasoning m of None \<Rightarrow> 0 | Some r \<Rightarrow> re_duration r)
      in (updateCurrentVersionContent m (tr_visibleContent parsed))
           \<lparr>m_reasoning :=
               (case finalReasoning of
                  None \<Rightarrow> None
                | Some r \<Rightarrow> if r = [] then None
                           else Some \<lparr>re_content = r, re_duration = duration\<rparr>),
             m_isReasoningStreaming := False\<rparr>)"

section \<open>Messages loaded from storage\<close>

definition is_stuck :: "message \<Rightarrow> bool" where
  "is_stuck m \<longleftrightarrow>
     m_from m = Assistant \<and> (m_status m = Some Loading \<or> m_status m = Some Streaming)"

fun find_last_index :: "('a \<Rightarrow> bool) \<Rightarrow> 'a list \<Rightarrow> nat option" where
  "find_last_index P [] = None"
| "find_last_index P (x # xs) =
     (case find_last_index P xs of
        Some i \<Rightarrow> Some (Suc i)
      | None \<Rightarrow> if P x then Some 0 else None)"

definition sanitizeMessage :: "message \<Rightarrow> message" where
  "sanitizeMessage m =
     (let finalized = finalizeMessage m None;
          hasContent = has_text (map_option mv_content
            (case m_versions finalized of [] \<Rightarrow> None | v # _ \<Rightarrow> Some v));
          hasReasoning = has_text (map_option re_content (m_reasoning finalized))
      in if hasContent \<or> hasReasoning
         then finalized\<lparr>m_status := Some Complete, m_isReasoningStreaming := False\<rparr>
         else (updateCurrentVersionContent finalized (API_REQUEST_ERROR @ '': '' @ INTERRUPTED))
                \<lparr>m_status := Some Error, m_isReasoningStreaming := False\<rparr>)"

definition sanitizeMessagesOnLoad :: "message list \<Rightarrow> message list" where
  "sanitizeMessagesOnLoad messages =
     (case find_last_index is_stuck messages of
        None \<Rightarrow> messages
      | Some targetIndex \<Rightarrow> messages[targetIndex := sanitizeMessage (messages ! targetIndex)])"

section \<open>The language of think tags\<close>

text \<open>The specification of the tag syntax: a text is a sequence of visible pieces, closed
  thoughts and at most one open thought at the end. \<open>wf_segments\<close> makes the sequence canonical:
  a visible piece is not empty, contains no opening tag and is not followed by another visible
  piece; a thought ends at the first closing tag.\<close>

datatype think_segment = Visible string | Thought string | OpenThought string

fun is_visible :: "think_segment \<Rightarrow> bool" where
  "is_visible (Visible _) = True"
| "is_visible _ = False"

fun render_segment :: "think_segment \<Rightarrow> string" where
  "render_segment (Visible v) = v"
| "render_segment (Thought r) = think_open @ r @ think_close"
| "render_segment (OpenThought r) = think_open @ r"

definition render_segments :: "think_segment list \<Rightarrow> string" where
  "render_segments segs = concat (map render_segment segs)"

fun wf_segments :: "think_segment list \<Rightarrow> bool" where
  "wf_segments [] = True"
| "wf_segments (Visible v # ss) =
     (v \<noteq> [] \<and> \<not> str_includes v think_open \<and>
      (case ss of [] \<Rightarrow> True | s # _ \<Rightarrow> \<not> is_visible s) \<and> wf_segments ss)"
| "wf_segments (Thought r # ss) = (\<not> str_includes r think_close \<and> wf_segments ss)"
| "wf_segments (OpenThought r # ss) = (\<not> str_includes r think_close \<and> ss = [])"

fun visibles :: "think_segment list \<Rightarrow> string list" where
  "visibles [] = []"
| "visibles (Visible v # ss) = v # visibles ss"
| "visibles (_ # ss) = visibles ss"

fun thoughts :: "think_segment list \<Rightarrow> string list" where
  "thoughts [] = []"
| "thoughts (Visible v # ss) = thoughts ss"
| "thoughts (Thought r # ss) = r # thoughts ss"
| "thoughts (OpenThought r # ss) = r # thoughts ss"

fun left_open :: "think_segment list \<Rightarrow> bool" where
  "left_open [] = False"
| "left_open (OpenThought r # ss) = True"
| "left_open (_ # ss) = left_open ss"

text \<open>What \<open>parseThinkTags\<close> owes for a text given by its segments.\<close>

definition think_spec :: "think_segment list \<Rightarrow> think_result" where
  "think_spec segs =
     (if list_all is_visible segs
      then \<lparr>tr_visibleContent = render_segments segs, tr_reasoning = [], tr_hasUnclosedTag = False\<rparr>
      else \<lparr>tr_visibleContent = trim (concat (visibles segs)),
             tr_reasoning = trim (join NL2 (thoughts segs)),
             tr_hasUnclosedTag = left_open segs\<rparr>)"

lemma render_segments_simps [simp]:
  "render_segments [] = []"
  "render_segments (s # ss) = render_segment s @ render_segments ss"
  by (simp_all add: render_segments_def)

lemma index_of_open:
  "\<not> str_includes v think_open \<Longrightarrow> index_of think_open (v @ think_open @ r) = Some (length v)"
  by (rule index_of_fresh) auto

lemma index_of_close:
  "\<not> str_includes v think_close \<Longrightarrow> index_of think_close (v @ think_close @ r) = Some (length v)"
  by (rule index_of_fresh) auto

lemma think_scan_none: "\<not> str_includes s think_open \<Longrightarrow>
  think_scan s = (if s = [] then [] else [s], [], False)"
  by (subst think_scan.simps) (simp add: str_includes_def)

lemma think_scan_closed:
  assumes "\<not> str_includes v think_open" "\<not> str_includes r think_close"
  shows "think_scan (v @ think_open @ r @ think_close @ s) =
    (case think_scan s of (vs, rs, u) \<Rightarrow> ((if v = [] then [] else [v]) @ vs, r # rs, u))"
  by (subst think_scan.simps)
    (use index_of_open [OF assms(1), of "r @ think_close @ s"] index_of_close [OF assms(2), of s]
      in \<open>simp del: index_of.simps starts_with_Cons add: Let_def\<close>)

lemma think_scan_open:
  assumes "\<not> str_includes v think_open" "\<not> str_includes r think_close"
  shows "think_scan (v @ think_open @ r) = (if v = [] then [] else [v], [r], True)"
  by (subst think_scan.simps)
    (use index_of_open [OF assms(1), of r] assms(2)
      in \<open>simp del: index_of.simps starts_with_Cons add: Let_def str_includes_def\<close>)

text \<open>Every text is one of these three forms.\<close>

lemma think_cases:
  obtains (none) "\<not> str_includes s think_open"
  | (opened) v r where "s = v @ think_open @ r"
      "\<not> str_includes v think_open" "\<not> str_includes r think_close"
  | (closed) v r t where "s = v @ think_open @ r @ think_close @ t"
      "\<not> str_includes v think_open" "\<not> str_includes r think_close"
proof (cases "index_of think_open s")
  case None
  then show ?thesis using none by (simp add: str_includes_def)
next
  case (Some i)
  let ?a = "drop (i + length think_open) s"
  have s: "s = take i s @ think_open @ ?a" using index_of_Some_split [OF Some] by blast
  have v: "\<not> str_includes (take i s) think_open" by (rule index_of_Some_prefix [OF _ Some]) simp
  show ?thesis
  proof (cases "index_of think_close ?a")
    case None
    then show ?thesis using opened [OF s v] by (simp add: str_includes_def)
  next
    case Some': (Some j)
    have "?a = take j ?a @ think_close @ drop (j + length think_close) ?a"
      using index_of_Some_split [OF Some'] by blast
    moreover have "\<not> str_includes (take j ?a) think_close"
      by (rule index_of_Some_prefix [OF _ Some']) simp
    ultimately show ?thesis using closed [OF _ v] s by metis
  qed
qed

lemma think_scan_render:
  "wf_segments segs \<Longrightarrow>
    think_scan (render_segments segs) = (visibles segs, thoughts segs, left_open segs)"
proof (induction segs rule: wf_segments.induct)
  case 1
  then show ?case by (subst think_scan.simps) simp
next
  case (2 v ss)
  show ?case
  proof (cases ss)
    case Nil
    then show ?thesis using 2 think_scan_none [of v] by simp
  next
    case (Cons s ss')
    show ?thesis
    proof (cases s)
      case (Visible x)
      then show ?thesis using 2 Cons by simp
    next
      case (Thought r)
      have nil: "\<not> str_includes [] think_open" by (simp add: str_includes_def)
      have r: "\<not> str_includes r think_close" and w: "wf_segments ss'"
        using 2(2) Cons Thought by auto
      have "think_scan (render_segments ss) = (visibles ss, thoughts ss, left_open ss)"
        using 2 by simp
      then have "(case think_scan (render_segments ss') of (vs, rs, u) \<Rightarrow> (vs, r # rs, u))
          = (visibles ss, thoughts ss, left_open ss)"
        using think_scan_closed [OF nil r, of "render_segments ss'"] Cons Thought by simp
      then show ?thesis
        using think_scan_closed [of v r "render_segments ss'"] 2(2) r Cons Thought
        by (auto split: prod.splits)
    next
      case (OpenThought r)
      then show ?thesis using 2 Cons think_scan_open [of v r] by simp
    qed
  qed
next
  case (3 r ss)
  then show ?case
    using think_scan_closed [of "[]" r "render_segments ss"] by (simp add: str_includes_def)
next
  case (4 r ss)
  then show ?case using think_scan_open [of "[]" r] by (simp add: str_includes_def)
qed

lemma segments_exist: "\<exists>segs. wf_segments segs \<and> render_segments segs = s"
proof (induction s rule: length_induct)
  case (1 s)
  show ?case
  proof (cases s rule: think_cases)
    case none
    then show ?thesis
      by (intro exI [of _ "if s = [] then [] else [Visible s]"]) simp
  next
    case (opened v r)
    then show ?thesis
      by (intro exI [of _ "(if v = [] then [] else [Visible v]) @ [OpenThought r]"]) simp
  next
    case (closed v r t)
    then have "length t < length s" by simp
    then obtain segs where "wf_segments segs" "render_segments segs = t" using 1 by blast
    with closed show ?thesis
      by (intro exI [of _ "(if v = [] then [] else [Visible v]) @ Thought r # segs"]) simp
  qed
qed

lemma includes_open_segments:
  assumes "wf_segments segs"
  shows "str_includes (render_segments segs) think_open \<longleftrightarrow> \<not> list_all is_visible segs"
proof
  assume "\<not> list_all is_visible segs"
  then obtain s where "s \<in> set segs" "\<not> is_visible s" by (auto simp: list_all_iff)
  then obtain ss ts where "segs = ss @ s # ts" by (auto simp: in_set_conv_decomp)
  moreover obtain r where "render_segment s = think_open @ r"
    using \<open>\<not> is_visible s\<close> by (cases s) auto
  ultimately have "render_segments segs =
      render_segments ss @ think_open @ (r @ render_segments ts)"
    by (simp add: render_segments_def)
  then show "str_includes (render_segments segs) think_open" unfolding includes_iff by blast
next
  assume *: "str_includes (render_segments segs) think_open"
  show "\<not> list_all is_visible segs"
  proof
    assume v: "list_all is_visible segs"
    show False
    proof (cases segs)
      case Nil
      then show ?thesis using * by (simp add: str_includes_def)
    next
      case (Cons s ss)
      then obtain x where "s = Visible x" using v by (cases s) auto
      with Cons v assms have "ss = []" by (cases ss) auto
      then show ?thesis using * assms Cons \<open>s = Visible x\<close> by simp
    qed
  qed
qed

lemma parseThinkTags_render:
  "wf_segments segs \<Longrightarrow> parseThinkTags (render_segments segs) = think_spec segs"
  by (simp add: parseThinkTags_def think_spec_def includes_open_segments think_scan_render)

section \<open>Frame lemmas of the updates\<close>

lemma updateCurrentVersionContent_simps [simp]:
  "m_key (updateCurrentVersionContent m c) = m_key m"
  "m_from (updateCurrentVersionContent m c) = m_from m"
  "m_status (updateCurrentVersionContent m c) = m_status m"
  "m_reasoning (updateCurrentVersionContent m c) = m_reasoning m"
  "m_errorCode (updateCurrentVersionContent m c) = m_errorCode m"
  "mv_content (getCurrentVersion (updateCurrentVersionContent m c)) = c"
  by (simp_all add: updateCurrentVersionContent_def getCurrentVersion_def)

lemma getCurrentVersion_update [simp]:
  "getCurrentVersion (m\<lparr>m_reasoning := r\<rparr>) = getCurrentVersion m"
  "getCurrentVersion (m\<lparr>m_isReasoningStreaming := b\<rparr>) = getCurrentVersion m"
  "getCurrentVersion (m\<lparr>m_status := s\<rparr>) = getCurrentVersion m"
  "getCurrentVersion (m\<lparr>m_errorCode := e\<rparr>) = getCurrentVersion m"
  "getCurrentVersion (m\<lparr>m_versions := [v]\<rparr>) = v"
  by (simp_all add: getCurrentVersion_def)

lemma processStreamingContent_simps [simp]:
  "m_key (processStreamingContent m c) = m_key m"
  "m_from (processStreamingContent m c) = m_from m"
  "m_status (processStreamingContent m c) = m_status m"
  "m_errorCode (processStreamingContent m c) = m_errorCode m"
  "mv_content (getCurrentVersion (processStreamingContent m c)) = mv_content (getCurrentVersion m) @ c"
  "m_reasoning (processStreamingContent m c) =
     (let r = tr_reasoning (parseThinkTags (mv_content (getCurrentVersion m) @ c)) in
      if r \<noteq> [] then Some \<lparr>re_content = r, re_duration = 0\<rparr> else m_reasoning m)"
  "m_isReasoningStreaming (processStreamingContent m c) =
     tr_hasUnclosedTag (parseThinkTags (mv_content (getCurrentVersion m) @ c))"
  by (simp_all add: processStreamingContent_def Let_def)

lemma finalizeMessage_simps [simp]:
  "m_key (finalizeMessage m a) = m_key m"
  "m_from (finalizeMessage m a) = m_from m"
  "m_status (finalizeMessage m a) = m_status m"
  "m_isReasoningStreaming (finalizeMessage m a) = False"
  "mv_content (getCurrentVersion (finalizeMessage m a)) =
     tr_visibleContent (parseThinkTags (mv_content (getCurrentVersion m)))"
  by (simp_all add: finalizeMessage_def Let_def)

lemma errorMessageUpdate_simps [simp]:
  "m_key (errorMessageUpdate e c m) = m_key m"
  "m_from (errorMessageUpdate e c m) = m_from m"
  "m_status (errorMessageUpdate e c m) = Some Error"
  "mv_content (getCurrentVersion (errorMessageUpdate e c m)) = API_REQUEST_ERROR @ '': '' @ e"
  by (simp_all add: errorMessageUpdate_def)

lemma sanitizeMessage_simps [simp]:
  "m_key (sanitizeMessage m) = m_key m"
  "m_from (sanitizeMessage m) = m_from m"
  by (simp_all add: sanitizeMessage_def Let_def)

lemma sanitizeMessage_not_stuck [simp]: "\<not> is_stuck (sanitizeMessage m)"
  by (simp add: sanitizeMessage_def Let_def is_stuck_def)

text \<open>The contract every updater of the last assistant message meets: it keeps the key and the
  role of the message.\<close>

locale message_updater =
  fixes updater :: "message \<Rightarrow> message"
  assumes keeps_key: "m_key (updater m) = m_key m"
    and keeps_role: "m_from (updater m) = m_from m"
begin

lemma update_keys: "map m_key (updateLastAssistantMessage ms updater) = map m_key ms"
  by (cases ms rule: rev_cases)
    (auto simp: updateLastAssistantMessage_def keeps_key list_update_append)

lemma update_roles: "map m_from (updateLastAssistantMessage ms updater) = map m_from ms"
  by (cases ms rule: rev_cases)
    (auto simp: updateLastAssistantMessage_def keeps_role list_update_append)

lemma update_earlier: "butlast (updateLastAssistantMessage ms updater) = butlast ms"
  by (cases ms rule: rev_cases) (auto simp: updateLastAssistantMessage_def list_update_append)

lemma update_empty: "updateLastAssistantMessage ms updater = [] \<longleftrightarrow> ms = []"
  by (simp add: updateLastAssistantMessage_def)

end

lemma updateLastAssistantMessage_Nil [simp]: "updateLastAssistantMessage [] f = []"
  by (simp add: updateLastAssistantMessage_def)

lemma updateLastAssistantMessage_snoc [simp]:
  "updateLastAssistantMessage (ms @ [m]) f = ms @ [if m_from m = Assistant then f m else m]"
  by (simp add: updateLastAssistantMessage_def)

interpretation error_update: message_updater "errorMessageUpdate e c"
  by unfold_locales simp_all

section \<open>Streaming a content\<close>

lemma stream_content:
  "mv_content (getCurrentVersion (foldl processStreamingContent m cs)) =
     mv_content (getCurrentVersion m) @ concat cs"
  by (induction cs arbitrary: m) simp_all

lemma stream_reasoning:
  assumes "cs \<noteq> []"
    and "tr_reasoning (parseThinkTags (mv_content (getCurrentVersion m) @ concat cs)) = r" "r \<noteq> []"
  shows "m_reasoning (foldl processStreamingContent m cs) = Some \<lparr>re_content = r, re_duration = 0\<rparr>"
  using assms
  by (cases cs rule: rev_cases) (simp_all add: stream_content Let_def)

lemma js_or_simps [simp]:
  "js_or None b = b" "js_or (Some []) b = b" "s \<noteq> [] \<Longrightarrow> js_or (Some s) b = Some s"
  by (simp_all add: js_or_def)

section \<open>Loading from storage\<close>

lemma find_last_index_None: "find_last_index P xs = None \<longleftrightarrow> filter P xs = []"
  by (induction xs) (auto split: option.splits)

lemma find_last_index_Some:
  "find_last_index P xs = Some i \<Longrightarrow>
     i < length xs \<and> P (xs ! i) \<and> filter P (drop (Suc i) xs) = []"
  by (induction xs arbitrary: i)
    (auto split: option.splits if_splits simp: find_last_index_None)

lemma sanitize_target:
  assumes "find_last_index is_stuck ms = Some i"
  shows "\<exists>as m bs. ms = as @ m # bs \<and> is_stuck m \<and> filter is_stuck bs = [] \<and>
    sanitizeMessagesOnLoad ms = as @ sanitizeMessage m # bs"
proof -
  have i: "i < length ms" "is_stuck (ms ! i)" "filter is_stuck (drop (Suc i) ms) = []"
    using find_last_index_Some [OF assms] by auto
  have "ms = take i ms @ ms ! i # drop (Suc i) ms" using i(1) by (simp add: id_take_nth_drop)
  moreover have "sanitizeMessagesOnLoad ms = take i ms @ sanitizeMessage (ms ! i) # drop (Suc i) ms"
    using i(1) by (simp add: sanitizeMessagesOnLoad_def assms upd_conv_take_nth_drop)
  ultimately show ?thesis using i by blast
qed

section \<open>Properties\<close>

text \<open>C31: \<open>parseThinkTags\<close> is exact. Every content has a decomposition into visible pieces, closed
  thoughts and an optional open thought, and for every canonical decomposition the function
  returns the trimmed concatenation of the visible pieces, the trimmed thoughts separated by
  blank lines, and whether the last thought is open; a content without an opening tag is
  returned as it is.\<close>

theorem parse_think_exact:
  "(\<exists>segs. wf_segments segs \<and> render_segments segs = content) \<and>
   (\<forall>segs. wf_segments segs \<longrightarrow> render_segments segs = content \<longrightarrow>
      parseThinkTags content = think_spec segs)"
  using segments_exist parseThinkTags_render by blast

theorem parse_think_exact_witness:
  "parseThinkTags ''a<think>b</think>c <think>d'' =
     \<lparr>tr_visibleContent = ''ac'', tr_reasoning = ''b'' @ NL2 @ ''d'', tr_hasUnclosedTag = True\<rparr>"
proof -
  let ?segs = "[Visible ''a'', Thought ''b'', Visible ''c '', OpenThought ''d'']"
  have "wf_segments ?segs" by (simp add: str_includes_def)
  moreover have "render_segments ?segs = ''a<think>b</think>c <think>d''" by simp
  moreover have "think_spec ?segs =
      \<lparr>tr_visibleContent = ''ac'', tr_reasoning = ''b'' @ NL2 @ ''d'', tr_hasUnclosedTag = True\<rparr>"
    by (simp add: think_spec_def trim_def trim_by_def is_ws_def NL2_def)
  ultimately show ?thesis
    using parse_think_exact [of "''a<think>b</think>c <think>d''"] by metis
qed

text \<open>loading a conversation settles exactly one stuck message (an assistant message that is
  still loading or streaming): the number of stuck messages drops by one, stopping at zero, and no
  message is added, removed, reordered or given another author. A conversation with one stuck
  message is therefore stable after loading, and one with several is not.\<close>

theorem sanitize_settles_one:
  "length (filter is_stuck (sanitizeMessagesOnLoad ms)) = length (filter is_stuck ms) - 1 \<and>
   map m_key (sanitizeMessagesOnLoad ms) = map m_key ms \<and>
   map m_from (sanitizeMessagesOnLoad ms) = map m_from ms"
proof (cases "find_last_index is_stuck ms")
  case None
  moreover from None have "filter is_stuck ms = []" by (simp only: find_last_index_None)
  ultimately show ?thesis by (simp add: sanitizeMessagesOnLoad_def)
next
  case (Some i)
  from sanitize_target [OF this] show ?thesis by fastforce
qed

end
