(* ===== verification/Chat_Stream.thy ===== *)
theory Chat_Stream
  imports Chat_Messages
begin

text \<open>
  The streaming chat: the connection of \<^verbatim>\<open>features/playground/hooks/use-stream-request.ts\<close> with
  its retries, and the message handlers of \<^verbatim>\<open>features/playground/hooks/use-chat-handler.ts\<close> that
  it calls back.

  The refs of the hook and the variable \<open>retryCount\<close> of a request are the fields of
  \<open>stream_state\<close>. An event handler maps a state to the next state and the callbacks it makes, in
  order. Events carry the payload as the handler reads it after \<open>JSON.parse\<close>. The server-sent
  events library is outside: its events are delivered only while a source is open, the timer
  event only while a timer is set, and \<open>stream()\<close> may throw (the flag \<open>starts\<close> is false then).
\<close>

section \<open>The connection\<close>

definition MAX_STREAM_RETRIES :: nat where
  "MAX_STREAM_RETRIES = 5"

definition STREAM_RETRY_DELAYS :: "nat list" where
  "STREAM_RETRY_DELAYS = [5000, 20000, 45000, 90000, 120000]"

record stream_state =
  st_source :: bool
  st_timer :: "nat option"
  st_complete :: bool
  st_stopped :: bool
  st_streaming :: bool
  st_retryCount :: nat

datatype update_type = ReasoningUpdate | ContentUpdate

datatype callback =
    OnUpdate update_type string
  | OnComplete
  | OnError string "string option"
  | OnReconnect string nat nat nat "string option"

text \<open>The data of a message event: the end mark, the \<open>delta\<close> of the first choice (its reasoning
  and content, when there is one), or text that is not JSON.\<close>

datatype sse_data = DoneMark | Delta "(string option \<times> string option) option" | Malformed

text \<open>An error event carries the ready state of the source, its data, and, when the data is JSON
  with an \<open>error\<close> object, the message and code of that object.\<close>

datatype stream_event =
    MessageEvent sse_data
  | ErrorEvent nat "string option" "(string option \<times> string option) option"
  | ReadyStateChange "nat option" "nat option"
  | TimerFires bool
  | StopStream

definition closeSource :: "stream_state \<Rightarrow> stream_state" where
  "closeSource st = st\<lparr>st_source := False\<rparr>"

definition clearRetryTimer :: "stream_state \<Rightarrow> stream_state" where
  "clearRetryTimer st = st\<lparr>st_timer := None\<rparr>"

definition finishWithError ::
  "string \<Rightarrow> string option \<Rightarrow> stream_state \<Rightarrow> stream_state \<times> callback list" where
  "finishWithError msg code st =
     (if \<not> st_complete st \<and> \<not> st_stopped st
      then (closeSource (st\<lparr>st_streaming := False\<rparr>), [OnError msg code])
      else (st, []))"

definition retry_delay :: "nat \<Rightarrow> nat" where
  "retry_delay n =
     (if n - 1 < length STREAM_RETRY_DELAYS \<and> STREAM_RETRY_DELAYS ! (n - 1) \<noteq> 0
      then STREAM_RETRY_DELAYS ! (n - 1)
      else STREAM_RETRY_DELAYS ! (length STREAM_RETRY_DELAYS - 1))"

definition handleError ::
  "string \<Rightarrow> string option \<Rightarrow> stream_state \<Rightarrow> stream_state \<times> callback list" where
  "handleError msg code st =
     (if st_complete st \<or> st_stopped st then (st, [])
      else let st1 = closeSource st in
        if st_retryCount st1 \<ge> MAX_STREAM_RETRIES then finishWithError msg code st1
        else let n = st_retryCount st1 + 1; delayMs = retry_delay n in
          ((clearRetryTimer (st1\<lparr>st_retryCount := n\<rparr>))\<lparr>st_timer := Some delayMs\<rparr>,
           [OnReconnect msg n MAX_STREAM_RETRIES delayMs code]))"

definition startStream :: "bool \<Rightarrow> stream_state \<Rightarrow> stream_state \<times> callback list" where
  "startStream starts st =
     (if st_stopped st \<or> st_complete st then (st, [])
      else let st1 = st\<lparr>st_source := True\<rparr> in
        if starts then (st1, []) else handleError STREAM_START_ERROR None st1)"

definition sendStreamRequest :: "bool \<Rightarrow> stream_state \<Rightarrow> stream_state \<times> callback list" where
  "sendStreamRequest starts st =
     startStream starts (st\<lparr>st_complete := False, st_stopped := False, st_streaming := True,
       st_retryCount := 0\<rparr>)"

definition delta_updates :: "(string option \<times> string option) option \<Rightarrow> callback list" where
  "delta_updates delta =
     (case delta of
        None \<Rightarrow> []
      | Some (reasoning, content) \<Rightarrow>
          (case reasoning of Some r \<Rightarrow> if r = [] then [] else [OnUpdate ReasoningUpdate r] | None \<Rightarrow> []) @
          (case content of Some c \<Rightarrow> if c = [] then [] else [OnUpdate ContentUpdate c] | None \<Rightarrow> []))"

definition onMessage :: "sse_data \<Rightarrow> stream_state \<Rightarrow> stream_state \<times> callback list" where
  "onMessage data st =
     (if st_stopped st then (st, [])
      else case data of
        DoneMark \<Rightarrow>
          (clearRetryTimer (closeSource (st\<lparr>st_complete := True, st_streaming := False\<rparr>)), [OnComplete])
      | Delta delta \<Rightarrow> (st, delta_updates delta)
      | Malformed \<Rightarrow> handleError PARSE_ERROR None st)"

definition onErrorEvent ::
  "nat \<Rightarrow> string option \<Rightarrow> (string option \<times> string option) option \<Rightarrow> stream_state \<Rightarrow>
   stream_state \<times> callback list" where
  "onErrorEvent readyState data parsed st =
     (if st_stopped st then (st, [])
      else if readyState \<noteq> 2 then
        (let raw = js_or data (Some API_REQUEST_ERROR);
             (msg, code) =
               (if js_or data None = None then (raw, None)
                else case parsed of
                  None \<Rightarrow> (raw, None)
                | Some (m, c) \<Rightarrow> (js_or m raw, js_or c None))
         in handleError (case msg of None \<Rightarrow> [] | Some s \<Rightarrow> s) code st)
      else (st, []))"

definition onReadyStateChange ::
  "nat option \<Rightarrow> nat option \<Rightarrow> stream_state \<Rightarrow> stream_state \<times> callback list" where
  "onReadyStateChange readyState status st =
     (if st_stopped st then (st, [])
      else case (readyState, status) of
        (Some rs, Some code) \<Rightarrow>
          if rs \<ge> 2 \<and> code \<noteq> 200
          then handleError (''HTTP '' @ show_nat code @ '': '' @ CONNECTION_CLOSED) None st
          else (st, [])
      | _ \<Rightarrow> (st, []))"

definition stopStream :: "stream_state \<Rightarrow> stream_state" where
  "stopStream st = st\<lparr>st_stopped := True, st_timer := None, st_source := False, st_streaming := False\<rparr>"

section \<open>The message handlers\<close>

text \<open>\<open>[{ ...message.versions[0], content }]\<close>: spreading a missing version gives no id.\<close>

definition versionsWithContent :: "message \<Rightarrow> string \<Rightarrow> message_version list" where
  "versionsWithContent m content =
     [\<lparr>mv_id = (case m_versions m of [] \<Rightarrow> None | v # _ \<Rightarrow> mv_id v), mv_content = content\<rparr>]"

definition reconnecting :: "message \<Rightarrow> bool" where
  "reconnecting m \<longleftrightarrow> m_errorCode m = Some ''reconnecting''"

definition streamUpdate :: "update_type \<Rightarrow> string \<Rightarrow> message \<Rightarrow> message" where
  "streamUpdate type chunk m =
     (if m_status m = Some Error then m
      else case type of
        ReasoningUpdate \<Rightarrow>
          m\<lparr>m_versions := (if reconnecting m then versionsWithContent m [] else m_versions m),
            m_reasoning := Some \<lparr>re_content =
              (if reconnecting m then chunk
               else (case m_reasoning m of None \<Rightarrow> [] | Some r \<Rightarrow> re_content r) @ chunk),
              re_duration = 0\<rparr>,
            m_errorCode := None, m_isReasoningStreaming := True, m_status := Some Streaming\<rparr>
      | ContentUpdate \<Rightarrow>
          (if reconnecting m
           then (processStreamingContent
                  (m\<lparr>m_versions := versionsWithContent m [], m_errorCode := None\<rparr>) chunk)
                  \<lparr>m_status := Some Streaming\<rparr>
           else (processStreamingContent m chunk)\<lparr>m_status := Some Streaming\<rparr>))"

definition streamComplete :: "message \<Rightarrow> message" where
  "streamComplete m =
     (if m_status m = Some Complete \<or> m_status m = Some Error then m
      else (finalizeMessage m None)\<lparr>m_status := Some Complete\<rparr>)"

definition streamReconnect :: "string \<Rightarrow> message \<Rightarrow> message" where
  "streamReconnect notice m =
     m\<lparr>m_versions := versionsWithContent m notice, m_status := Some Loading,
       m_errorCode := Some ''reconnecting'', m_isReasoningStreaming := False\<rparr>"

definition stopUpdate :: "message \<Rightarrow> message" where
  "stopUpdate m =
     (if m_status m = Some Loading \<or> m_status m = Some Streaming
      then (finalizeMessage m None)\<lparr>m_status := Some Complete\<rparr> else m)"

text \<open>The handlers on the message list; \<open>t\<close> is the translated reconnection notice for an error,
  an attempt and the maximal number of attempts.\<close>

type_synonym notice = "string \<Rightarrow> nat \<Rightarrow> nat \<Rightarrow> string"

definition handleStreamUpdate :: "update_type \<Rightarrow> string \<Rightarrow> message list \<Rightarrow> message list" where
  "handleStreamUpdate type chunk prev = updateLastAssistantMessage prev (streamUpdate type chunk)"

definition handleStreamComplete :: "message list \<Rightarrow> message list" where
  "handleStreamComplete prev = updateLastAssistantMessage prev streamComplete"

definition handleStreamError :: "string \<Rightarrow> string option \<Rightarrow> message list \<Rightarrow> message list" where
  "handleStreamError err code prev = updateAssistantMessageWithError prev err code"

definition handleStreamReconnect ::
  "notice \<Rightarrow> string \<Rightarrow> nat \<Rightarrow> nat \<Rightarrow> message list \<Rightarrow> message list" where
  "handleStreamReconnect t err attempt maxAttempts prev =
     updateLastAssistantMessage prev (streamReconnect (t err attempt maxAttempts))"

fun apply_callback :: "notice \<Rightarrow> callback \<Rightarrow> message list \<Rightarrow> message list" where
  "apply_callback t (OnUpdate type chunk) ms = handleStreamUpdate type chunk ms"
| "apply_callback t OnComplete ms = handleStreamComplete ms"
| "apply_callback t (OnError err code) ms = handleStreamError err code ms"
| "apply_callback t (OnReconnect err n mx delay code) ms = handleStreamReconnect t err n mx ms"

definition apply_callbacks :: "notice \<Rightarrow> callback list \<Rightarrow> message list \<Rightarrow> message list" where
  "apply_callbacks t cbs ms = foldl (\<lambda>ms cb. apply_callback t cb ms) ms cbs"

text \<open>The non-streaming request: a response with its first choice (content and reasoning), a
  response without choices, or a failure with the message of the response, the message of the
  error and the error code.\<close>

datatype completion_outcome =
    Choice "string option" "string option"
  | NoChoice
  | Failure "string option" "string option" "string option"

definition nonStreamingUpdate :: "string option \<Rightarrow> string option \<Rightarrow> message \<Rightarrow> message" where
  "nonStreamingUpdate content reasoning m =
     (finalizeMessage
        (m\<lparr>m_versions := versionsWithContent m (case content of None \<Rightarrow> [] | Some c \<Rightarrow> c)\<rparr>) reasoning)
       \<lparr>m_status := Some Complete\<rparr>"

definition sendNonStreamingChat :: "completion_outcome \<Rightarrow> message list \<Rightarrow> message list" where
  "sendNonStreamingChat outcome prev =
     (case outcome of
        Choice content reasoning \<Rightarrow>
          updateLastAssistantMessage prev (nonStreamingUpdate content reasoning)
      | NoChoice \<Rightarrow> prev
      | Failure responseMsg errMsg code \<Rightarrow>
          handleStreamError
            (case js_or responseMsg (js_or errMsg (Some API_REQUEST_ERROR)) of None \<Rightarrow> [] | Some s \<Rightarrow> s)
            (js_or code None) prev)"

section \<open>The composed system\<close>

record chat_state =
  ch_stream :: stream_state
  ch_messages :: "message list"

definition stopGeneration :: "chat_state \<Rightarrow> chat_state" where
  "stopGeneration s =
     s\<lparr>ch_stream := stopStream (ch_stream s),
       ch_messages := updateLastAssistantMessage (ch_messages s) stopUpdate\<rparr>"

definition handle_event :: "stream_event \<Rightarrow> stream_state \<Rightarrow> stream_state \<times> callback list" where
  "handle_event ev st =
     (case ev of
        MessageEvent data \<Rightarrow> onMessage data st
      | ErrorEvent rs data parsed \<Rightarrow> onErrorEvent rs data parsed st
      | ReadyStateChange rs status \<Rightarrow> onReadyStateChange rs status st
      | TimerFires starts \<Rightarrow> startStream starts (st\<lparr>st_timer := None\<rparr>)
      | StopStream \<Rightarrow> (stopStream st, []))"

text \<open>Which events the environment can deliver.\<close>

fun enabled :: "stream_event \<Rightarrow> stream_state \<Rightarrow> bool" where
  "enabled (TimerFires _) st = (st_timer st \<noteq> None)"
| "enabled StopStream st = True"
| "enabled _ st = st_source st"

definition chat_event :: "notice \<Rightarrow> stream_event \<Rightarrow> chat_state \<Rightarrow> chat_state" where
  "chat_event t ev s =
     (if ev = StopStream then stopGeneration s
      else case handle_event ev (ch_stream s) of (st, cbs) \<Rightarrow>
        s\<lparr>ch_stream := st, ch_messages := apply_callbacks t cbs (ch_messages s)\<rparr>)"

definition send_chat :: "notice \<Rightarrow> bool \<Rightarrow> chat_state \<Rightarrow> chat_state" where
  "send_chat t starts s =
     (case sendStreamRequest starts (ch_stream s) of (st, cbs) \<Rightarrow>
        s\<lparr>ch_stream := st, ch_messages := apply_callbacks t cbs (ch_messages s)\<rparr>)"

text \<open>The runs of one request: the callbacks made so far and the connection reached.\<close>

inductive request_run :: "stream_state \<Rightarrow> callback list \<Rightarrow> stream_state \<Rightarrow> bool"
  for st0 :: stream_state where
  send: "sendStreamRequest starts st0 = (st, cbs) \<Longrightarrow> request_run st0 cbs st"
| event: "request_run st0 cbs st \<Longrightarrow> enabled ev st \<Longrightarrow> handle_event ev st = (st', cbs') \<Longrightarrow>
    request_run st0 (cbs @ cbs') st'"

inductive chat_run :: "notice \<Rightarrow> chat_state \<Rightarrow> chat_state \<Rightarrow> bool"
  for t :: notice and s0 :: chat_state where
  send: "chat_run t s0 (send_chat t starts s0)"
| event: "chat_run t s0 s \<Longrightarrow> enabled ev (ch_stream s) \<Longrightarrow> chat_run t s0 (chat_event t ev s)"

section \<open>The connection is never lost\<close>

text \<open>While a request is streaming, it is neither complete nor stopped and exactly one of an open
  source and a retry timer keeps it alive; otherwise neither is left.\<close>

definition idle :: "stream_state \<Rightarrow> bool" where
  "idle st \<longleftrightarrow> \<not> st_streaming st \<and> \<not> st_source st \<and> st_timer st = None"

definition conn_inv :: "stream_state \<Rightarrow> bool" where
  "conn_inv st \<longleftrightarrow>
     (if st_streaming st
      then \<not> st_complete st \<and> \<not> st_stopped st \<and> (st_source st \<longleftrightarrow> st_timer st = None)
      else \<not> st_source st \<and> st_timer st = None) \<and>
     st_retryCount st \<le> MAX_STREAM_RETRIES"

lemmas stream_defs = closeSource_def clearRetryTimer_def finishWithError_def handleError_def
  startStream_def stopStream_def onMessage_def onErrorEvent_def onReadyStateChange_def

text \<open>The abstract connection: what a step of a request may do. A live request delivers an update,
  reopens its source, schedules the next retry, fails after the last retry or completes; any
  request can be stopped.\<close>

inductive conn_step :: "stream_state \<Rightarrow> callback list \<Rightarrow> stream_state \<Rightarrow> bool" where
  update: "st_streaming st \<Longrightarrow> cbs = delta_updates d \<Longrightarrow> conn_step st cbs st"
| skip: "conn_step st [] st"
| restart: "st_streaming st \<Longrightarrow> conn_step st [] (st\<lparr>st_timer := None, st_source := True\<rparr>)"
| retry: "st_streaming st \<Longrightarrow> n = st_retryCount st + 1 \<Longrightarrow> n \<le> MAX_STREAM_RETRIES \<Longrightarrow>
    conn_step st [OnReconnect msg n MAX_STREAM_RETRIES (retry_delay n) code]
      (st\<lparr>st_source := False, st_retryCount := n, st_timer := Some (retry_delay n)\<rparr>)"
| fail: "st_streaming st \<Longrightarrow> st_retryCount st = MAX_STREAM_RETRIES \<Longrightarrow>
    conn_step st [OnError msg code]
      (st\<lparr>st_timer := None, st_source := False, st_streaming := False\<rparr>)"
| finish: "st_streaming st \<Longrightarrow>
    conn_step st [OnComplete]
      (st\<lparr>st_timer := None, st_source := False, st_complete := True, st_streaming := False\<rparr>)"
| stop: "conn_step st [] (stopStream st)"

definition live :: "stream_state \<Rightarrow> bool" where
  "live st \<longleftrightarrow> st_streaming st \<and> st_source st \<and> st_timer st = None \<and> \<not> st_complete st \<and>
     \<not> st_stopped st \<and> st_retryCount st \<le> MAX_STREAM_RETRIES"

lemma live_source: "conn_inv st \<Longrightarrow> st_source st \<Longrightarrow> live st"
  by (auto simp: conn_inv_def live_def split: if_splits)

lemma live_timer:
  "conn_inv st \<Longrightarrow> st_timer st \<noteq> None \<Longrightarrow> live (st\<lparr>st_timer := None, st_source := True\<rparr>)"
  by (auto simp: conn_inv_def live_def split: if_splits)

lemma handleError_step:
  assumes "live st" "handleError msg code st = (st', cbs)"
  shows "conn_step st cbs st'"
proof (cases "st_retryCount st = MAX_STREAM_RETRIES")
  case True
  then have "st' = st\<lparr>st_timer := None, st_source := False, st_streaming := False\<rparr> \<and> cbs = [OnError msg code]"
    using assms by (auto simp: stream_defs live_def Let_def)
  then show ?thesis using conn_step.fail [of st msg code] True assms(1) by (simp add: live_def)
next
  case False
  let ?n = "st_retryCount st + 1"
  have n: "?n \<le> MAX_STREAM_RETRIES" using False assms(1) by (simp add: live_def)
  then have "st' = st\<lparr>st_source := False, st_retryCount := ?n, st_timer := Some (retry_delay ?n)\<rparr> \<and>
      cbs = [OnReconnect msg ?n MAX_STREAM_RETRIES (retry_delay ?n) code]"
    using assms by (auto simp: stream_defs live_def Let_def)
  then show ?thesis using conn_step.retry [of st ?n msg code] n assms(1) by (simp add: live_def)
qed

lemma onMessage_step:
  assumes "live st" "onMessage data st = (st', cbs)"
  shows "conn_step st cbs st'"
proof (cases data)
  case DoneMark
  then have "st' = st\<lparr>st_timer := None, st_source := False, st_complete := True, st_streaming := False\<rparr> \<and>
      cbs = [OnComplete]"
    using assms by (auto simp: stream_defs live_def)
  then show ?thesis using conn_step.finish [of st] assms(1) by (simp add: live_def)
next
  case (Delta d)
  then show ?thesis using assms conn_step.update [of st cbs d] by (simp add: onMessage_def live_def)
next
  case Malformed
  then show ?thesis using assms by (simp add: onMessage_def live_def handleError_step)
qed

lemma onErrorEvent_step:
  assumes "live st" "onErrorEvent rs data parsed st = (st', cbs)"
  shows "conn_step st cbs st'"
proof (cases "rs = 2")
  case True
  then show ?thesis using assms conn_step.skip by (simp add: onErrorEvent_def live_def)
next
  case False
  then obtain msg code where "handleError msg code st = (st', cbs)"
    using assms by (auto simp: onErrorEvent_def live_def Let_def split: prod.splits)
  then show ?thesis using assms(1) handleError_step by blast
qed

lemma onReadyStateChange_step:
  assumes "live st" "onReadyStateChange rs status st = (st', cbs)"
  shows "conn_step st cbs st'"
proof (cases "\<exists>r c. rs = Some r \<and> status = Some c \<and> r \<ge> 2 \<and> c \<noteq> 200")
  case True
  then have "\<exists>msg. handleError msg None st = (st', cbs)"
    using assms by (auto simp: onReadyStateChange_def live_def)
  then show ?thesis using assms(1) handleError_step by blast
next
  case False
  then have "st' = st \<and> cbs = []"
    using assms by (auto simp: onReadyStateChange_def split: if_splits option.splits)
  then show ?thesis using conn_step.skip by blast
qed

text \<open>A failing restart is a restart followed by a retry or a failure, which hides the open source.\<close>

lemma conn_step_reopened:
  assumes "conn_step (st\<lparr>st_timer := None, st_source := True\<rparr>) cbs st'" "cbs \<noteq> []"
    "\<forall>d. cbs \<noteq> delta_updates d"
  shows "conn_step st cbs st'"
  using assms(1)
proof (cases rule: conn_step.cases)
  case (retry n msg code)
  then show ?thesis using conn_step.retry [of st n msg code] by simp
next
  case (fail msg code)
  then show ?thesis using conn_step.fail [of st msg code] by simp
next
  case finish
  then show ?thesis using conn_step.finish [of st] by simp
qed (use assms in auto)

lemma handleError_callbacks:
  "live st \<Longrightarrow> handleError msg code st = (st', cbs) \<Longrightarrow>
     cbs \<noteq> [] \<and> (\<forall>d. cbs \<noteq> delta_updates d)"
  by (auto simp: stream_defs live_def Let_def delta_updates_def split: if_splits option.splits)

lemma startStream_step:
  assumes "conn_inv st" "st_timer st \<noteq> None"
    and "startStream starts (st\<lparr>st_timer := None\<rparr>) = (st', cbs)"
  shows "conn_step st cbs st'"
proof -
  let ?st1 = "st\<lparr>st_timer := None, st_source := True\<rparr>"
  have live: "live ?st1" using assms live_timer by blast
  show ?thesis
  proof (cases starts)
    case True
    then show ?thesis using assms(3) live conn_step.restart [of st]
      by (simp add: startStream_def live_def)
  next
    case False
    then have *: "handleError STREAM_START_ERROR None ?st1 = (st', cbs)"
      using assms(3) live by (simp add: startStream_def live_def)
    then show ?thesis
      using conn_step_reopened handleError_step [OF live *] handleError_callbacks [OF live *] by blast
  qed
qed

text \<open>Every event handler of the hook refines the abstract connection.\<close>

lemma handle_event_step:
  assumes "conn_inv st" "enabled ev st" "handle_event ev st = (st', cbs)"
  shows "conn_step st cbs st'"
  using assms live_source [OF assms(1)]
  by (cases ev)
    (auto simp: handle_event_def conn_step.stop
      intro: onMessage_step onErrorEvent_step onReadyStateChange_step startStream_step)

lemma conn_step_inv: "conn_step st cbs st' \<Longrightarrow> conn_inv st \<Longrightarrow> conn_inv st'"
  by (induction rule: conn_step.induct) (auto simp: conn_inv_def stopStream_def split: if_splits)

lemma send_step:
  assumes "idle st0" "sendStreamRequest starts st0 = (st, cbs)"
  obtains st1 where "live st1" "st_retryCount st1 = 0" "conn_step st1 cbs st"
proof -
  let ?st1 = "st0\<lparr>st_complete := False, st_stopped := False, st_streaming := True,
    st_retryCount := 0, st_source := True\<rparr>"
  have live: "live ?st1" using assms(1) by (simp add: idle_def live_def)
  have "conn_step ?st1 cbs st"
  proof (cases starts)
    case True
    then show ?thesis using assms(2) conn_step.skip [of ?st1]
      by (simp add: sendStreamRequest_def startStream_def)
  next
    case False
    then show ?thesis using assms(2) handleError_step [OF live]
      by (simp add: sendStreamRequest_def startStream_def)
  qed
  with live that show thesis by simp
qed

lemma live_inv: "live st \<Longrightarrow> conn_inv st"
  by (simp add: live_def conn_inv_def)

section \<open>Traces of callbacks\<close>

fun reconnects :: "callback list \<Rightarrow> (nat \<times> nat) list" where
  "reconnects [] = []"
| "reconnects (OnReconnect _ n _ delay _ # cbs) = (n, delay) # reconnects cbs"
| "reconnects (_ # cbs) = reconnects cbs"

fun is_terminal :: "callback \<Rightarrow> bool" where
  "is_terminal OnComplete = True"
| "is_terminal (OnError _ _) = True"
| "is_terminal _ = False"

fun is_error :: "callback \<Rightarrow> bool" where
  "is_error (OnError _ _) = True"
| "is_error _ = False"

definition trace_ok :: "callback list \<Rightarrow> stream_state \<Rightarrow> bool" where
  "trace_ok cbs st \<longleftrightarrow>
     reconnects cbs = map (\<lambda>n. (n, retry_delay n)) [1..<Suc (st_retryCount st)] \<and>
     filter is_terminal (butlast cbs) = [] \<and>
     (st_streaming st \<longrightarrow> filter is_terminal cbs = []) \<and>
     (filter is_error cbs \<noteq> [] \<longrightarrow> st_retryCount st = MAX_STREAM_RETRIES)"

lemma reconnects_append [simp]: "reconnects (a @ b) = reconnects a @ reconnects b"
  by (induction a rule: reconnects.induct) auto

lemma reconnects_delta [simp]: "reconnects (delta_updates d) = []"
  by (auto simp: delta_updates_def split: option.splits)

lemma terminal_delta [simp]: "filter is_terminal (delta_updates d) = []"
  by (auto simp: delta_updates_def split: option.splits)

lemma error_terminal: "filter is_terminal cbs = [] \<Longrightarrow> filter is_error cbs = []"
  by (induction cbs) (auto split: if_splits elim!: is_error.elims)

lemma butlast_no_terminal: "filter is_terminal cbs = [] \<Longrightarrow> filter is_terminal (butlast cbs) = []"
  by (auto simp: filter_empty_conv dest: in_set_butlastD)

lemma trace_ok_step:
  assumes "conn_step st cbs' st'" "trace_ok cbs st"
  shows "trace_ok (cbs @ cbs') st'"
  using assms
proof (induction rule: conn_step.induct)
  case (update st cbs' d)
  then have "filter is_terminal (cbs @ cbs') = []" by (simp add: trace_ok_def)
  then show ?case using update butlast_no_terminal error_terminal by (simp add: trace_ok_def)
next
  case (retry st n msg code)
  then have "filter is_terminal (cbs @ [OnReconnect msg n MAX_STREAM_RETRIES (retry_delay n) code]) = []"
    by (simp add: trace_ok_def)
  then show ?case using retry error_terminal by (simp add: trace_ok_def)
qed (auto simp: trace_ok_def stopStream_def)

lemma run_inv:
  assumes "request_run st0 cbs st" "idle st0"
  shows "conn_inv st \<and> trace_ok cbs st"
  using assms
proof (induction rule: request_run.induct)
  case (send starts st cbs)
  from send(2,1) obtain st1 where st1: "live st1" "st_retryCount st1 = 0" "conn_step st1 cbs st"
    by (rule send_step)
  then have "trace_ok [] st1" by (simp add: trace_ok_def)
  from trace_ok_step [OF st1(3) this] show ?case
    using conn_step_inv [OF st1(3)] live_inv [OF st1(1)] by simp
next
  case (event cbs st ev st' cbs')
  then have "conn_step st cbs' st'" using handle_event_step by blast
  then show ?case using event conn_step_inv trace_ok_step by blast
qed


text \<open>The witness: a request whose first event is not JSON.\<close>

definition fresh_stream :: stream_state where
  "fresh_stream = \<lparr>st_source = False, st_timer = None, st_complete = False, st_stopped = False,
     st_streaming = False, st_retryCount = 0\<rparr>"

definition retrying_stream :: stream_state where
  "retrying_stream = fresh_stream\<lparr>st_streaming := True, st_timer := Some 5000, st_retryCount := 1\<rparr>"

lemma retrying_run:
  "request_run fresh_stream [OnReconnect PARSE_ERROR 1 5 5000 None] retrying_stream"
proof -
  have "sendStreamRequest True fresh_stream =
      (fresh_stream\<lparr>st_streaming := True, st_source := True\<rparr>, [])"
    by (simp add: sendStreamRequest_def startStream_def fresh_stream_def)
  then have "request_run fresh_stream [] (fresh_stream\<lparr>st_streaming := True, st_source := True\<rparr>)"
    by (rule request_run.send)
  then have "request_run fresh_stream ([] @ [OnReconnect PARSE_ERROR 1 5 5000 None]) retrying_stream"
    by (rule request_run.event [where ev = "MessageEvent Malformed"])
      (simp_all add: handle_event_def stream_defs fresh_stream_def retrying_stream_def Let_def
        MAX_STREAM_RETRIES_def retry_delay_def STREAM_RETRY_DELAYS_def)
  then show ?thesis by simp
qed


section \<open>The messages of a chat\<close>

lemma streamUpdate_simps [simp]:
  "m_key (streamUpdate type c m) = m_key m"
  "m_from (streamUpdate type c m) = m_from m"
  by (cases type; simp add: streamUpdate_def)+

lemma streamComplete_simps [simp]:
  "m_key (streamComplete m) = m_key m"
  "m_from (streamComplete m) = m_from m"
  "\<not> is_stuck (streamComplete m)"
  by (auto simp: streamComplete_def is_stuck_def)

lemma streamReconnect_simps [simp]:
  "m_key (streamReconnect n m) = m_key m"
  "m_from (streamReconnect n m) = m_from m"
  "m_status (streamReconnect n m) = Some Loading"
  "reconnecting (streamReconnect n m)"
  by (simp_all add: streamReconnect_def reconnecting_def)

lemma stopUpdate_simps [simp]:
  "m_key (stopUpdate m) = m_key m"
  "m_from (stopUpdate m) = m_from m"
  "\<not> is_stuck (stopUpdate m)"
  by (auto simp: stopUpdate_def is_stuck_def)

interpretation stream_update: message_updater "streamUpdate type c"
  by unfold_locales simp_all

interpretation stream_complete: message_updater streamComplete
  by unfold_locales simp_all

interpretation stream_reconnect: message_updater "streamReconnect n"
  by unfold_locales simp_all

interpretation stream_stop: message_updater stopUpdate
  by unfold_locales simp_all

interpretation non_streaming: message_updater "nonStreamingUpdate c r"
  by unfold_locales (simp_all add: nonStreamingUpdate_def)

lemmas handler_defs = handleStreamUpdate_def handleStreamComplete_def handleStreamError_def
  handleStreamReconnect_def updateAssistantMessageWithError_def

text \<open>The frame of every callback: earlier messages, keys and roles stay.\<close>

definition same_frame :: "message list \<Rightarrow> message list \<Rightarrow> bool" where
  "same_frame ms ms' \<longleftrightarrow>
     butlast ms' = butlast ms \<and> map m_key ms' = map m_key ms \<and> map m_from ms' = map m_from ms"

lemma same_frame_refl [simp]: "same_frame ms ms"
  by (simp add: same_frame_def)

lemma same_frame_trans: "same_frame a b \<Longrightarrow> same_frame b c \<Longrightarrow> same_frame a c"
  by (simp add: same_frame_def)

lemma same_frame_callback: "same_frame ms (apply_callback t cb ms)"
  by (cases cb) (simp_all add: handler_defs same_frame_def
      stream_update.update_keys stream_update.update_roles stream_update.update_earlier
      stream_complete.update_keys stream_complete.update_roles stream_complete.update_earlier
      stream_reconnect.update_keys stream_reconnect.update_roles stream_reconnect.update_earlier
      error_update.update_keys error_update.update_roles error_update.update_earlier)

lemma same_frame_callbacks: "same_frame ms (apply_callbacks t cbs ms)"
proof (induction cbs arbitrary: ms)
  case (Cons cb cbs)
  show ?case using same_frame_trans [OF same_frame_callback Cons.IH]
    by (simp add: apply_callbacks_def)
qed (simp add: apply_callbacks_def)

lemma same_frame_stop: "same_frame ms (updateLastAssistantMessage ms stopUpdate)"
  by (simp add: same_frame_def stream_stop.update_keys stream_stop.update_roles
      stream_stop.update_earlier)

text \<open>A final callback and a stop leave the last message settled.\<close>

definition settled :: "message list \<Rightarrow> bool" where
  "settled ms \<longleftrightarrow> ms = [] \<or> \<not> is_stuck (last ms)"

lemma settled_update:
  "(\<And>m. \<not> is_stuck (f m)) \<Longrightarrow> settled (updateLastAssistantMessage ms f)"
  by (cases ms rule: rev_cases) (auto simp: settled_def is_stuck_def)

lemma settled_terminal: "is_terminal cb \<Longrightarrow> settled (apply_callback t cb ms)"
proof (cases cb)
  case OnComplete
  then show ?thesis by (simp add: handler_defs settled_update)
next
  case (OnError e c)
  have "settled (updateLastAssistantMessage ms (errorMessageUpdate e c))"
    by (rule settled_update) (simp add: is_stuck_def)
  with OnError show ?thesis by (simp add: handler_defs)
qed auto

lemma conn_step_over:
  "conn_step st cbs st' \<Longrightarrow> \<not> st_streaming st \<Longrightarrow> cbs = [] \<and> \<not> st_streaming st'"
  by (induction rule: conn_step.induct) (auto simp: stopStream_def)

lemma apply_callbacks_single [simp]:
  "apply_callbacks t [cb] ms = apply_callback t cb ms" "apply_callbacks t [] ms = ms"
  by (simp_all add: apply_callbacks_def)

lemma conn_step_settles:
  "conn_step st cbs st' \<Longrightarrow> st_streaming st \<Longrightarrow> \<not> st_stopped st' \<Longrightarrow>
     st_streaming st' \<or> settled (apply_callbacks t cbs ms)"
  by (induction rule: conn_step.induct) (auto simp: stopStream_def settled_terminal simp del: apply_callback.simps)

lemma stop_only: "handle_event ev st = (st', cbs) \<Longrightarrow> \<not> st_stopped st \<Longrightarrow> st_stopped st' \<Longrightarrow> ev = StopStream"
  by (cases ev)
    (auto simp: handle_event_def stream_defs Let_def split: if_splits sse_data.splits prod.splits
      option.splits)

lemma chat_run_inv:
  assumes "chat_run t s0 s" "idle (ch_stream s0)"
  shows "conn_inv (ch_stream s) \<and> (st_streaming (ch_stream s) \<or> settled (ch_messages s)) \<and>
    same_frame (ch_messages s0) (ch_messages s)"
  using assms
proof (induction rule: chat_run.induct)
  case (send starts)
  obtain st cbs where send': "sendStreamRequest starts (ch_stream s0) = (st, cbs)" by fastforce
  with send obtain st1 where st1: "live st1" "conn_step st1 cbs st" using send_step by metis
  have "\<not> st_stopped st"
    using send' by (auto simp: sendStreamRequest_def stream_defs Let_def split: if_splits)
  then have "st_streaming st \<or> settled (apply_callbacks t cbs (ch_messages s0))"
    using conn_step_settles [OF st1(2)] st1(1) by (simp add: live_def)
  then show ?case using send' st1 conn_step_inv live_inv same_frame_callbacks
    by (auto simp: send_chat_def)
next
  case (event s ev)
  obtain st cbs where h: "handle_event ev (ch_stream s) = (st, cbs)" by fastforce
  then have step: "conn_step (ch_stream s) cbs st" using event handle_event_step by blast
  show ?case
  proof (cases "ev = StopStream")
    case True
    then show ?thesis using h event step conn_step_inv same_frame_stop same_frame_trans
      by (auto simp: chat_event_def stopGeneration_def handle_event_def settled_update)
  next
    case False
    have "st_streaming st \<or> settled (apply_callbacks t cbs (ch_messages s))"
    proof (cases "st_streaming (ch_stream s)")
      case True
      then have "\<not> st_stopped (ch_stream s)" using event by (auto simp: conn_inv_def)
      then have "\<not> st_stopped st" using stop_only [OF h] False by blast
      then show ?thesis using conn_step_settles [OF step True] by blast
    next
      case not_streaming: False
      then show ?thesis using conn_step_over [OF step] event by auto
    qed
    then show ?thesis
      using h event step False conn_step_inv same_frame_callbacks same_frame_trans
      by (auto simp: chat_event_def)
  qed
qed



section \<open>The streamed text\<close>

definition content_updates :: "string list \<Rightarrow> callback list" where
  "content_updates cs = map (OnUpdate ContentUpdate) cs"

lemma apply_callbacks_append:
  "apply_callbacks t (a @ b) ms = apply_callbacks t b (apply_callbacks t a ms)"
  by (simp add: apply_callbacks_def)

text \<open>The handlers on one assistant message at the end of the list.\<close>

fun on_last :: "notice \<Rightarrow> callback \<Rightarrow> message \<Rightarrow> message" where
  "on_last t (OnUpdate type chunk) m = streamUpdate type chunk m"
| "on_last t OnComplete m = streamComplete m"
| "on_last t (OnError e c) m = errorMessageUpdate e c m"
| "on_last t (OnReconnect e n mx d c) m = streamReconnect (t e n mx) m"

lemma on_last_role [simp]: "m_from (on_last t cb m) = m_from m"
  by (cases cb) simp_all

lemma apply_callback_last:
  "m_from m = Assistant \<Longrightarrow> apply_callback t cb (ms @ [m]) = ms @ [on_last t cb m]"
  by (cases cb) (simp_all add: handler_defs)

lemma apply_callbacks_last:
  "m_from m = Assistant \<Longrightarrow>
     apply_callbacks t cbs (ms @ [m]) = ms @ [foldl (\<lambda>m cb. on_last t cb m) m cbs]"
  by (induction cbs arbitrary: m) (simp_all add: apply_callbacks_def apply_callback_last)

lemma on_last_role_fold [simp]: "m_from (foldl (\<lambda>m cb. on_last t cb m) m cbs) = m_from m"
  by (induction cbs arbitrary: m) simp_all

definition fresh_text :: "message \<Rightarrow> message" where
  "fresh_text m =
     (if reconnecting m then m\<lparr>m_versions := versionsWithContent m [], m_errorCode := None\<rparr> else m)"

lemma content_step:
  "m_status m \<noteq> Some Error \<Longrightarrow>
     streamUpdate ContentUpdate c m = (processStreamingContent (fresh_text m) c)\<lparr>m_status := Some Streaming\<rparr>"
  by (simp add: streamUpdate_def fresh_text_def)

lemma process_status_comm:
  "processStreamingContent (m\<lparr>m_status := s\<rparr>) c = (processStreamingContent m c)\<lparr>m_status := s\<rparr>"
  by (simp add: processStreamingContent_def updateCurrentVersionContent_def Let_def)

lemma process_not_reconnecting [simp]:
  "reconnecting ((processStreamingContent m c)\<lparr>m_status := s\<rparr>) = reconnecting m"
  by (simp add: reconnecting_def)

lemma fresh_text_simps [simp]:
  "\<not> reconnecting (fresh_text m)" "m_from (fresh_text m) = m_from m"
  "m_reasoning (fresh_text m) = m_reasoning m"
  "mv_content (getCurrentVersion (fresh_text m)) =
     (if reconnecting m then [] else mv_content (getCurrentVersion m))"
  by (simp_all add: fresh_text_def reconnecting_def versionsWithContent_def)

lemma stream_chunks:
  assumes "\<not> reconnecting m"
  shows "foldl (\<lambda>m cb. on_last t cb m) (m\<lparr>m_status := Some Streaming\<rparr>) (content_updates cs) =
    (foldl processStreamingContent m cs)\<lparr>m_status := Some Streaming\<rparr>"
  using assms
proof (induction cs arbitrary: m)
  case (Cons c cs)
  have "streamUpdate ContentUpdate c (m\<lparr>m_status := Some Streaming\<rparr>) =
      (processStreamingContent m c)\<lparr>m_status := Some Streaming\<rparr>"
    using Cons.prems
    by (simp add: content_step fresh_text_def reconnecting_def process_status_comm)
  moreover have "\<not> reconnecting (processStreamingContent m c)"
    using Cons.prems by (simp add: reconnecting_def)
  ultimately show ?case using Cons.IH by (simp add: content_updates_def)
qed (simp add: content_updates_def)

lemma stream_chunks_first:
  assumes "m_status m \<noteq> Some Error" "cs \<noteq> []"
  shows "foldl (\<lambda>m cb. on_last t cb m) m (content_updates cs) =
    (foldl processStreamingContent (fresh_text m) cs)\<lparr>m_status := Some Streaming\<rparr>"
proof -
  obtain c cs' where cs: "cs = c # cs'" using assms(2) by (cases cs) auto
  have "\<not> reconnecting (processStreamingContent (fresh_text m) c)"
    by (simp add: reconnecting_def) (simp add: reconnecting_def [symmetric])
  from stream_chunks [OF this] show ?thesis
    using assms(1) by (simp add: cs content_updates_def content_step)
qed

lemma finalize_status_comm:
  "finalizeMessage (m\<lparr>m_status := s\<rparr>) a = (finalizeMessage m a)\<lparr>m_status := s\<rparr>"
  by (simp add: finalizeMessage_def updateCurrentVersionContent_def Let_def)

lemma streamed_message:
  fixes t :: notice
  assumes "m_status m \<noteq> Some Error" "cs \<noteq> []"
    and "raw = (if reconnecting m then [] else mv_content (getCurrentVersion m)) @ concat cs"
  defines "m' \<equiv> foldl (\<lambda>m cb. on_last t cb m) m (content_updates cs @ [OnComplete])"
  shows "m_status m' = Some Complete"
    and "mv_content (getCurrentVersion m') = tr_visibleContent (parseThinkTags raw)"
    and "tr_reasoning (parseThinkTags raw) \<noteq> [] \<Longrightarrow>
      m_reasoning m' = Some \<lparr>re_content = tr_reasoning (parseThinkTags raw), re_duration = 0\<rparr>"
proof -
  let ?f = "foldl processStreamingContent (fresh_text m) cs"
  have m': "m' = (finalizeMessage ?f None)\<lparr>m_status := Some Complete\<rparr>"
    by (simp add: m'_def stream_chunks_first [OF assms(1,2)] streamComplete_def finalize_status_comm)
  have raw: "mv_content (getCurrentVersion ?f) = raw" by (simp add: stream_content assms(3))
  show "m_status m' = Some Complete" by (simp add: m')
  show "mv_content (getCurrentVersion m') = tr_visibleContent (parseThinkTags raw)"
    by (simp add: m' raw)
  assume ne: "tr_reasoning (parseThinkTags raw) \<noteq> []"
  have "m_reasoning ?f = Some \<lparr>re_content = tr_reasoning (parseThinkTags raw), re_duration = 0\<rparr>"
    by (rule stream_reasoning [OF assms(2) _ ne]) (simp add: assms(3))
  then show "m_reasoning m' =
      Some \<lparr>re_content = tr_reasoning (parseThinkTags raw), re_duration = 0\<rparr>"
    by (simp add: m' finalizeMessage_def Let_def ne)
qed



text \<open>the exception. When the thoughts of the whole text are empty, a chunk that ends inside the
  closing tag leaves a piece of that tag as the reasoning of the completed answer; the same text
  in one chunk has no reasoning.\<close>

theorem stale_reasoning:
  "m_reasoning (last (apply_callbacks t (content_updates [''<think></thi'', ''nk>ok''] @ [OnComplete])
      [createLoadingAssistantMessage k v])) = Some \<lparr>re_content = ''</thi'', re_duration = 0\<rparr> \<and>
   m_reasoning (last (apply_callbacks t (content_updates [''<think></think>ok''] @ [OnComplete])
      [createLoadingAssistantMessage k v])) = None"
proof -
  have a: "parseThinkTags ''<think></thi'' =
      \<lparr>tr_visibleContent = [], tr_reasoning = ''</thi'', tr_hasUnclosedTag = True\<rparr>"
    using parseThinkTags_render [of "[OpenThought ''</thi'']"]
    by (simp add: str_includes_def think_spec_def trim_def trim_by_def is_ws_def)
  have b: "parseThinkTags ''<think></think>ok'' =
      \<lparr>tr_visibleContent = ''ok'', tr_reasoning = [], tr_hasUnclosedTag = False\<rparr>"
    using parseThinkTags_render [of "[Thought [], Visible ''ok'']"]
    by (simp add: str_includes_def think_spec_def trim_def trim_by_def is_ws_def)
  show ?thesis
    by (simp add: apply_callbacks_def content_updates_def handler_defs updateLastAssistantMessage_def
        createLoadingAssistantMessage_def plain_message_def createMessageVersion_def streamUpdate_def
        reconnecting_def processStreamingContent_def updateCurrentVersionContent_def
        getCurrentVersion_def a b streamComplete_def finalizeMessage_def Let_def)
qed

end
