(* ===== verification/Js_Text.thy ===== *)
theory Js_Text
  imports Js_Prelude
begin

text \<open>
  Searching and replacing in texts: what the sources use of regular expressions and of
  \<open>String.prototype.replace\<close>.

  The regular expressions of the modelled code are of a few shapes. One that searches for a
  literal (or for a literal with a test on what follows) is \<open>search_by\<close>. One of the shape
  \<open>A([\s\S]*?)B\<close> matches from the first \<open>A\<close> to the first \<open>B\<close> after it, because no
  later \<open>A\<close> can be closed when the first one is not: this is \<open>between\<close>. The flag \<open>i\<close> compares
  code units without regard to case.
\<close>

section \<open>Definitions\<close>

text \<open>\<open>search_by P s\<close> is the first position from which the rest of \<open>s\<close> satisfies \<open>P\<close>
  (\<open>None\<close> for -1).\<close>

fun search_by :: "(string \<Rightarrow> bool) \<Rightarrow> string \<Rightarrow> nat option" where
  "search_by P [] = (if P [] then Some 0 else None)"
| "search_by P (x # xs) = (if P (x # xs) then Some 0 else map_option Suc (search_by P xs))"

definition is_word_char :: "char \<Rightarrow> bool" where
  "is_word_char c \<longleftrightarrow>
     (let n = of_char c :: nat in
      (48 \<le> n \<and> n \<le> 57) \<or> (65 \<le> n \<and> n \<le> 90) \<or> n = 95 \<or> (97 \<le> n \<and> n \<le> 122))"

text \<open>A literal without regard to case, and the same followed by a word boundary (the literal
  ends with a word character).\<close>

definition starts_with_ci :: "string \<Rightarrow> string \<Rightarrow> bool" where
  "starts_with_ci p s \<longleftrightarrow> starts_with (toLowerCase p) (toLowerCase s)"

definition at_boundary :: "string \<Rightarrow> bool" where
  "at_boundary s \<longleftrightarrow> (case s of [] \<Rightarrow> True | c # _ \<Rightarrow> \<not> is_word_char c)"

definition starts_word_ci :: "string \<Rightarrow> string \<Rightarrow> bool" where
  "starts_word_ci p s \<longleftrightarrow> starts_with_ci p s \<and> at_boundary (drop (length p) s)"

text \<open>\<open>between op n cl s\<close>: the first match of an opening (recognised by \<open>op\<close>, \<open>n\<close> characters
  long) up to the first closing literal after it, as the text before, the text inside and the
  text after the match.\<close>

definition between ::
  "(string \<Rightarrow> bool) \<Rightarrow> nat \<Rightarrow> string \<Rightarrow> string \<Rightarrow> (string \<times> string \<times> string) option" where
  "between op n cl s =
     (case search_by op s of
        None \<Rightarrow> None
      | Some i \<Rightarrow>
          (case search_by (starts_with_ci cl) (drop (i + n) s) of
             None \<Rightarrow> None
           | Some j \<Rightarrow>
               Some (take i s, take j (drop (i + n) s), drop (j + length cl) (drop (i + n) s))))"

text \<open>\<open>matchAll\<close> and \<open>replace\<close> with a global pattern of that shape: the list of inner texts, and
  the text with every match replaced by \<open>f\<close> of its inner text. The fuel is the length of the
  text, since every match consumes at least one character.\<close>

fun all_between :: "nat \<Rightarrow> (string \<Rightarrow> bool) \<Rightarrow> nat \<Rightarrow> string \<Rightarrow> string \<Rightarrow> string list" where
  "all_between 0 op n cl s = []"
| "all_between (Suc k) op n cl s =
     (case between op n cl s of
        None \<Rightarrow> []
      | Some (_, inner, rest) \<Rightarrow> inner # all_between k op n cl rest)"

fun replace_between ::
  "nat \<Rightarrow> (string \<Rightarrow> string) \<Rightarrow> (string \<Rightarrow> bool) \<Rightarrow> nat \<Rightarrow> string \<Rightarrow> string \<Rightarrow> string" where
  "replace_between 0 f op n cl s = s"
| "replace_between (Suc k) f op n cl s =
     (case between op n cl s of
        None \<Rightarrow> s
      | Some (before, inner, rest) \<Rightarrow> before @ f inner @ replace_between k f op n cl rest)"

text \<open>\<open>replace(/p/g, r)\<close> for a literal \<open>p\<close> and a replacement without \<open>$\<close>.\<close>

function replace_all :: "string \<Rightarrow> string \<Rightarrow> string \<Rightarrow> string" where
  "replace_all p r [] = []"
| "replace_all p r (x # xs) =
     (if p \<noteq> [] \<and> starts_with p (x # xs)
      then r @ replace_all p r (drop (length p) (x # xs))
      else x # replace_all p r xs)"
  by pat_completeness auto

termination
  by (relation "measure (\<lambda>(p, r, s). length s)") auto

text \<open>The replacement patterns of \<open>replace\<close> with a string pattern (no captures).\<close>

fun expand_replacement :: "string \<Rightarrow> string \<Rightarrow> string \<Rightarrow> string \<Rightarrow> string" where
  "expand_replacement matched before after [] = []"
| "expand_replacement matched before after [c] = [c]"
| "expand_replacement matched before after (c # d # r) =
     (if c = CHR ''$'' \<and> d = CHR ''$'' then CHR ''$'' # expand_replacement matched before after r
      else if c = CHR ''$'' \<and> d = CHR ''&'' then matched @ expand_replacement matched before after r
      else if c = CHR ''$'' \<and> d = CHR 0x60 then before @ expand_replacement matched before after r
      else if c = CHR ''$'' \<and> d = CHR 0x27 then after @ expand_replacement matched before after r
      else c # expand_replacement matched before after (d # r))"

text \<open>\<open>s.replace(p, r)\<close> with strings \<open>p\<close> and \<open>r\<close>.\<close>

definition js_replace :: "string \<Rightarrow> string \<Rightarrow> string \<Rightarrow> string" where
  "js_replace p r s =
     (case index_of p s of
        None \<Rightarrow> s
      | Some i \<Rightarrow>
          (let before = take i s; after = drop (i + length p) s
           in before @ expand_replacement p before after r @ after))"

section \<open>Lemmas\<close>

lemma search_by_Some: "search_by P s = Some i \<Longrightarrow> i \<le> length s \<and> P (drop i s)"
proof (induction s arbitrary: i)
  case Nil
  then show ?case by (simp split: if_splits)
next
  case (Cons x xs)
  then show ?case by (cases "P (x # xs)") auto
qed

lemma search_by_least: "search_by P s = Some i \<Longrightarrow> j < i \<Longrightarrow> \<not> P (drop j s)"
proof (induction s arbitrary: i j)
  case Nil
  then show ?case by (simp split: if_splits)
next
  case (Cons x xs)
  then show ?case by (cases j) (auto split: if_splits)
qed

lemma search_by_None: "search_by P s = None \<Longrightarrow> j \<le> length s \<Longrightarrow> \<not> P (drop j s)"
proof (induction s arbitrary: j)
  case Nil
  then show ?case by (simp split: if_splits)
next
  case (Cons x xs)
  then show ?case by (cases j) (auto split: if_splits)
qed

lemma search_by_None_iff: "search_by P s = None \<longleftrightarrow> (\<forall>j \<le> length s. \<not> P (drop j s))"
proof (cases "search_by P s")
  case None
  then show ?thesis using search_by_None [OF None] by simp
next
  case (Some i)
  then show ?thesis using search_by_Some [OF Some] by auto
qed

lemma search_by_before:
  assumes "\<And>i. search_by P s = Some i \<Longrightarrow> k \<le> i" "j < k" "k \<le> length s"
  shows "\<not> P (drop j s)"
proof (cases "search_by P s")
  case None
  then show ?thesis using search_by_None [OF None, of j] assms(2,3) by simp
next
  case (Some i)
  then have "j < i" using assms(1) [OF Some] assms(2) by simp
  then show ?thesis by (rule search_by_least [OF Some])
qed

lemma toLowerCase_append [simp]: "toLowerCase (a @ b) = toLowerCase a @ toLowerCase b"
  by (simp add: toLowerCase_def)

lemma length_toLowerCase [simp]: "length (toLowerCase s) = length s"
  by (simp add: toLowerCase_def)

lemma starts_with_length: "starts_with p s \<Longrightarrow> length p \<le> length s"
  by (auto simp: starts_with_iff)

lemma starts_with_ci_length: "starts_with_ci p s \<Longrightarrow> length p \<le> length s"
  using starts_with_length by (fastforce simp: starts_with_ci_def)

lemma starts_with_ci_append: "starts_with_ci p s \<Longrightarrow> starts_with_ci p (s @ t)"
  by (auto simp: starts_with_ci_def starts_with_iff)

lemma starts_with_prefix: "starts_with p (s @ t) \<Longrightarrow> length p \<le> length s \<Longrightarrow> starts_with p s"
  by (auto simp: starts_with_def)

lemma starts_with_ci_prefix:
  "starts_with_ci p (s @ t) \<Longrightarrow> length p \<le> length s \<Longrightarrow> starts_with_ci p s"
  using starts_with_prefix by (fastforce simp: starts_with_ci_def)

lemma between_length:
  assumes "between op n cl s = Some (before, inner, rest)" "\<And>t. op t \<Longrightarrow> n \<le> length t"
  shows "length before + n + length inner + length cl + length rest = length s"
proof -
  obtain i j where i: "search_by op s = Some i"
    and j: "search_by (starts_with_ci cl) (drop (i + n) s) = Some j"
    and eq: "before = take i s" "inner = take j (drop (i + n) s)"
      "rest = drop (j + length cl) (drop (i + n) s)"
    using assms(1) by (auto simp: between_def split: option.splits)
  have "i \<le> length s" "op (drop i s)" using search_by_Some [OF i] by simp_all
  moreover from this assms(2) have "n \<le> length (drop i s)" by blast
  moreover have "j \<le> length (drop (i + n) s)" using search_by_Some [OF j] by blast
  moreover have "length cl \<le> length (drop j (drop (i + n) s))"
    using search_by_Some [OF j] starts_with_ci_length by blast
  ultimately show ?thesis by (simp add: eq)
qed

lemma replace_all_absent: "\<not> str_includes s p \<Longrightarrow> replace_all p r s = s"
  by (induction p r s rule: replace_all.induct) (auto simp: str_includes_def)

lemma expand_replacement_plain:
  "CHR ''$'' \<notin> set r \<Longrightarrow> expand_replacement m b a r = r"
  by (induction m b a r rule: expand_replacement.induct) auto

text \<open>Replacing the first occurrence, when the replacement text has no dollar sign.\<close>

lemma js_replace_plain:
  assumes "CHR ''$'' \<notin> set r" "index_of p s = Some i"
  shows "js_replace p r s = take i s @ r @ drop (i + length p) s"
  using assms by (simp add: js_replace_def expand_replacement_plain)

text \<open>The fuel of \<open>all_between\<close> and \<open>replace_between\<close> is enough when it is the length of the
  text: more fuel gives the same result.\<close>

lemma between_shorter:
  assumes "between op n cl s = Some (before, inner, rest)" "\<And>t. op t \<Longrightarrow> n \<le> length t" "0 < n"
  shows "length rest < length s"
  using between_length [OF assms(1,2)] assms(3) by simp

lemma all_between_fuel:
  assumes "\<And>t. op t \<Longrightarrow> n \<le> length t" "0 < n" "length s \<le> k"
  shows "all_between k op n cl s = all_between (length s) op n cl s"
  using assms(3)
proof (induction k arbitrary: s rule: less_induct)
  case (less k)
  show ?case
  proof (cases "between op n cl s")
    case None
    then show ?thesis by (cases k; cases "length s") simp_all
  next
    case (Some m)
    obtain before inner rest where m: "m = (before, inner, rest)" by (cases m)
    have r: "length rest < length s" using between_shorter [OF Some [unfolded m]] assms by blast
    obtain k' l where kl: "k = Suc k'" "length s = Suc l" using r less.prems by (cases k; cases s) auto
    have "all_between k' op n cl rest = all_between (length rest) op n cl rest"
      using less.IH [of k' rest] kl r less.prems by simp
    moreover have "all_between l op n cl rest = all_between (length rest) op n cl rest"
      using less.IH [of l rest] kl r less.prems by simp
    ultimately show ?thesis using Some m kl by simp
  qed
qed

lemma replace_between_fuel:
  assumes "\<And>t. op t \<Longrightarrow> n \<le> length t" "0 < n" "length s \<le> k"
  shows "replace_between k f op n cl s = replace_between (length s) f op n cl s"
  using assms(3)
proof (induction k arbitrary: s rule: less_induct)
  case (less k)
  show ?case
  proof (cases "between op n cl s")
    case None
    then show ?thesis by (cases k; cases "length s") simp_all
  next
    case (Some m)
    obtain before inner rest where m: "m = (before, inner, rest)" by (cases m)
    have r: "length rest < length s" using between_shorter [OF Some [unfolded m]] assms by blast
    obtain k' l where kl: "k = Suc k'" "length s = Suc l" using r less.prems by (cases k; cases s) auto
    have "replace_between k' f op n cl rest = replace_between (length rest) f op n cl rest"
      using less.IH [of k' rest] kl r less.prems by simp
    moreover have "replace_between l f op n cl rest = replace_between (length rest) f op n cl rest"
      using less.IH [of l rest] kl r less.prems by simp
    ultimately show ?thesis using Some m kl by simp
  qed
qed

end
