(* ===== verification/Playground_State.thy ===== *)
theory Playground_State
  imports Chat_Messages Js_Text
begin

text \<open>
  The conversations of the playground: \<^verbatim>\<open>features/playground/lib/storage.ts\<close> and
  \<^verbatim>\<open>features/playground/hooks/use-playground-state.ts\<close>.

  The browser storage is a record of slots. A slot is missing, holds a value, or holds text that
  \<open>JSON.parse\<close> rejects; storing a value and reading it back gives the value. Writing throws when
  the storage is full (\<open>sto_writable\<close> is false), and every such exception is caught by the
  function that writes. Fresh ids (nanoid) and the current time are arguments.
\<close>

section \<open>Storage\<close>

datatype 'a slot = Missing | Corrupt | Stored 'a

text \<open>\<open>Partial<PlaygroundConfig>\<close>: \<open>None\<close> is a missing key.\<close>

record partial_config =
  ppc_model :: "string option"
  ppc_group :: "string option"
  ppc_openaiReasoningEffort :: "reasoning_effort option"
  ppc_openaiRequestMode :: "request_mode option"
  ppc_openaiFastMode :: "bool option"
  ppc_temperature :: "rat option"
  ppc_top_p :: "rat option"
  ppc_max_tokens :: "int option"
  ppc_frequency_penalty :: "rat option"
  ppc_presence_penalty :: "rat option"
  ppc_seed :: "int option option"
  ppc_stream :: "bool option"

record storage =
  sto_writable :: bool
  sto_config :: "partial_config slot"
  sto_parameterEnabled :: "parameter_enabled slot"
  sto_messages :: "message list slot"
  sto_conversations :: "playground_conversation list slot"
  sto_activeId :: "string option"
  sto_activeChatId :: "string option"
  sto_activeAgentId :: "string option"

definition empty_partial_config :: partial_config where
  "empty_partial_config =
     \<lparr>ppc_model = None, ppc_group = None, ppc_openaiReasoningEffort = None,
       ppc_openaiRequestMode = None, ppc_openaiFastMode = None, ppc_temperature = None,
       ppc_top_p = None, ppc_max_tokens = None, ppc_frequency_penalty = None,
       ppc_presence_penalty = None, ppc_seed = None, ppc_stream = None\<rparr>"

definition loadConfig :: "storage \<Rightarrow> partial_config" where
  "loadConfig sto =
     (case sto_config sto of
        Stored parsed \<Rightarrow>
          (let requestMode =
             (case ppc_openaiRequestMode parsed of
                Some m \<Rightarrow> m
              | None \<Rightarrow> if ppc_openaiFastMode parsed = Some True then FastMode else StandardMode)
           in parsed\<lparr>ppc_openaiRequestMode := Some requestMode,
                ppc_openaiFastMode := Some (requestMode = FastMode)\<rparr>)
      | _ \<Rightarrow> empty_partial_config)"

definition saveConfig :: "partial_config \<Rightarrow> storage \<Rightarrow> storage" where
  "saveConfig config sto = (if sto_writable sto then sto\<lparr>sto_config := Stored config\<rparr> else sto)"

definition loadParameterEnabled :: "storage \<Rightarrow> parameter_enabled option" where
  "loadParameterEnabled sto = (case sto_parameterEnabled sto of Stored p \<Rightarrow> Some p | _ \<Rightarrow> None)"

definition saveParameterEnabled :: "parameter_enabled \<Rightarrow> storage \<Rightarrow> storage" where
  "saveParameterEnabled p sto =
     (if sto_writable sto then sto\<lparr>sto_parameterEnabled := Stored p\<rparr> else sto)"

definition saveMessages :: "message list \<Rightarrow> storage \<Rightarrow> storage" where
  "saveMessages ms sto = (if sto_writable sto then sto\<lparr>sto_messages := Stored ms\<rparr> else sto)"

text \<open>The sanitized list is another array exactly when a stuck message was found.\<close>

definition loadMessages :: "storage \<Rightarrow> message list option \<times> storage" where
  "loadMessages sto =
     (case sto_messages sto of
        Stored parsed \<Rightarrow>
          (let sanitized = sanitizeMessagesOnLoad parsed in
           (Some sanitized,
            if find_last_index is_stuck parsed \<noteq> None then saveMessages sanitized sto else sto))
      | _ \<Rightarrow> (None, sto))"

definition mode_of :: "playground_conversation \<Rightarrow> playground_mode" where
  "mode_of c = (case cv_mode c of None \<Rightarrow> Chat | Some m \<Rightarrow> m)"

record conversation_state =
  cs_conversations :: "playground_conversation list"
  cs_activeConversationId :: "string option"
  cs_activeConversationIds :: "playground_mode \<Rightarrow> string option"

text \<open>An empty string is removed like a missing one.\<close>

definition saveConversations ::
  "playground_conversation list \<Rightarrow> string option \<Rightarrow> (playground_mode \<Rightarrow> string option) \<Rightarrow>
   storage \<Rightarrow> storage" where
  "saveConversations convs active ids sto =
     (if sto_writable sto
      then sto\<lparr>sto_conversations := Stored convs,
             sto_activeId := js_or active None,
             sto_activeChatId := js_or (ids Chat) None,
             sto_activeAgentId := js_or (ids Agent) None\<rparr>
      else sto)"

text \<open>\<open>conversations.find(p)?.id || null\<close>.\<close>

definition find_id ::
  "(playground_conversation \<Rightarrow> bool) \<Rightarrow> playground_conversation list \<Rightarrow> string option" where
  "find_id p convs = js_or (map_option cv_id (List.find p convs)) None"

text \<open>The title of a migrated conversation: its first user message, or that message's first
  attachment.\<close>

definition clip :: "nat \<Rightarrow> string \<Rightarrow> string" where
  "clip n s = (if length s > n then take n s @ ''...'' else s)"

definition first_content :: "message \<Rightarrow> string" where
  "first_content m = (case m_versions m of [] \<Rightarrow> [] | v # _ \<Rightarrow> mv_content v)"

definition first_attachment_name :: "message option \<Rightarrow> string" where
  "first_attachment_name m =
     (case m of
        None \<Rightarrow> []
      | Some m \<Rightarrow> (case attachments_of m of [] \<Rightarrow> [] | a # _ \<Rightarrow> att_name a))"

definition titled :: "string \<Rightarrow> nat \<Rightarrow> message option \<Rightarrow> string" where
  "titled text n m =
     (if text \<noteq> [] then clip n text
      else if first_attachment_name m \<noteq> [] then first_attachment_name m
      else ''New conversation'')"

definition storage_getConversationTitle :: "message list \<Rightarrow> string" where
  "storage_getConversationTitle ms =
     (let m = List.find (\<lambda>m. m_from m = User) ms
      in titled (trim (case m of None \<Rightarrow> [] | Some m \<Rightarrow> first_content m)) 24 m)"

definition no_conversations :: conversation_state where
  "no_conversations =
     \<lparr>cs_conversations = [], cs_activeConversationId = None,
       cs_activeConversationIds = (\<lambda>_. None)\<rparr>"

definition only_chat :: "playground_conversation \<Rightarrow> conversation_state" where
  "only_chat c =
     \<lparr>cs_conversations = [c], cs_activeConversationId = Some (cv_id c),
       cs_activeConversationIds = (\<lambda>_. None)(Chat := Some (cv_id c))\<rparr>"

definition blank_conversation ::
  "string \<Rightarrow> string \<Rightarrow> nat \<Rightarrow> playground_mode option \<Rightarrow> message list \<Rightarrow> playground_conversation" where
  "blank_conversation cid title now mode ms =
     \<lparr>cv_id = cid, cv_title = title, cv_createdAt = now, cv_updatedAt = now, cv_mode = mode,
       cv_workspaceName = None, cv_agentPreviousResponseId = None,
       cv_agentResponsesSentMessageCount = None, cv_agentResponsesPendingToolCallIds = None,
       cv_agentResponsesModel = None, cv_agentResponsesWorkspaceName = None,
       cv_agentResponsesStateVersion = None, cv_messages = ms\<rparr>"

definition load_conversation :: "playground_conversation \<Rightarrow> playground_conversation" where
  "load_conversation c =
     c\<lparr>cv_mode := Some (mode_of c), cv_messages := sanitizeMessagesOnLoad (cv_messages c)\<rparr>"

text \<open>The stored id of a mode, when a conversation of that mode has it, else the first of the
  mode.\<close>

definition load_active_id ::
  "playground_mode \<Rightarrow> string option \<Rightarrow> playground_conversation list \<Rightarrow> string option" where
  "load_active_id mode saved convs =
     (case js_or saved None of
        Some i \<Rightarrow>
          if \<exists>c \<in> set convs. cv_id c = i \<and> mode_of c = mode then Some i
          else find_id (\<lambda>c. mode_of c = mode) convs
      | None \<Rightarrow> find_id (\<lambda>c. mode_of c = mode) convs)"

definition loadConversations :: "nat \<Rightarrow> storage \<Rightarrow> conversation_state \<times> storage" where
  "loadConversations now sto =
     (case sto_conversations sto of
        Stored parsed \<Rightarrow>
          (let conversations = map load_conversation parsed;
               chatActiveId = load_active_id Chat (sto_activeChatId sto) conversations;
               agentActiveId = load_active_id Agent (sto_activeAgentId sto) conversations;
               fallback = js_or chatActiveId (js_or agentActiveId (find_id (\<lambda>_. True) conversations));
               active = (case js_or (sto_activeId sto) None of
                 Some i \<Rightarrow> if \<exists>c \<in> set conversations. cv_id c = i then Some i else fallback
               | None \<Rightarrow> fallback)
           in (\<lparr>cs_conversations = conversations, cs_activeConversationId = active,
                 cs_activeConversationIds = (\<lambda>_. None)(Chat := chatActiveId, Agent := agentActiveId)\<rparr>, sto))
      | Corrupt \<Rightarrow> (no_conversations, sto)
      | Missing \<Rightarrow>
          (case loadMessages sto of
             (Some legacy, sto1) \<Rightarrow>
               (if legacy \<noteq> []
                then let c = blank_conversation (''legacy-'' @ show_nat now)
                           (storage_getConversationTitle legacy) now None legacy
                     in (only_chat c,
                         saveConversations [c] (Some (cv_id c)) (cs_activeConversationIds (only_chat c)) sto1)
                else (no_conversations, sto1))
           | (None, sto1) \<Rightarrow> (no_conversations, sto1)))"

definition clearPlaygroundData :: "storage \<Rightarrow> storage" where
  "clearPlaygroundData sto =
     sto\<lparr>sto_config := Missing, sto_parameterEnabled := Missing, sto_messages := Missing,
       sto_conversations := Missing, sto_activeId := None, sto_activeChatId := None,
       sto_activeAgentId := None\<rparr>"

section \<open>Titles and new conversations\<close>

text \<open>The test \<open>/<agent_tool_results\b/i\<close>.\<close>

definition has_agent_results :: "string \<Rightarrow> bool" where
  "has_agent_results s \<longleftrightarrow> search_by (starts_word_ci ''<agent_tool_results'') s \<noteq> None"

text \<open>\<open>replace(/\s+/g, ' ')\<close>.\<close>

fun collapse_ws :: "string \<Rightarrow> string" where
  "collapse_ws [] = []"
| "collapse_ws (c # cs) =
     (if is_ws c
      then (case cs of
              [] \<Rightarrow> [CHR '' '']
            | d # _ \<Rightarrow> if is_ws d then collapse_ws cs else CHR '' '' # collapse_ws cs)
      else c # collapse_ws cs)"

definition getConversationTitle :: "message list \<Rightarrow> string" where
  "getConversationTitle ms =
     (let m = List.find
            (\<lambda>m. m_from m = User \<and> \<not> m_isAgentToolResult m \<and> \<not> has_agent_results (first_content m))
            (rev ms)
      in titled (trim (collapse_ws (case m of None \<Rightarrow> [] | Some m \<Rightarrow> first_content m))) 28 m)"

definition createConversation ::
  "string \<Rightarrow> nat \<Rightarrow> message list \<Rightarrow> playground_mode \<Rightarrow> playground_conversation" where
  "createConversation cid now ms mode =
     blank_conversation cid (getConversationTitle ms) now (Some mode) ms"

section \<open>The conversation state and its operations\<close>

text \<open>The state of the hook together with the storage it persists to.\<close>

record playground =
  pg_config :: playground_config
  pg_parameterEnabled :: parameter_enabled
  pg_state :: conversation_state
  pg_storage :: storage

definition override :: "'a \<Rightarrow> 'a option \<Rightarrow> 'a" where
  "override d v = (case v of None \<Rightarrow> d | Some x \<Rightarrow> x)"

text \<open>\<open>{ ...DEFAULT_CONFIG, ...savedConfig }\<close>.\<close>

definition merge_config :: "playground_config \<Rightarrow> partial_config \<Rightarrow> playground_config" where
  "merge_config d s =
     \<lparr>pc_model = override (pc_model d) (ppc_model s),
       pc_group = override (pc_group d) (ppc_group s),
       pc_openaiReasoningEffort = override (pc_openaiReasoningEffort d) (ppc_openaiReasoningEffort s),
       pc_openaiRequestMode =
         (case ppc_openaiRequestMode s of None \<Rightarrow> pc_openaiRequestMode d | Some m \<Rightarrow> Some m),
       pc_openaiFastMode = override (pc_openaiFastMode d) (ppc_openaiFastMode s),
       pc_temperature = override (pc_temperature d) (ppc_temperature s),
       pc_top_p = override (pc_top_p d) (ppc_top_p s),
       pc_max_tokens = override (pc_max_tokens d) (ppc_max_tokens s),
       pc_frequency_penalty = override (pc_frequency_penalty d) (ppc_frequency_penalty s),
       pc_presence_penalty = override (pc_presence_penalty d) (ppc_presence_penalty s),
       pc_seed = override (pc_seed d) (ppc_seed s),
       pc_stream = override (pc_stream d) (ppc_stream s)\<rparr>"

definition full_config :: "playground_config \<Rightarrow> partial_config" where
  "full_config c =
     \<lparr>ppc_model = Some (pc_model c), ppc_group = Some (pc_group c),
       ppc_openaiReasoningEffort = Some (pc_openaiReasoningEffort c),
       ppc_openaiRequestMode = pc_openaiRequestMode c,
       ppc_openaiFastMode = Some (pc_openaiFastMode c),
       ppc_temperature = Some (pc_temperature c), ppc_top_p = Some (pc_top_p c),
       ppc_max_tokens = Some (pc_max_tokens c),
       ppc_frequency_penalty = Some (pc_frequency_penalty c),
       ppc_presence_penalty = Some (pc_presence_penalty c),
       ppc_seed = Some (pc_seed c), ppc_stream = Some (pc_stream c)\<rparr>"

definition initial_state :: "string \<Rightarrow> nat \<Rightarrow> storage \<Rightarrow> conversation_state \<times> storage" where
  "initial_state cid now sto =
     (case loadConversations now sto of (loaded, sto1) \<Rightarrow>
        if cs_conversations loaded \<noteq> [] \<and> js_or (cs_activeConversationId loaded) None \<noteq> None
        then (loaded, sto1)
        else (only_chat (createConversation cid now [] Chat), sto1))"

definition usePlaygroundState :: "string \<Rightarrow> nat \<Rightarrow> storage \<Rightarrow> playground" where
  "usePlaygroundState cid now sto =
     (case initial_state cid now sto of (cs, sto1) \<Rightarrow>
        \<lparr>pg_config = merge_config DEFAULT_CONFIG (loadConfig sto),
          pg_parameterEnabled = override DEFAULT_PARAMETER_ENABLED (loadParameterEnabled sto),
          pg_state = cs, pg_storage = sto1\<rparr>)"

definition activeConversation :: "conversation_state \<Rightarrow> playground_conversation option" where
  "activeConversation cs =
     (case List.find (\<lambda>c. Some (cv_id c) = cs_activeConversationId cs) (cs_conversations cs) of
        Some c \<Rightarrow> Some c
      | None \<Rightarrow> (case cs_conversations cs of [] \<Rightarrow> None | c # _ \<Rightarrow> Some c))"

definition persistConversationState ::
  "playground_conversation list \<Rightarrow> string option \<Rightarrow> (playground_mode \<Rightarrow> string option) \<Rightarrow>
   playground \<Rightarrow> playground" where
  "persistConversationState convs active ids pg =
     pg\<lparr>pg_state := \<lparr>cs_conversations = convs, cs_activeConversationId = active,
          cs_activeConversationIds = ids\<rparr>,
        pg_storage := saveConversations convs active ids (pg_storage pg)\<rparr>"

definition updateConfig :: "(playground_config \<Rightarrow> playground_config) \<Rightarrow> playground \<Rightarrow> playground" where
  "updateConfig f pg =
     pg\<lparr>pg_config := f (pg_config pg),
        pg_storage := saveConfig (full_config (f (pg_config pg))) (pg_storage pg)\<rparr>"

definition updateParameterEnabled ::
  "(parameter_enabled \<Rightarrow> parameter_enabled) \<Rightarrow> playground \<Rightarrow> playground" where
  "updateParameterEnabled f pg =
     pg\<lparr>pg_parameterEnabled := f (pg_parameterEnabled pg),
        pg_storage := saveParameterEnabled (f (pg_parameterEnabled pg)) (pg_storage pg)\<rparr>"

text \<open>\<open>prevState.activeConversationId || prevState.conversations[0]?.id || null\<close>.\<close>

definition current_id :: "conversation_state \<Rightarrow> string option" where
  "current_id cs = js_or (cs_activeConversationId cs) (find_id (\<lambda>_. True) (cs_conversations cs))"

definition updateMessages :: "nat \<Rightarrow> (message list \<Rightarrow> message list) \<Rightarrow> playground \<Rightarrow> playground" where
  "updateMessages now updater pg =
     (let prev = pg_state pg; currentId = current_id prev in
      persistConversationState
        (map (\<lambda>c. if Some (cv_id c) \<noteq> currentId then c
               else let newMessages = updater (cv_messages c) in
                 c\<lparr>cv_messages := newMessages, cv_title := getConversationTitle newMessages,
                   cv_updatedAt := now\<rparr>) (cs_conversations prev))
        currentId (cs_activeConversationIds prev) pg)"

definition clearMessages :: "nat \<Rightarrow> playground \<Rightarrow> playground" where
  "clearMessages now pg = updateMessages now (\<lambda>_. []) pg"

definition createNewConversation ::
  "string \<Rightarrow> nat \<Rightarrow> playground_mode \<Rightarrow> string option \<Rightarrow> playground \<Rightarrow> playground" where
  "createNewConversation cid now mode workspaceName pg =
     (let prev = pg_state pg;
          c = (createConversation cid now [] mode)\<lparr>cv_workspaceName := workspaceName\<rparr> in
      persistConversationState (c # cs_conversations prev) (Some (cv_id c))
        ((cs_activeConversationIds prev)(mode := Some (cv_id c))) pg)"

definition switchConversation :: "string \<Rightarrow> playground \<Rightarrow> playground" where
  "switchConversation cid pg =
     (let prev = pg_state pg in
      case List.find (\<lambda>c. cv_id c = cid) (cs_conversations prev) of
        None \<Rightarrow> pg
      | Some c \<Rightarrow>
          persistConversationState (cs_conversations prev) (Some cid)
            ((cs_activeConversationIds prev)(mode_of c := Some cid)) pg)"

definition deleteConversation :: "string \<Rightarrow> nat \<Rightarrow> string \<Rightarrow> playground \<Rightarrow> playground" where
  "deleteConversation newid now cid pg =
     (let prev = pg_state pg;
          remaining = filter (\<lambda>c. cv_id c \<noteq> cid) (cs_conversations prev) in
      if remaining = [] then
        (let c = createConversation newid now [] Chat in
         persistConversationState [c] (Some (cv_id c)) (cs_activeConversationIds (only_chat c)) pg)
      else
        (let deletedMode = (case List.find (\<lambda>c. cv_id c = cid) (cs_conversations prev) of
               None \<Rightarrow> Chat | Some c \<Rightarrow> mode_of c);
             sameMode = find_id (\<lambda>_. True) (filter (\<lambda>c. mode_of c = deletedMode) remaining);
             ids = cs_activeConversationIds prev in
         persistConversationState remaining
           (if cs_activeConversationId prev = Some cid
            then js_or sameMode (Some (cv_id (hd remaining)))
            else cs_activeConversationId prev)
           (ids(deletedMode := (if ids deletedMode = Some cid then sameMode else ids deletedMode))) pg))"

definition switchMode :: "string \<Rightarrow> nat \<Rightarrow> playground_mode \<Rightarrow> playground \<Rightarrow> playground" where
  "switchMode newid now nextMode pg =
     (let prev = pg_state pg; ids = cs_activeConversationIds prev;
          existing = js_or (ids nextMode)
            (find_id (\<lambda>_. True)
              (js_sort (\<lambda>a b. cv_updatedAt b < cv_updatedAt a)
                (filter (\<lambda>c. mode_of c = nextMode) (cs_conversations prev)))) in
      case existing of
        Some i \<Rightarrow>
          persistConversationState (cs_conversations prev) (Some i) (ids(nextMode := Some i)) pg
      | None \<Rightarrow>
          (let c = createConversation newid now [] nextMode in
           persistConversationState (c # cs_conversations prev) (Some (cv_id c))
             (ids(nextMode := Some (cv_id c))) pg))"

text \<open>The partial update of a conversation: an absent key is \<open>None\<close>.\<close>

record meta_updates =
  mu_mode :: "playground_mode option"
  mu_workspaceName :: "string option option"
  mu_agentPreviousResponseId :: "string option option"
  mu_agentResponsesSentMessageCount :: "nat option option"
  mu_agentResponsesPendingToolCallIds :: "string list option option"
  mu_agentResponsesModel :: "string option option"
  mu_agentResponsesWorkspaceName :: "string option option"
  mu_agentResponsesStateVersion :: "nat option option"

definition apply_meta :: "meta_updates \<Rightarrow> nat \<Rightarrow> playground_conversation \<Rightarrow> playground_conversation" where
  "apply_meta u now c =
     c\<lparr>cv_mode := (case mu_mode u of None \<Rightarrow> cv_mode c | Some m \<Rightarrow> Some m),
       cv_workspaceName := override (cv_workspaceName c) (mu_workspaceName u),
       cv_agentPreviousResponseId :=
         override (cv_agentPreviousResponseId c) (mu_agentPreviousResponseId u),
       cv_agentResponsesSentMessageCount :=
         override (cv_agentResponsesSentMessageCount c) (mu_agentResponsesSentMessageCount u),
       cv_agentResponsesPendingToolCallIds :=
         override (cv_agentResponsesPendingToolCallIds c) (mu_agentResponsesPendingToolCallIds u),
       cv_agentResponsesModel := override (cv_agentResponsesModel c) (mu_agentResponsesModel u),
       cv_agentResponsesWorkspaceName :=
         override (cv_agentResponsesWorkspaceName c) (mu_agentResponsesWorkspaceName u),
       cv_agentResponsesStateVersion :=
         override (cv_agentResponsesStateVersion c) (mu_agentResponsesStateVersion u),
       cv_updatedAt := now\<rparr>"

definition updateActiveConversationMeta :: "nat \<Rightarrow> meta_updates \<Rightarrow> playground \<Rightarrow> playground" where
  "updateActiveConversationMeta now u pg =
     (let prev = pg_state pg in
      case current_id prev of
        None \<Rightarrow> pg
      | Some i \<Rightarrow>
          persistConversationState
            (map (\<lambda>c. if cv_id c = i then apply_meta u now c else c) (cs_conversations prev))
            (Some i)
            (case mu_mode u of
               None \<Rightarrow> cs_activeConversationIds prev
             | Some m \<Rightarrow> (cs_activeConversationIds prev)(m := Some i)) pg)"

definition resetConfig :: "playground \<Rightarrow> playground" where
  "resetConfig pg =
     pg\<lparr>pg_config := DEFAULT_CONFIG, pg_parameterEnabled := DEFAULT_PARAMETER_ENABLED,
        pg_storage := saveParameterEnabled DEFAULT_PARAMETER_ENABLED
          (saveConfig (full_config DEFAULT_CONFIG) (pg_storage pg))\<rparr>"

section \<open>The invariant\<close>

definition ids_of :: "playground_conversation list \<Rightarrow> string list" where
  "ids_of convs = map cv_id convs"

text \<open>The remembered conversation of a mode has that mode, and a mode without one has no
  conversation.\<close>

definition mode_ok :: "playground_conversation list \<Rightarrow> playground_mode \<Rightarrow> string option \<Rightarrow> bool" where
  "mode_ok convs mode remembered \<longleftrightarrow>
     (case remembered of
        None \<Rightarrow> \<forall>c \<in> set convs. mode_of c \<noteq> mode
      | Some i \<Rightarrow> \<exists>c \<in> set convs. cv_id c = i \<and> mode_of c = mode)"

definition convs_ok :: "playground_conversation list \<Rightarrow> bool" where
  "convs_ok convs \<longleftrightarrow> distinct (ids_of convs) \<and> [] \<notin> set (ids_of convs)"

definition state_ok :: "conversation_state \<Rightarrow> bool" where
  "state_ok cs \<longleftrightarrow>
     convs_ok (cs_conversations cs) \<and>
     (\<exists>i \<in> set (ids_of (cs_conversations cs)). cs_activeConversationId cs = Some i) \<and>
     (\<forall>mode. mode_ok (cs_conversations cs) mode (cs_activeConversationIds cs mode))"

text \<open>What the storage may hold: the conversations of some earlier state.\<close>

definition storage_ok :: "storage \<Rightarrow> bool" where
  "storage_ok sto \<longleftrightarrow> (\<forall>convs. sto_conversations sto = Stored convs \<longrightarrow> convs_ok convs)"

definition playground_ok :: "playground \<Rightarrow> bool" where
  "playground_ok pg \<longleftrightarrow> state_ok (pg_state pg) \<and> storage_ok (pg_storage pg)"

text \<open>The steps of the playground. New ids are fresh; the meta updates are those the program makes,
  which never carry a mode. A reload starts again from the storage.\<close>

definition fresh_id :: "string \<Rightarrow> playground \<Rightarrow> bool" where
  "fresh_id i pg \<longleftrightarrow> i \<noteq> [] \<and> i \<notin> set (ids_of (cs_conversations (pg_state pg)))"

inductive playground_step :: "playground \<Rightarrow> playground \<Rightarrow> bool" where
  messages: "playground_step pg (updateMessages now f pg)"
| create: "fresh_id i pg \<Longrightarrow> playground_step pg (createNewConversation i now mode ws pg)"
| switch: "playground_step pg (switchConversation i pg)"
| delete: "fresh_id n pg \<Longrightarrow> playground_step pg (deleteConversation n now i pg)"
| mode: "fresh_id n pg \<Longrightarrow> playground_step pg (switchMode n now m pg)"
| meta: "mu_mode u = None \<Longrightarrow> playground_step pg (updateActiveConversationMeta now u pg)"
| config: "playground_step pg (updateConfig f pg)"
| parameters: "playground_step pg (updateParameterEnabled g pg)"
| reset: "playground_step pg (resetConfig pg)"
| reload: "n \<noteq> [] \<Longrightarrow> playground_step pg (usePlaygroundState n now (pg_storage pg))"
| quota: "playground_step pg (pg\<lparr>pg_storage := (pg_storage pg)\<lparr>sto_writable := b\<rparr>\<rparr>)"
| cleared: "playground_step pg (pg\<lparr>pg_storage := clearPlaygroundData (pg_storage pg)\<rparr>)"

inductive playground_reachable :: "playground \<Rightarrow> bool" where
  start: "n \<noteq> [] \<Longrightarrow> storage_ok sto \<Longrightarrow> playground_reachable (usePlaygroundState n now sto)"
| step: "playground_reachable pg \<Longrightarrow> playground_step pg pg' \<Longrightarrow> playground_reachable pg'"

section \<open>Every operation keeps the invariant\<close>

lemma find_in_set: "List.find p xs = Some x \<Longrightarrow> x \<in> set xs \<and> p x"
  by (induction xs) (auto split: if_splits)

lemma all_playground_mode: "(\<forall>m. P m) \<longleftrightarrow> P Chat \<and> P Agent"
  by (metis playground_mode.exhaust)

lemma conv_id_nonempty: "convs_ok convs \<Longrightarrow> c \<in> set convs \<Longrightarrow> cv_id c \<noteq> []"
  unfolding convs_ok_def ids_of_def set_map by (metis imageI)

lemma find_id_Some:
  "convs_ok convs \<Longrightarrow> find_id p convs = Some i \<Longrightarrow> \<exists>c \<in> set convs. cv_id c = i \<and> p c"
  by (auto simp: find_id_def js_or_def split: option.splits if_splits dest!: find_in_set)

lemma find_id_None:
  assumes "convs_ok convs"
  shows "find_id p convs = None \<longleftrightarrow> (\<forall>c \<in> set convs. \<not> p c)"
proof (cases "List.find p convs")
  case None
  moreover from None have "\<forall>c \<in> set convs. \<not> p c" by (auto simp: find_None_iff)
  ultimately show ?thesis by (simp add: find_id_def)
next
  case (Some c)
  have c: "c \<in> set convs" "p c" using find_in_set [OF Some] by simp_all
  then have "find_id p convs = Some (cv_id c)"
    using Some conv_id_nonempty [OF assms c(1)] by (simp add: find_id_def js_or_def)
  with c show ?thesis by auto
qed

lemma convs_ok_filter: "convs_ok convs \<Longrightarrow> convs_ok (filter p convs)"
  by (auto simp: convs_ok_def ids_of_def distinct_map_filter)

lemma current_id_ok:
  "state_ok cs \<Longrightarrow> current_id cs = cs_activeConversationId cs"
  by (auto simp: state_ok_def current_id_def js_or_def convs_ok_def)

lemma persist_ok:
  assumes "state_ok \<lparr>cs_conversations = convs, cs_activeConversationId = active,
      cs_activeConversationIds = ids\<rparr>" "storage_ok (pg_storage pg)"
  shows "playground_ok (persistConversationState convs active ids pg)"
  using assms
  by (auto simp: playground_ok_def persistConversationState_def saveConversations_def storage_ok_def
      state_ok_def)

text \<open>A map that keeps ids and modes keeps the state.\<close>

lemma state_ok_map:
  assumes "state_ok cs" "\<And>c. cv_id (f c) = cv_id c" "\<And>c. mode_of (f c) = mode_of c"
  shows "state_ok \<lparr>cs_conversations = map f (cs_conversations cs),
    cs_activeConversationId = cs_activeConversationId cs,
    cs_activeConversationIds = cs_activeConversationIds cs\<rparr>"
proof -
  have "ids_of (map f (cs_conversations cs)) = ids_of (cs_conversations cs)"
    by (simp add: ids_of_def assms)
  moreover have "mode_ok (map f convs) m r = mode_ok convs m r" for convs m r
    by (auto simp: mode_ok_def assms split: option.splits)
  ultimately show ?thesis using assms(1) by (simp add: state_ok_def convs_ok_def)
qed

lemma mode_ok_Cons:
  assumes "mode_ok convs m r"
  shows "mode_ok (c # convs) m (if mode_of c = m then Some (cv_id c) else r)"
  using assms by (auto simp: mode_ok_def split: option.splits)

lemma state_ok_Cons:
  assumes "state_ok cs" "cv_id c \<noteq> []" "cv_id c \<notin> set (ids_of (cs_conversations cs))"
  shows "state_ok \<lparr>cs_conversations = c # cs_conversations cs, cs_activeConversationId = Some (cv_id c),
    cs_activeConversationIds = (cs_activeConversationIds cs)(mode_of c := Some (cv_id c))\<rparr>"
proof -
  have "mode_ok (c # cs_conversations cs) m
      (((cs_activeConversationIds cs)(mode_of c := Some (cv_id c))) m)" for m
    using mode_ok_Cons [of "cs_conversations cs" m "cs_activeConversationIds cs m" c] assms(1)
    by (auto simp: state_ok_def)
  then show ?thesis using assms by (simp add: state_ok_def convs_ok_def ids_of_def)
qed

lemma state_ok_select:
  assumes "state_ok cs" "c \<in> set (cs_conversations cs)"
  shows "state_ok \<lparr>cs_conversations = cs_conversations cs, cs_activeConversationId = Some (cv_id c),
    cs_activeConversationIds = (cs_activeConversationIds cs)(mode_of c := Some (cv_id c))\<rparr>"
  using assms by (auto simp: state_ok_def ids_of_def mode_ok_def)

lemma state_ok_only_chat: "cv_id c \<noteq> [] \<Longrightarrow> mode_of c = Chat \<Longrightarrow> state_ok (only_chat c)"
  by (auto simp: state_ok_def only_chat_def convs_ok_def ids_of_def mode_ok_def)

lemma createConversation_simps [simp]:
  "cv_id (createConversation i now ms m) = i" "mode_of (createConversation i now ms m) = m"
  by (simp_all add: createConversation_def blank_conversation_def mode_of_def)

lemma mode_of_update [simp]:
  "mode_of (c\<lparr>cv_workspaceName := w\<rparr>) = mode_of c"
  "mode_of (c\<lparr>cv_messages := ms, cv_title := t, cv_updatedAt := u\<rparr>) = mode_of c"
  by (simp_all add: mode_of_def)

lemma updateMessages_ok: "playground_ok pg \<Longrightarrow> playground_ok (updateMessages now f pg)"
  unfolding updateMessages_def Let_def
  by (rule persist_ok)
    (auto simp: playground_ok_def current_id_ok intro!: state_ok_map)

lemma createNewConversation_ok:
  assumes "playground_ok pg" "fresh_id i pg"
  shows "playground_ok (createNewConversation i now mode ws pg)"
proof -
  let ?c = "(createConversation i now [] mode)\<lparr>cv_workspaceName := ws\<rparr>"
  have "state_ok \<lparr>cs_conversations = ?c # cs_conversations (pg_state pg),
      cs_activeConversationId = Some (cv_id ?c),
      cs_activeConversationIds = (cs_activeConversationIds (pg_state pg))(mode_of ?c := Some (cv_id ?c))\<rparr>"
    by (rule state_ok_Cons) (use assms in \<open>auto simp: playground_ok_def fresh_id_def\<close>)
  then show ?thesis
    unfolding createNewConversation_def Let_def
    by (intro persist_ok) (use assms in \<open>auto simp: playground_ok_def\<close>)
qed

lemma switchConversation_ok:
  assumes "playground_ok pg"
  shows "playground_ok (switchConversation i pg)"
proof (cases "List.find (\<lambda>c. cv_id c = i) (cs_conversations (pg_state pg))")
  case None
  then show ?thesis using assms by (simp add: switchConversation_def)
next
  case (Some c)
  then have "c \<in> set (cs_conversations (pg_state pg))" "cv_id c = i"
    by (auto dest: find_in_set)
  with Some show ?thesis
    unfolding switchConversation_def Let_def
    using state_ok_select [of "pg_state pg" c] assms persist_ok by (auto simp: playground_ok_def)
qed

lemma js_sort_find:
  assumes "convs_ok convs"
  shows "find_id (\<lambda>_. True) (js_sort lt convs) = Some i \<Longrightarrow> \<exists>c \<in> set convs. cv_id c = i"
    and "find_id (\<lambda>_. True) (js_sort lt convs) = None \<Longrightarrow> convs = []"
proof -
  have "set (ids_of (js_sort lt convs)) = set (ids_of convs)" by (simp add: ids_of_def)
  then have ok: "[] \<notin> set (ids_of (js_sort lt convs))" using assms by (simp add: convs_ok_def)
  show "\<exists>c \<in> set convs. cv_id c = i" if "find_id (\<lambda>_. True) (js_sort lt convs) = Some i"
  proof (cases "js_sort lt convs")
    case (Cons c cs)
    then have "c \<in> set convs" using set_js_sort [of lt convs] by auto
    then show ?thesis using that Cons by (auto simp: find_id_def js_or_def split: if_splits)
  qed (use that in \<open>simp add: find_id_def\<close>)
  show "convs = []" if "find_id (\<lambda>_. True) (js_sort lt convs) = None"
  proof (cases "js_sort lt convs")
    case Nil
    then show ?thesis using set_js_sort [of lt convs] by simp
  next
    case (Cons c cs)
    then show ?thesis using that ok by (simp add: find_id_def js_or_def ids_of_def split: if_splits)
  qed
qed

lemma switchMode_ok:
  assumes "playground_ok pg" "fresh_id n pg"
  shows "playground_ok (switchMode n now m pg)"
proof -
  let ?cs = "pg_state pg"
  let ?same = "filter (\<lambda>c. mode_of c = m) (cs_conversations ?cs)"
  let ?ex = "js_or (cs_activeConversationIds ?cs m)
    (find_id (\<lambda>_. True) (js_sort (\<lambda>a b. cv_updatedAt b < cv_updatedAt a) ?same))"
  have ok: "state_ok ?cs" and sto: "storage_ok (pg_storage pg)" using assms by (auto simp: playground_ok_def)
  then have cok: "convs_ok ?same" by (auto simp: state_ok_def intro: convs_ok_filter)
  show ?thesis
  proof (cases ?ex)
    case None
    let ?c = "createConversation n now [] m"
    have "state_ok \<lparr>cs_conversations = ?c # cs_conversations ?cs,
        cs_activeConversationId = Some (cv_id ?c),
        cs_activeConversationIds = (cs_activeConversationIds ?cs)(mode_of ?c := Some (cv_id ?c))\<rparr>"
      by (rule state_ok_Cons) (use ok assms(2) in \<open>auto simp: fresh_id_def\<close>)
    then show ?thesis
      unfolding switchMode_def Let_def using None sto by (auto intro!: persist_ok)
  next
    case (Some i)
    have "\<exists>c \<in> set (cs_conversations ?cs). cv_id c = i \<and> mode_of c = m"
    proof (cases "cs_activeConversationIds ?cs m = Some i")
      case True
      then show ?thesis using ok by (auto simp: state_ok_def mode_ok_def split: option.splits)
    next
      case False
      then have "find_id (\<lambda>_. True) (js_sort (\<lambda>a b. cv_updatedAt b < cv_updatedAt a) ?same) = Some i"
        using Some by (auto simp: js_or_def split: option.splits if_splits)
      from js_sort_find(1) [OF cok this] show ?thesis by auto
    qed
    then obtain c where "c \<in> set (cs_conversations ?cs)" "cv_id c = i" "mode_of c = m" by blast
    then show ?thesis
      unfolding switchMode_def Let_def using Some sto state_ok_select [OF ok, of c]
      by (auto intro!: persist_ok)
  qed
qed

lemma js_or_in:
  "(\<And>j. v = Some j \<Longrightarrow> j \<in> S) \<Longrightarrow> k \<in> S \<Longrightarrow> \<exists>j \<in> S. js_or v (Some k) = Some j"
  by (auto simp: js_or_def split: option.splits)

lemma deleteConversation_ok:
  assumes "playground_ok pg" "fresh_id n pg"
  shows "playground_ok (deleteConversation n now i pg)"
proof -
  let ?cs = "pg_state pg"
  let ?rem = "filter (\<lambda>c. cv_id c \<noteq> i) (cs_conversations ?cs)"
  let ?dm = "case List.find (\<lambda>c. cv_id c = i) (cs_conversations ?cs) of
    None \<Rightarrow> Chat | Some c \<Rightarrow> mode_of c"
  let ?same = "find_id (\<lambda>_. True) (filter (\<lambda>c. mode_of c = ?dm) ?rem)"
  let ?ids = "cs_activeConversationIds ?cs"
  let ?active = "if cs_activeConversationId ?cs = Some i
    then js_or ?same (Some (cv_id (hd ?rem))) else cs_activeConversationId ?cs"
  have ok: "state_ok ?cs" and sto: "storage_ok (pg_storage pg)" and n: "n \<noteq> []"
    using assms by (auto simp: playground_ok_def fresh_id_def)
  have rok: "convs_ok ?rem" and sok: "convs_ok (filter (\<lambda>c. mode_of c = ?dm) ?rem)"
    using ok by (auto simp: state_ok_def intro: convs_ok_filter)
  have only: "mode_of c = ?dm" if "c \<in> set (cs_conversations ?cs)" "cv_id c = i" for c
    using that ok by (auto simp: state_ok_def convs_ok_def ids_of_def distinct_map inj_on_def
        find_None_iff split: option.splits dest!: find_in_set)
  show ?thesis
  proof (cases "?rem = []")
    case True
    then show ?thesis
      unfolding deleteConversation_def Let_def
      using persist_ok [OF _ sto] state_ok_only_chat [of "createConversation n now [] Chat"] n
      by (simp add: only_chat_def)
  next
    case False
    have same_in: "\<exists>c \<in> set ?rem. cv_id c = j \<and> mode_of c = ?dm" if "?same = Some j" for j
      using find_id_Some [OF sok that] by auto
    have active: "\<exists>j \<in> set (ids_of ?rem). ?active = Some j"
    proof (cases "cs_activeConversationId ?cs = Some i")
      case True
      have "\<exists>j \<in> set (ids_of ?rem). js_or ?same (Some (cv_id (hd ?rem))) = Some j"
      proof (rule js_or_in)
        show "j \<in> set (ids_of ?rem)" if "?same = Some j" for j
          using same_in [OF that] by (auto simp: ids_of_def)
        show "cv_id (hd ?rem) \<in> set (ids_of ?rem)"
          unfolding ids_of_def set_map by (rule imageI) (rule hd_in_set [OF False])
      qed
      with True show ?thesis by simp
    next
      case False
      then show ?thesis using ok by (auto simp: state_ok_def ids_of_def)
    qed
    have modes: "mode_ok ?rem m
        ((?ids(?dm := (if ?ids ?dm = Some i then ?same else ?ids ?dm))) m)" for m
    proof -
      have old: "mode_ok (cs_conversations ?cs) m (?ids m)" using ok by (simp add: state_ok_def)
      show ?thesis
      proof (cases "m = ?dm \<and> ?ids ?dm = Some i")
        case True
        then show ?thesis using same_in find_id_None [OF sok, of "\<lambda>_. True"]
          by (cases ?same) (auto simp: mode_ok_def)
      next
        case False
        then have "?ids m \<noteq> Some i" using old only by (auto simp: mode_ok_def)
        then have "mode_ok ?rem m (?ids m)" using old by (auto simp: mode_ok_def split: option.splits)
        then show ?thesis using False by auto
      qed
    qed
    show ?thesis
      unfolding deleteConversation_def Let_def
      using False persist_ok [OF _ sto] active modes rok by (simp add: state_ok_def)
  qed
qed

lemma updateActiveConversationMeta_ok:
  assumes "playground_ok pg" "mu_mode u = None"
  shows "playground_ok (updateActiveConversationMeta now u pg)"
proof -
  have ok: "state_ok (pg_state pg)" and sto: "storage_ok (pg_storage pg)"
    using assms by (auto simp: playground_ok_def)
  then obtain i where i: "cs_activeConversationId (pg_state pg) = Some i" by (auto simp: state_ok_def)
  let ?f = "\<lambda>c. if cv_id c = i then apply_meta u now c else c"
  have "cv_id (?f c) = cv_id c" "mode_of (?f c) = mode_of c" for c
    using assms(2) by (auto simp: apply_meta_def mode_of_def)
  from state_ok_map [OF ok, of ?f, OF this] show ?thesis
    unfolding updateActiveConversationMeta_def Let_def
    using persist_ok [OF _ sto] i current_id_ok [OF ok] assms(2) by simp
qed

lemma load_conversation_simps [simp]:
  "cv_id (load_conversation c) = cv_id c" "mode_of (load_conversation c) = mode_of c"
  by (simp_all add: load_conversation_def mode_of_def)

lemma convs_ok_load: "convs_ok convs \<Longrightarrow> convs_ok (map load_conversation convs)"
  by (simp add: convs_ok_def ids_of_def comp_def)

lemma load_active_ok:
  assumes "convs_ok convs"
  shows "mode_ok convs m (load_active_id m saved convs)"
proof -
  have f: "mode_ok convs m (find_id (\<lambda>c. mode_of c = m) convs)"
    using find_id_Some [OF assms, of "\<lambda>c. mode_of c = m"] find_id_None [OF assms, of "\<lambda>c. mode_of c = m"]
    by (cases "find_id (\<lambda>c. mode_of c = m) convs") (auto simp: mode_ok_def)
  show ?thesis
  proof (cases "js_or saved None")
    case None
    then show ?thesis using f by (simp add: load_active_id_def)
  next
    case (Some i)
    then show ?thesis using f by (auto simp: load_active_id_def mode_ok_def)
  qed
qed

lemma js_or_id: "v \<noteq> Some [] \<Longrightarrow> js_or v None = v"
  by (auto simp: js_or_def split: option.splits)

lemma loaded_ok:
  assumes "sto_conversations sto = Stored convs" "convs_ok convs" "convs \<noteq> []"
  shows "state_ok (fst (loadConversations now sto))"
proof -
  let ?cs = "map load_conversation convs"
  let ?chat = "load_active_id Chat (sto_activeChatId sto) ?cs"
  let ?agent = "load_active_id Agent (sto_activeAgentId sto) ?cs"
  let ?fb = "js_or ?chat (js_or ?agent (find_id (\<lambda>_. True) ?cs))"
  have ok: "convs_ok ?cs" using assms convs_ok_load by blast
  have m: "mode_ok ?cs Chat ?chat" "mode_ok ?cs Agent ?agent" using load_active_ok [OF ok] by blast+
  have "\<exists>i \<in> set (ids_of ?cs). find_id (\<lambda>_. True) ?cs = Some i"
    using find_id_Some [OF ok, of "\<lambda>_. True"] find_id_None [OF ok, of "\<lambda>_. True"] assms(3)
    by (cases "find_id (\<lambda>_. True) ?cs") (auto simp: ids_of_def)
  then have "\<exists>i \<in> set (ids_of ?cs). ?fb = Some i"
    using m by (auto simp: js_or_def mode_ok_def ids_of_def split: option.splits)
  then show ?thesis
    using m ok assms(1)
    by (auto simp: loadConversations_def Let_def state_ok_def all_playground_mode ids_of_def
        split: option.splits)
qed

lemma loadMessages_conversations [simp]:
  "sto_conversations (snd (loadMessages sto)) = sto_conversations sto"
  by (auto simp: loadMessages_def saveMessages_def Let_def split: slot.splits)

lemma legacy_id: "''legacy-'' @ s \<noteq> []"
  by simp

lemma loadConversations_storage:
  assumes "storage_ok sto"
  shows "storage_ok (snd (loadConversations now sto))"
proof (cases "sto_conversations sto")
  case Missing
  obtain legacy sto1 where l: "loadMessages sto = (legacy, sto1)" by fastforce
  then have "sto_conversations sto1 = Missing" using Missing loadMessages_conversations [of sto] by simp
  then show ?thesis using Missing l
    by (cases legacy) (auto simp: loadConversations_def Let_def storage_ok_def saveConversations_def
        convs_ok_def ids_of_def blank_conversation_def)
qed (use assms in \<open>auto simp: loadConversations_def Let_def\<close>)

lemma initial_state_ok:
  assumes "storage_ok sto" "n \<noteq> []"
  shows "state_ok (fst (initial_state n now sto))"
proof -
  obtain cs sto1 where l: "loadConversations now sto = (cs, sto1)" by fastforce
  have only: "state_ok (only_chat (createConversation n now [] Chat))"
    using assms(2) by (simp add: state_ok_only_chat)
  show ?thesis
  proof (cases "cs_conversations cs = []")
    case True
    then show ?thesis using l only by (simp add: initial_state_def)
  next
    case False
    have "state_ok cs"
    proof (cases "sto_conversations sto")
      case (Stored convs)
      then have "convs_ok convs" using assms(1) by (simp add: storage_ok_def)
      moreover have "convs \<noteq> []" using l Stored False by (auto simp: loadConversations_def Let_def)
      ultimately show ?thesis using loaded_ok [OF Stored] l by (metis fst_conv)
    next
      case Missing
      then obtain c where "cs = only_chat c" "cv_id c \<noteq> []" "mode_of c = Chat"
        using l False
        by (auto simp: loadConversations_def Let_def no_conversations_def blank_conversation_def
            mode_of_def split: prod.splits option.splits if_splits)
      then show ?thesis by (simp add: state_ok_only_chat)
    next
      case Corrupt
      then show ?thesis using l False by (auto simp: loadConversations_def no_conversations_def)
    qed
    then show ?thesis using l only by (simp add: initial_state_def)
  qed
qed

lemma usePlaygroundState_ok:
  assumes "storage_ok sto" "n \<noteq> []"
  shows "playground_ok (usePlaygroundState n now sto)"
  using initial_state_ok [OF assms, of now] loadConversations_storage [OF assms(1), of now]
  by (auto simp: usePlaygroundState_def playground_ok_def initial_state_def split: prod.splits if_splits)

lemma storage_steps_ok:
  assumes "playground_ok pg"
  shows "playground_ok (updateConfig f pg)" "playground_ok (updateParameterEnabled g pg)"
    "playground_ok (resetConfig pg)"
    "playground_ok (pg\<lparr>pg_storage := (pg_storage pg)\<lparr>sto_writable := b\<rparr>\<rparr>)"
    "playground_ok (pg\<lparr>pg_storage := clearPlaygroundData (pg_storage pg)\<rparr>)"
  using assms
  by (simp_all add: playground_ok_def storage_ok_def updateConfig_def updateParameterEnabled_def
      resetConfig_def clearPlaygroundData_def saveConfig_def saveParameterEnabled_def)

lemma playground_step_ok: "playground_step pg pg' \<Longrightarrow> playground_ok pg \<Longrightarrow> playground_ok pg'"
proof (induction rule: playground_step.induct)
  case (reload n pg now)
  then show ?case using usePlaygroundState_ok by (simp add: playground_ok_def)
qed (simp_all add: updateMessages_ok createNewConversation_ok switchConversation_ok
    deleteConversation_ok switchMode_ok updateActiveConversationMeta_ok storage_steps_ok)

lemma playground_reachable_ok: "playground_reachable pg \<Longrightarrow> playground_ok pg"
  by (induction rule: playground_reachable.induct)
    (auto intro: usePlaygroundState_ok playground_step_ok)

section \<open>Properties\<close>

text \<open>The witness: a fresh browser, then an agent conversation.\<close>

definition empty_storage :: storage where
  "empty_storage =
     \<lparr>sto_writable = True, sto_config = Missing, sto_parameterEnabled = Missing,
       sto_messages = Missing, sto_conversations = Missing, sto_activeId = None,
       sto_activeChatId = None, sto_activeAgentId = None\<rparr>"

definition sample_playground :: playground where
  "sample_playground = createNewConversation ''b'' 4 Agent None (usePlaygroundState ''a'' 3 empty_storage)"

lemma sample_start: "cs_conversations (pg_state (usePlaygroundState ''a'' 3 empty_storage)) =
    [createConversation ''a'' 3 [] Chat]"
  by (simp add: usePlaygroundState_def initial_state_def loadConversations_def empty_storage_def
      loadMessages_def no_conversations_def only_chat_def)

lemma sample_reachable: "playground_reachable sample_playground"
proof -
  have "storage_ok empty_storage" by (simp add: storage_ok_def empty_storage_def)
  then have "playground_reachable (usePlaygroundState ''a'' 3 empty_storage)"
    by (intro playground_reachable.start) simp
  then show ?thesis
    unfolding sample_playground_def
    by (rule playground_reachable.step [OF _ playground_step.create])
      (simp add: fresh_id_def ids_of_def sample_start)
qed

lemma sample_convs: "cs_conversations (pg_state sample_playground) =
    [(createConversation ''b'' 4 [] Agent)\<lparr>cv_workspaceName := None\<rparr>, createConversation ''a'' 3 [] Chat]"
  by (simp add: sample_playground_def createNewConversation_def persistConversationState_def Let_def
      sample_start)

lemma sample_active: "cs_activeConversationId (pg_state sample_playground) = Some ''b''"
  by (simp add: sample_playground_def createNewConversation_def persistConversationState_def Let_def)

text \<open>C7: whatever the user does, the conversations stay consistent. From any storage written by the
  program, after any sequence of operations, reloads, failed writes and clearing of the storage, there
  is a conversation, ids are unique, the active id is the id of a conversation, and for each of the
  two modes the remembered id is that of a conversation of this mode, or the mode has no
  conversation.\<close>

theorem playground_invariant:
  assumes "playground_reachable pg"
  defines "cs \<equiv> pg_state pg"
  shows "distinct (map cv_id (cs_conversations cs)) \<and>
    (\<exists>c \<in> set (cs_conversations cs). cs_activeConversationId cs = Some (cv_id c)) \<and>
    (\<forall>mode. case cs_activeConversationIds cs mode of
       Some i \<Rightarrow> \<exists>c \<in> set (cs_conversations cs). cv_id c = i \<and> mode_of c = mode
     | None \<Rightarrow> \<forall>c \<in> set (cs_conversations cs). mode_of c \<noteq> mode)"
  using playground_reachable_ok [OF assms(1)] unfolding cs_def
  by (auto simp: playground_ok_def state_ok_def convs_ok_def ids_of_def mode_ok_def
      split: option.splits)

theorem playground_invariant_witness:
  "playground_reachable sample_playground \<and>
   map cv_id (cs_conversations (pg_state sample_playground)) = [''b'', ''a''] \<and>
   (\<exists>c \<in> set (cs_conversations (pg_state sample_playground)).
      cs_activeConversationId (pg_state sample_playground) = Some (cv_id c))"
  using playground_invariant [OF sample_reachable] sample_reachable sample_convs by simp

text \<open>an update of the messages reaches the active conversation and no other. It applies the
  updater to the messages of the active conversation, refreshes its title and time, and leaves
  every other conversation, the order of the list and the active ids as they were.\<close>

theorem update_messages_frame:
  assumes "playground_reachable pg"
  shows "\<exists>as c bs. cs_conversations (pg_state pg) = as @ c # bs \<and>
    activeConversation (pg_state pg) = Some c \<and>
    cs_conversations (pg_state (updateMessages now f pg)) =
      as @ c\<lparr>cv_messages := f (cv_messages c), cv_title := getConversationTitle (f (cv_messages c)),
             cv_updatedAt := now\<rparr> # bs \<and>
    cs_activeConversationId (pg_state (updateMessages now f pg)) = Some (cv_id c) \<and>
    cs_activeConversationIds (pg_state (updateMessages now f pg)) = cs_activeConversationIds (pg_state pg)"
proof -
  let ?cs = "pg_state pg"
  have ok: "state_ok ?cs" using playground_reachable_ok [OF assms] by (simp add: playground_ok_def)
  then obtain c where c: "c \<in> set (cs_conversations ?cs)" "cs_activeConversationId ?cs = Some (cv_id c)"
    by (auto simp: state_ok_def ids_of_def)
  then obtain as bs where ab: "cs_conversations ?cs = as @ c # bs" by (auto simp: in_set_conv_decomp)
  have "distinct (map cv_id (as @ c # bs))"
    using ok ab by (simp add: state_ok_def convs_ok_def ids_of_def)
  then have "cv_id c \<notin> cv_id ` (set as \<union> set bs)" by auto
  then have ne: "cv_id x \<noteq> cv_id c" if "x \<in> set as \<union> set bs" for x
    using that by (metis imageI)
  then have "List.find (\<lambda>x. cv_id x = cv_id c) as = None" by (auto simp: find_None_iff)
  then have "List.find (\<lambda>x. cv_id x = cv_id c) (as @ c # bs) = Some c"
    by (induction as) (auto split: if_splits)
  then have "activeConversation ?cs = Some c" using c(2) by (simp add: activeConversation_def ab)
  moreover have "map (\<lambda>x. if Some (cv_id x) \<noteq> Some (cv_id c) then x else g x) (as @ c # bs) =
      as @ g c # bs" for g
    using ne by (auto simp: map_idI)
  ultimately show ?thesis
    using ab c(2) current_id_ok [OF ok]
    by (intro exI [of _ as] exI [of _ c] exI [of _ bs])
      (auto simp: updateMessages_def persistConversationState_def Let_def)
qed

theorem update_messages_frame_witness:
  "playground_reachable sample_playground \<and>
   cs_activeConversationId (pg_state (updateMessages 9 (\<lambda>_. []) sample_playground)) =
     cs_activeConversationId (pg_state sample_playground)"
proof -
  have "activeConversation (pg_state sample_playground) =
      Some ((createConversation ''b'' 4 [] Agent)\<lparr>cv_workspaceName := None\<rparr>)"
    by (simp add: activeConversation_def sample_convs sample_active)
  then show ?thesis
    using update_messages_frame [OF sample_reachable, of 9 "\<lambda>_. []"] sample_reachable sample_active
    by auto
qed



end
