(* ===== verification/Effects.thy ===== *)
theory Effects
  imports Js_Prelude
begin

text \<open>Code that reads and changes an outside state and may fail. A computation takes the state and returns an error
  or a value together with the new state; the sequencing stops at the first error, and \<open>catch\<close> handles it in the
  state it left. The agent tools run in it against a workspace, and the billing code against the database.\<close>

type_synonym ('e, 'x, 'a) effect = "'e \<Rightarrow> ('x + 'a) \<times> 'e"

definition ret :: "'a \<Rightarrow> ('e, 'x, 'a) effect" where
  "ret x e = (Inr x, e)"

definition throw :: "'x \<Rightarrow> ('e, 'x, 'a) effect" where
  "throw msg e = (Inl msg, e)"

definition and_then :: "('e, 'x, 'a) effect \<Rightarrow> ('a \<Rightarrow> ('e, 'x, 'b) effect) \<Rightarrow> ('e, 'x, 'b) effect" where
  "and_then m f e = (case m e of (Inl msg, e') \<Rightarrow> (Inl msg, e') | (Inr x, e') \<Rightarrow> f x e')"

definition catch :: "('e, 'x, 'a) effect \<Rightarrow> ('x \<Rightarrow> ('e, 'y, 'a) effect) \<Rightarrow> ('e, 'y, 'a) effect" where
  "catch m h e = (case m e of (Inl msg, e') \<Rightarrow> h msg e' | (Inr x, e') \<Rightarrow> (Inr x, e'))"

fun fold_io :: "('b \<Rightarrow> 'a \<Rightarrow> ('e, 'x, 'b) effect) \<Rightarrow> 'b \<Rightarrow> 'a list \<Rightarrow> ('e, 'x, 'b) effect" where
  "fold_io f acc [] = ret acc"
| "fold_io f acc (x # xs) = and_then (f acc x) (\<lambda>acc'. fold_io f acc' xs)"

definition lift_result :: "'x + 'a \<Rightarrow> ('e, 'x, 'a) effect" where
  "lift_result r = (case r of Inl msg \<Rightarrow> throw msg | Inr x \<Rightarrow> ret x)"

lemma and_then_cases:
  assumes "and_then m f e = (r, e')"
  obtains (error) msg where "m e = (Inl msg, e')" "r = Inl msg"
  | (ok) x e1 where "m e = (Inr x, e1)" "f x e1 = (r, e')"
  using assms by (auto simp: and_then_def split: prod.splits sum.splits)

lemma catch_cases:
  assumes "catch m h e = (r, e')"
  obtains (error) msg e1 where "m e = (Inl msg, e1)" "h msg e1 = (r, e')"
  | (ok) x where "m e = (Inr x, e')" "r = Inr x"
  using assms by (auto simp: catch_def split: prod.splits sum.splits)

lemma ret_iff [simp]: "ret x e = (r, e') \<longleftrightarrow> r = Inr x \<and> e' = e"
  by (auto simp: ret_def)

lemma throw_iff [simp]: "throw msg e = (r, e') \<longleftrightarrow> r = Inl msg \<and> e' = e"
  by (auto simp: throw_def)

end
