(* ===== verification/Agent_Diff.thy ===== *)
theory Agent_Diff
  imports Js_Prelude "HOL-Library.Sublist"
begin

text \<open>
  The line diff that the user sees before approving an edit:
  \<open>buildLineDiff\<close> of \<^verbatim>\<open>features/playground/lib/agent-tools.ts\<close>. The matrix of the dynamic program
  is a list of rows that the two loops update in place; the walk over it is a recursion on the two
  positions. The specification is the longest common subsequence.
\<close>

section \<open>The program\<close>

abbreviation LF :: char where "LF \<equiv> CHR 0x0A"
abbreviation CR :: char where "CR \<equiv> CHR 0x0D"

text \<open>\<open>split(/\r?\n/)\<close>.\<close>

fun split_lines :: "string \<Rightarrow> string list" where
  "split_lines [] = [[]]"
| "split_lines (c # cs) =
     (if c = LF then [] # split_lines cs
      else if c = CR \<and> starts_with [LF] cs then [] # split_lines (tl cs)
      else (case split_lines cs of [] \<Rightarrow> [[c]] | l # ls \<Rightarrow> (c # l) # ls))"

text \<open>The body of the inner loop, the inner loop counting down from \<open>j\<close>, and the outer loop
  counting down from \<open>i\<close>.\<close>

definition diff_cell :: "'a list \<Rightarrow> 'a list \<Rightarrow> nat list list \<Rightarrow> nat \<Rightarrow> nat \<Rightarrow> nat" where
  "diff_cell oldLines nextLines matrix i j =
     (if oldLines ! i = nextLines ! j then matrix ! (i + 1) ! (j + 1) + 1
      else max (matrix ! (i + 1) ! j) (matrix ! i ! (j + 1)))"

fun fill_row :: "'a list \<Rightarrow> 'a list \<Rightarrow> nat list list \<Rightarrow> nat \<Rightarrow> nat \<Rightarrow> nat list list" where
  "fill_row oldLines nextLines matrix i 0 = matrix"
| "fill_row oldLines nextLines matrix i (Suc j) =
     fill_row oldLines nextLines
       (matrix[i := (matrix ! i)[j := diff_cell oldLines nextLines matrix i j]]) i j"

fun fill_rows :: "'a list \<Rightarrow> 'a list \<Rightarrow> nat list list \<Rightarrow> nat \<Rightarrow> nat list list" where
  "fill_rows oldLines nextLines matrix 0 = matrix"
| "fill_rows oldLines nextLines matrix (Suc i) =
     fill_rows oldLines nextLines
       (fill_row oldLines nextLines matrix i (length nextLines)) i"

definition diff_matrix :: "'a list \<Rightarrow> 'a list \<Rightarrow> nat list list" where
  "diff_matrix oldLines nextLines =
     fill_rows oldLines nextLines
       (replicate (length oldLines + 1) (replicate (length nextLines + 1) 0)) (length oldLines)"

datatype 'a diff_line = Keep 'a | Del 'a | Add 'a

function diff_walk :: "nat list list \<Rightarrow> 'a list \<Rightarrow> 'a list \<Rightarrow> nat \<Rightarrow> nat \<Rightarrow> 'a diff_line list" where
  "diff_walk matrix oldLines nextLines i j =
     (if i < length oldLines \<and> j < length nextLines then
        (if oldLines ! i = nextLines ! j
         then Keep (oldLines ! i) # diff_walk matrix oldLines nextLines (i + 1) (j + 1)
         else if matrix ! (i + 1) ! j \<ge> matrix ! i ! (j + 1)
         then Del (oldLines ! i) # diff_walk matrix oldLines nextLines (i + 1) j
         else Add (nextLines ! j) # diff_walk matrix oldLines nextLines i (j + 1))
      else map Del (drop i oldLines) @ map Add (drop j nextLines))"
  by auto

termination
  by (relation "measure (\<lambda>(m, os, ns, i, j). (length os - i) + (length ns - j))") auto

declare diff_walk.simps [simp del]

fun show_diff_line :: "string diff_line \<Rightarrow> string" where
  "show_diff_line (Keep l) = ''  '' @ l"
| "show_diff_line (Del l) = ''- '' @ l"
| "show_diff_line (Add l) = ''+ '' @ l"

definition line_diff :: "'a list \<Rightarrow> 'a list \<Rightarrow> 'a diff_line list" where
  "line_diff oldLines nextLines =
     diff_walk (diff_matrix oldLines nextLines) oldLines nextLines 0 0"

definition buildLineDiff :: "string \<Rightarrow> string \<Rightarrow> string" where
  "buildLineDiff oldContent nextContent =
     join [LF] (map show_diff_line (line_diff (split_lines oldContent) (split_lines nextContent)))"

definition buildCreateDiff :: "string \<Rightarrow> string \<Rightarrow> string" where
  "buildCreateDiff oldContent nextContent =
     join [LF] (map (\<lambda>line. ''+ '' @ line) (split_lines nextContent))"

section \<open>The specification: longest common subsequences\<close>

fun lcs_len :: "'a list \<Rightarrow> 'a list \<Rightarrow> nat" where
  "lcs_len [] ys = 0"
| "lcs_len xs [] = 0"
| "lcs_len (x # xs) (y # ys) =
     (if x = y then lcs_len xs ys + 1 else max (lcs_len xs (y # ys)) (lcs_len (x # xs) ys))"

fun kept :: "'a diff_line list \<Rightarrow> 'a list" where
  "kept [] = []"
| "kept (Keep l # ds) = l # kept ds"
| "kept (Del l # ds) = kept ds"
| "kept (Add l # ds) = kept ds"

fun old_side :: "'a diff_line list \<Rightarrow> 'a list" where
  "old_side [] = []"
| "old_side (Keep l # ds) = l # old_side ds"
| "old_side (Del l # ds) = l # old_side ds"
| "old_side (Add l # ds) = old_side ds"

fun new_side :: "'a diff_line list \<Rightarrow> 'a list" where
  "new_side [] = []"
| "new_side (Keep l # ds) = l # new_side ds"
| "new_side (Del l # ds) = new_side ds"
| "new_side (Add l # ds) = l # new_side ds"

lemma lcs_len_Nil [simp]: "lcs_len xs [] = 0"
  by (cases xs) simp_all

lemma lcs_len_upper: "subseq zs xs \<Longrightarrow> subseq zs ys \<Longrightarrow> length zs \<le> lcs_len xs ys"
proof (induction xs ys arbitrary: zs rule: lcs_len.induct)
  case (3 x xs y ys)
  show ?case
  proof (cases zs)
    case (Cons z zs')
    show ?thesis
    proof (cases "x = y")
      case True
      show ?thesis
      proof (cases "z = x")
        case True
        then show ?thesis using 3 Cons \<open>x = y\<close> by simp
      next
        case False
        then have "subseq zs xs" "subseq zs ys" using 3 Cons \<open>x = y\<close> by simp_all
        then show ?thesis using 3(1) \<open>x = y\<close> by fastforce
      qed
    next
      case False
      show ?thesis
      proof (cases "z = x")
        case True
        then have "subseq zs ys" using 3(5) Cons False by simp
        then show ?thesis using 3(3) 3(4) False by (simp add: le_max_iff_disj)
      next
        case False
        then have "subseq zs xs" using 3(4) Cons by simp
        then show ?thesis using 3(2) 3(5) \<open>x \<noteq> y\<close> by (simp add: le_max_iff_disj)
      qed
    qed
  qed simp
qed simp_all

section \<open>The matrix is right\<close>

definition shape :: "nat \<Rightarrow> nat \<Rightarrow> nat list list \<Rightarrow> bool" where
  "shape n k m \<longleftrightarrow> length m = n + 1 \<and> (\<forall>r \<in> set m. length r = k + 1)"

definition row_ok :: "'a list \<Rightarrow> 'a list \<Rightarrow> nat list list \<Rightarrow> nat \<Rightarrow> nat \<Rightarrow> bool" where
  "row_ok os ns m i j \<longleftrightarrow>
     (\<forall>j'. j \<le> j' \<longrightarrow> j' \<le> length ns \<longrightarrow> m ! i ! j' = lcs_len (drop i os) (drop j' ns))"

lemma shape_update:
  "shape n k m \<Longrightarrow> i \<le> n \<Longrightarrow> shape n k (m[i := (m ! i)[j := v]])"
  by (auto simp: shape_def dest!: set_update_subset_insert [THEN subsetD])

lemma diff_cell_lcs:
  assumes "i < length os" "j < length ns"
    and "row_ok os ns m (i + 1) 0" "row_ok os ns m i (j + 1)"
  shows "diff_cell os ns m i j = lcs_len (drop i os) (drop j ns)"
proof -
  have "drop i os = os ! i # drop (Suc i) os" "drop j ns = ns ! j # drop (Suc j) ns"
    using assms(1,2) by (simp_all add: Cons_nth_drop_Suc)
  then show ?thesis using assms by (simp add: diff_cell_def row_ok_def)
qed

lemma fill_row_ok:
  assumes "shape (length os) (length ns) m" "i < length os" "j \<le> length ns"
    and "row_ok os ns m (i + 1) 0" "row_ok os ns m i j"
  shows "shape (length os) (length ns) (fill_row os ns m i j) \<and>
    row_ok os ns (fill_row os ns m i j) i 0 \<and>
    (\<forall>i'. i' \<noteq> i \<longrightarrow> fill_row os ns m i j ! i' = m ! i')"
  using assms
proof (induction j arbitrary: m)
  case (Suc j)
  let ?m = "m[i := (m ! i)[j := diff_cell os ns m i j]]"
  have len: "i < length m" "length (m ! i) = length ns + 1"
    using Suc.prems by (auto simp: shape_def)
  have "row_ok os ns ?m i j"
    using Suc.prems len diff_cell_lcs [of i os j ns m]
    by (auto simp: row_ok_def nth_list_update)
  moreover have "row_ok os ns ?m (i + 1) 0" using Suc.prems by (simp add: row_ok_def)
  moreover have "shape (length os) (length ns) ?m" using Suc.prems by (simp add: shape_update)
  ultimately show ?case using Suc.IH [of ?m] Suc.prems by simp
qed simp

lemma fill_rows_ok:
  assumes "shape (length os) (length ns) m" "i \<le> length os"
    and "\<And>i'. i \<le> i' \<Longrightarrow> i' \<le> length os \<Longrightarrow> row_ok os ns m i' 0"
    and "\<And>i'. i' < i \<Longrightarrow> row_ok os ns m i' (length ns)"
    and "i' \<le> length os"
  shows "row_ok os ns (fill_rows os ns m i) i' 0"
  using assms
proof (induction i arbitrary: m)
  case (Suc i)
  let ?m = "fill_row os ns m i (length ns)"
  have f: "shape (length os) (length ns) ?m" "row_ok os ns ?m i 0"
    "\<And>i'. i' \<noteq> i \<Longrightarrow> ?m ! i' = m ! i'"
    using fill_row_ok [of os ns m i "length ns"] Suc.prems by auto
  show ?case
    unfolding fill_rows.simps
  proof (rule Suc.IH [OF f(1)])
    show "row_ok os ns ?m k 0" if "i \<le> k" "k \<le> length os" for k
      using that f Suc.prems(3) [of k] by (cases "k = i") (auto simp: row_ok_def)
    show "row_ok os ns ?m k (length ns)" if "k < i" for k
      using that f(3) [of k] Suc.prems(4) [of k] by (simp add: row_ok_def)
  qed (use Suc.prems in auto)
qed simp

lemma diff_matrix_lcs:
  assumes "i \<le> length os" "j \<le> length ns"
  shows "diff_matrix os ns ! i ! j = lcs_len (drop i os) (drop j ns)"
proof -
  let ?m = "replicate (length os + 1) (replicate (length ns + 1) 0)"
  have "row_ok os ns (diff_matrix os ns) i 0"
    unfolding diff_matrix_def
    by (rule fill_rows_ok)
      (use assms in \<open>auto simp: shape_def row_ok_def nth_append simp del: replicate_Suc\<close>)
  then show ?thesis using assms by (simp add: row_ok_def)
qed

section \<open>The walk is right\<close>

lemma sides_append [simp]:
  "old_side (a @ b) = old_side a @ old_side b" "new_side (a @ b) = new_side a @ new_side b"
  "kept (a @ b) = kept a @ kept b"
  by (induction a rule: kept.induct) simp_all

lemma sides_map [simp]:
  "old_side (map Del xs) = xs" "old_side (map Add xs) = []"
  "new_side (map Del xs) = []" "new_side (map Add xs) = xs"
  "kept (map Del xs) = []" "kept (map Add xs) = []"
  by (induction xs) simp_all

lemma diff_walk_sides:
  "i \<le> length os \<Longrightarrow> j \<le> length ns \<Longrightarrow>
     old_side (diff_walk m os ns i j) = drop i os \<and> new_side (diff_walk m os ns i j) = drop j ns"
proof (induction m os ns i j rule: diff_walk.induct)
  case (1 m os ns i j)
  show ?case
  proof (cases "i < length os \<and> j < length ns")
    case True
    then have "drop i os = os ! i # drop (Suc i) os" "drop j ns = ns ! j # drop (Suc j) ns"
      by (simp_all add: Cons_nth_drop_Suc)
    then show ?thesis using 1 True by (subst (1 2) diff_walk.simps) auto
  next
    case False
    then show ?thesis using 1 by (subst (1 2) diff_walk.simps) auto
  qed
qed

lemma diff_walk_kept:
  "i \<le> length os \<Longrightarrow> j \<le> length ns \<Longrightarrow>
     length (kept (diff_walk (diff_matrix os ns) os ns i j)) = lcs_len (drop i os) (drop j ns)"
proof (induction "diff_matrix os ns" os ns i j rule: diff_walk.induct)
  case (1 os ns i j)
  show ?case
  proof (cases "i < length os \<and> j < length ns")
    case True
    then have "drop i os = os ! i # drop (Suc i) os" "drop j ns = ns ! j # drop (Suc j) ns"
      by (simp_all add: Cons_nth_drop_Suc)
    then show ?thesis using 1 True by (subst diff_walk.simps) (auto simp: diff_matrix_lcs max_def)
  next
    case False
    then have "drop i os = [] \<or> drop j ns = []" by auto
    then show ?thesis using False by (subst diff_walk.simps) auto
  qed
qed

lemma line_diff_ok:
  "old_side (line_diff os ns) = os" "new_side (line_diff os ns) = ns"
  "length (kept (line_diff os ns)) = lcs_len os ns"
  using diff_walk_sides [of 0 os 0 ns] diff_walk_kept [of 0 os 0 ns] by (simp_all add: line_diff_def)

section \<open>The text of a diff\<close>

lemma split_lines_not_Nil [simp]: "split_lines s \<noteq> []"
  by (cases s) (simp_all split: list.split del: starts_with_Cons)

lemma split_lines_no_LF: "l \<in> set (split_lines s) \<Longrightarrow> LF \<notin> set l"
proof (induction s arbitrary: l rule: split_lines.induct)
  case (2 c cs)
  consider "c = LF" | "c = CR" "starts_with [LF] cs" | "c \<noteq> LF" "\<not> (c = CR \<and> starts_with [LF] cs)"
    by blast
  then show ?case
  proof cases
    case 3
    obtain l0 ls where ls: "split_lines cs = l0 # ls"
      using split_lines_not_Nil by (meson list.exhaust)
    with 3 2(4) have "l = c # l0 \<or> l \<in> set ls" by (auto simp del: starts_with_Cons)
    then show ?thesis using 2(3) 3 ls by (auto simp del: starts_with_Cons)
  qed (use 2 in \<open>auto simp del: starts_with_Cons\<close>)
qed simp

fun diff_text :: "'a diff_line \<Rightarrow> 'a" where
  "diff_text (Keep l) = l"
| "diff_text (Del l) = l"
| "diff_text (Add l) = l"

lemma diff_text_sides: "d \<in> set ds \<Longrightarrow> diff_text d \<in> set (old_side ds) \<union> set (new_side ds)"
  by (induction ds rule: kept.induct) auto

interpretation diff_output: separated LF "\<lambda>l. LF \<notin> set l"
  by unfold_locales simp

lemma split_diff:
  "split_on LF (buildLineDiff a b) = map show_diff_line (line_diff (split_lines a) (split_lines b))"
proof -
  let ?ds = "line_diff (split_lines a) (split_lines b)"
  have "?ds \<noteq> []"
    using line_diff_ok(1) [of "split_lines a" "split_lines b"] split_lines_not_Nil [of a]
    by (metis old_side.simps(1))
  moreover have "LF \<notin> set (show_diff_line d)" if "d \<in> set ?ds" for d
    using diff_text_sides [OF that] split_lines_no_LF [of "diff_text d"]
    by (cases d) (auto simp: line_diff_ok)
  ultimately show ?thesis
    unfolding buildLineDiff_def by (intro diff_output.split_join) auto
qed

lemma shown_sides:
  "map (drop 2) (filter (\<lambda>l. \<not> starts_with ''+ '' l) (map show_diff_line ds)) = old_side ds"
  "map (drop 2) (filter (\<lambda>l. \<not> starts_with ''- '' l) (map show_diff_line ds)) = new_side ds"
  "map (drop 2) (filter (starts_with ''  '') (map show_diff_line ds)) = kept ds"
  by (induction ds rule: kept.induct) simp_all

text \<open>C30: the diff shown for approval is faithful and minimal. Read line by line, the lines without a
  plus sign are exactly the old lines, the lines without a minus sign exactly the new ones, and no
  common subsequence of the two files is longer than the lines shown as unchanged, so the diff
  marks as few lines as possible.\<close>

theorem line_diff_faithful_minimal:
  "map (drop 2) (filter (\<lambda>l. \<not> starts_with ''+ '' l) (split_on LF (buildLineDiff a b))) = split_lines a \<and>
   map (drop 2) (filter (\<lambda>l. \<not> starts_with ''- '' l) (split_on LF (buildLineDiff a b))) = split_lines b \<and>
   (\<forall>zs. subseq zs (split_lines a) \<longrightarrow> subseq zs (split_lines b) \<longrightarrow>
      length zs \<le> length (filter (starts_with ''  '') (split_on LF (buildLineDiff a b))))"
proof -
  let ?ds = "line_diff (split_lines a) (split_lines b)"
  have "length (filter (starts_with ''  '') (map show_diff_line ?ds)) = length (kept ?ds)"
    using arg_cong [OF shown_sides(3) [of ?ds], of length] by simp
  then show ?thesis
    using lcs_len_upper [of _ "split_lines a" "split_lines b"]
    unfolding split_diff shown_sides line_diff_ok by simp
qed

theorem line_diff_faithful_minimal_witness:
  "subseq [''x''] (split_lines (''x'' @ [CR, LF] @ ''y'')) \<and>
   1 \<le> length (filter (starts_with ''  '') (split_on LF (buildLineDiff (''x'' @ [CR, LF] @ ''y'') (''z'' @ [LF] @ ''x''))))"
proof -
  have "subseq [''x''] (split_lines (''x'' @ [CR, LF] @ ''y''))"
    "subseq [''x''] (split_lines (''z'' @ [LF] @ ''x''))" by simp_all
  then show ?thesis
    using line_diff_faithful_minimal [of "''x'' @ [CR, LF] @ ''y''" "''z'' @ [LF] @ ''x''"]
    by fastforce
qed

end
