(* ===== verification/Agent_Workspace.thy ===== *)
theory Agent_Workspace
  imports Effects Agent_Text Agent_Diff
begin

text \<open>
  The execution of tool calls on a workspace, from \<^verbatim>\<open>features/playground/lib/agent-tools.ts\<close>.

  Asynchronous operations that may throw are functions from an environment to a result (an error
  message or a value) and the next environment. The file system interface of the browser and the
  helper program behind HTTP are not part of the repository's dashboard: they are the fields of
  the record \<open>platform\<close>, an argument of every operation, over an arbitrary type of environments
  and of handles.
\<close>

section \<open>Operations that may throw\<close>

type_synonym ('e, 'a) io = "('e, string, 'a) effect"

section \<open>The platform\<close>

text \<open>A request to the file system interface of the helper, and its answer.\<close>

record fs_request =
  rq_op :: string
  rq_path :: string
  rq_content :: "string option"
  rq_query :: "string option"
  rq_start :: "int option"
  rq_end :: "int option"
  rq_max_bytes :: "int option"
  rq_max_results :: "int option"
  rq_edits :: "agent_batch_edit list option"
  rq_whole :: bool

record workspace_entry =
  we_name :: string
  we_path :: string
  we_directory :: bool

record fs_response =
  rs_ok :: bool
  rs_path :: string
  rs_output :: "string option"
  rs_summary :: "string option"
  rs_entries :: "workspace_entry list option"
  rs_error :: "string option"

record exec_request =
  ex_command :: string
  ex_cwd :: string
  ex_timeout_ms :: int

record exec_response =
  er_ok :: bool
  er_exit_code :: int
  er_stdout :: string
  er_stderr :: string
  er_duration_ms :: nat
  er_error :: "string option"

text \<open>The directory and file handles of the browser (the flag is \<open>create\<close>), the entries of a
  directory (\<open>None\<close> when they cannot be listed; the flag marks directories), the size and the
  text of a file (all of it, or its first bytes), writing and appending, the HTTP interface of the
  helper (\<open>Inl\<close> is a status that is not ok) with the token sent along or handed out, and the stored
  token.\<close>

record ('e, 'h) platform =
  fs_getDirectoryHandle :: "'h \<Rightarrow> string \<Rightarrow> bool \<Rightarrow> ('e, 'h) io"
  fs_getFileHandle :: "'h \<Rightarrow> string \<Rightarrow> bool \<Rightarrow> ('e, 'h) io"
  fs_entries :: "'h \<Rightarrow> ('e, (string \<times> bool \<times> 'h) list option) io"
  fs_size :: "'h \<Rightarrow> ('e, nat) io"
  fs_text :: "'h \<Rightarrow> nat option \<Rightarrow> ('e, string) io"
  fs_write :: "'h \<Rightarrow> string \<Rightarrow> ('e, unit) io"
  fs_append :: "'h \<Rightarrow> nat \<Rightarrow> string \<Rightarrow> ('e, unit) io"
  http_fs :: "string \<Rightarrow> fs_request \<Rightarrow> ('e, nat + fs_response) io"
  http_exec :: "string \<Rightarrow> exec_request \<Rightarrow> ('e, nat + exec_response) io"
  http_pair :: "string \<Rightarrow> ('e, nat + string option) io"
  get_token :: "('e, string) io"
  set_token :: "string \<Rightarrow> ('e, unit) io"

record agent_helper_status =
  hs_workspace :: string
  hs_paired :: bool
  hs_pairing_required :: bool

record 'h agent_tool_runtime =
  rt_root :: "'h option"
  rt_helper :: "agent_helper_status option"

definition MAX_READ_BYTES :: int where
  "MAX_READ_BYTES = 1024 * 1024"

definition MAX_SEARCH_FILES :: nat where
  "MAX_SEARCH_FILES = 300"

definition MAX_SEARCH_RESULTS :: int where
  "MAX_SEARCH_RESULTS = 50"

definition SEARCH_READ_BYTES :: nat where
  "SEARCH_READ_BYTES = 512 * 1024"

definition isAgentHelperPaired :: "agent_helper_status option \<Rightarrow> bool" where
  "isAgentHelperPaired status =
     (case status of None \<Rightarrow> False | Some st \<Rightarrow> \<not> hs_pairing_required st \<or> hs_paired st)"

text \<open>\<open>value?.trim() || fallback\<close> and \<open>n || fallback\<close>.\<close>

definition trim_or :: "string option \<Rightarrow> string \<Rightarrow> string" where
  "trim_or v d = (case v of None \<Rightarrow> d | Some s \<Rightarrow> if trim s = [] then d else trim s)"

definition text_or :: "string option \<Rightarrow> string \<Rightarrow> string" where
  "text_or v d = (case v of None \<Rightarrow> d | Some s \<Rightarrow> if s = [] then d else s)"

definition num_or :: "int option \<Rightarrow> int \<Rightarrow> int" where
  "num_or v d = (case v of None \<Rightarrow> d | Some n \<Rightarrow> if n = 0 then d else n)"

section \<open>The helper\<close>

text \<open>Both requests drop the stored token when the helper answers 401. The text after the colon of
  the message \<open>command_required\<close> is left out.\<close>

definition runLocalCommand :: "('e, 'h) platform \<Rightarrow> agent_tool_call \<Rightarrow> ('e, agent_tool_result) io" where
  "runLocalCommand p call =
     (let command = trim_or (tc_command call) []; cwd = trim_or (tc_cwd call) ''.'' in
      if command = [] then throw ''command_required''
      else and_then (get_token p) (\<lambda>token.
        and_then (http_exec p token
            \<lparr>ex_command = command, ex_cwd = cwd, ex_timeout_ms = num_or (tc_timeoutMs call) 120000\<rparr>)
          (\<lambda>response. case response of
             Inl status \<Rightarrow>
               (if status = 401
                then and_then (set_token p []) (\<lambda>_. throw ''helper_not_paired'')
                else throw (''helper_http_'' @ show_nat status))
           | Inr result \<Rightarrow>
               (let output = trim (join [LF, LF] (filter (\<lambda>s. s \<noteq> [])
                      [if er_stdout result = [] then [] else ''stdout:'' @ [LF] @ er_stdout result,
                       if er_stderr result = [] then [] else ''stderr:'' @ [LF] @ er_stderr result]));
                    exit = ''exit '' @ show_int (er_exit_code result)
                in ret \<lparr>tr_id = tc_id call, tr_tool = tc_tool call, tr_path = cwd, tr_ok = er_ok result,
                     tr_summary = Some (exit @ '', '' @ show_nat (er_duration_ms result) @ ''ms''),
                     tr_output = Some (if output = [] then ''(no output)'' else output),
                     tr_diff = None,
                     tr_error = (if er_ok result then None else Some (text_or (er_error result) exit))\<rparr>))))"

definition helperFSRequest :: "('e, 'h) platform \<Rightarrow> fs_request \<Rightarrow> ('e, fs_response) io" where
  "helperFSRequest p body =
     and_then (get_token p) (\<lambda>token.
       and_then (http_fs p token body) (\<lambda>response. case response of
           Inl status \<Rightarrow>
             (if status = 401 then and_then (set_token p []) (\<lambda>_. throw ''helper_not_paired'')
              else throw (''helper_fs_http_'' @ show_nat status))
         | Inr r \<Rightarrow> ret r))"

definition plain_request :: "string \<Rightarrow> string \<Rightarrow> fs_request" where
  "plain_request op path =
     \<lparr>rq_op = op, rq_path = path, rq_content = None, rq_query = None, rq_start = None, rq_end = None,
       rq_max_bytes = None, rq_max_results = None, rq_edits = None, rq_whole = False\<rparr>"

definition executeHelperToolCall ::
  "('e, 'h) platform \<Rightarrow> agent_tool_call \<Rightarrow> ('e, agent_tool_result) io" where
  "executeHelperToolCall p call =
     (if tc_tool call = ''run_command'' then runLocalCommand p call
      else let path = trim_or (tc_path call) ''.'' in
        and_then (helperFSRequest p
            \<lparr>rq_op = tc_tool call, rq_path = path, rq_content = Some (text_or (tc_content call) []),
              rq_query = Some (text_or (tc_query call) []), rq_start = tc_start call, rq_end = tc_end call,
              rq_max_bytes = tc_maxBytes call, rq_max_results = tc_maxResults call,
              rq_edits = tc_edits call, rq_whole = False\<rparr>)
          (\<lambda>response. ret \<lparr>tr_id = tc_id call, tr_tool = tc_tool call, tr_path = path,
             tr_ok = rs_ok response, tr_summary = rs_summary response, tr_output = rs_output response,
             tr_diff = None,
             tr_error = (if rs_ok response then None
                         else Some (text_or (rs_error response) ''helper_fs_failed''))\<rparr>))"

definition listHelperWorkspaceEntries ::
  "('e, 'h) platform \<Rightarrow> string \<Rightarrow> ('e, workspace_entry list) io" where
  "listHelperWorkspaceEntries p path =
     and_then (helperFSRequest p (plain_request ''list_dir'' (if path = [] then ''.'' else path)))
       (\<lambda>response. if \<not> rs_ok response then throw (text_or (rs_error response) ''helper_list_failed'')
          else ret (case rs_entries response of None \<Rightarrow> [] | Some es \<Rightarrow> es))"

definition revealHelperWorkspacePath :: "('e, 'h) platform \<Rightarrow> string \<Rightarrow> ('e, unit) io" where
  "revealHelperWorkspacePath p path =
     and_then (helperFSRequest p (plain_request ''reveal_path'' (if path = [] then ''.'' else path)))
       (\<lambda>response. if \<not> rs_ok response then throw (text_or (rs_error response) ''helper_reveal_failed'')
          else ret ())"

section \<open>Handles\<close>

definition getDirectoryHandle ::
  "('e, 'h) platform \<Rightarrow> 'h \<Rightarrow> string \<Rightarrow> bool \<Rightarrow> ('e, 'h) io" where
  "getDirectoryHandle p root path create =
     and_then (lift_result (normalizePath path)) (\<lambda>parts.
       fold_io (\<lambda>current part. fs_getDirectoryHandle p current part create) root parts)"

definition getParentDirectoryAndName ::
  "('e, 'h) platform \<Rightarrow> 'h \<Rightarrow> string \<Rightarrow> bool \<Rightarrow> ('e, 'h \<times> string) io" where
  "getParentDirectoryAndName p root path createParent =
     and_then (lift_result (normalizePath path)) (\<lambda>parts.
       if parts = [] then throw ''file_path_required''
       else and_then
         (fold_io (\<lambda>dir part. fs_getDirectoryHandle p dir part createParent) root (butlast parts))
         (\<lambda>dir. ret (dir, last parts)))"

text \<open>\<open>Array.prototype.sort\<close> without comparator orders strings by their code units.\<close>

fun string_lt :: "string \<Rightarrow> string \<Rightarrow> bool" where
  "string_lt _ [] = False"
| "string_lt [] (_ # _) = True"
| "string_lt (c # cs) (d # ds) =
     ((of_char c :: nat) < of_char d \<or> c = d \<and> string_lt cs ds)"

definition listDir :: "('e, 'h) platform \<Rightarrow> 'h \<Rightarrow> string \<Rightarrow> ('e, string) io" where
  "listDir p root path =
     and_then (getDirectoryHandle p root path False) (\<lambda>dir.
       and_then (fs_entries p dir) (\<lambda>es. case es of
           None \<Rightarrow> throw ''directory_iteration_unavailable''
         | Some entries \<Rightarrow>
             ret (text_or (Some (join [LF] (js_sort string_lt
               (map (\<lambda>(name, isDir, _). (if isDir then ''dir '' else ''file'') @ [CHR 0x09] @ name) entries))))
               ''(empty directory)'')))"

definition path_join :: "string \<Rightarrow> string \<Rightarrow> string" where
  "path_join base name = join ''/'' (filter (\<lambda>s. s \<noteq> []) [base, name])"

text \<open>Directories come first; names are compared by the argument \<open>locale_lt\<close>.\<close>

definition entry_lt :: "(string \<Rightarrow> string \<Rightarrow> bool) \<Rightarrow> workspace_entry \<Rightarrow> workspace_entry \<Rightarrow> bool" where
  "entry_lt locale_lt a b =
     (if we_directory a \<noteq> we_directory b then we_directory a else locale_lt (we_name a) (we_name b))"

definition listWorkspaceEntries ::
  "(string \<Rightarrow> string \<Rightarrow> bool) \<Rightarrow> ('e, 'h) platform \<Rightarrow> 'h \<Rightarrow> string \<Rightarrow> ('e, workspace_entry list) io" where
  "listWorkspaceEntries locale_lt p root path =
     (let path' = (if path = [] then ''.'' else path) in
      and_then (getDirectoryHandle p root path' False) (\<lambda>dir.
        and_then (fs_entries p dir) (\<lambda>es. case es of
            None \<Rightarrow> throw ''directory_iteration_unavailable''
          | Some entries \<Rightarrow>
              and_then (lift_result (normalizePath path')) (\<lambda>parts.
                ret (js_sort (entry_lt locale_lt)
                  (map (\<lambda>(name, isDir, _). \<lparr>we_name = name, we_path = path_join (join ''/'' parts) name,
                     we_directory = isDir\<rparr>) entries))))))"

section \<open>Reading\<close>

definition number_lines :: "int \<Rightarrow> string list \<Rightarrow> string list" where
  "number_lines start lines = map (\<lambda>(i, line). show_int (start + int i) @ '': '' @ line) (enumerate 0 lines)"

text \<open>The numbered lines from \<open>start\<close> to \<open>end\<close> and the note about truncation, for a text that was
  cut to \<open>readLimit\<close> of \<open>fileSize\<close> bytes.\<close>

definition select_lines ::
  "int option \<Rightarrow> int option \<Rightarrow> int \<Rightarrow> nat \<Rightarrow> string \<Rightarrow> string" where
  "select_lines optStart optEnd readLimit fileSize text =
     (let lines = split_lines text;
          start = max 1 (num_or optStart 1);
          end = max start (min (num_or optEnd (start + 99)) (int (length lines)));
          selected = join [LF] (number_lines start (take (nat (end - (start - 1))) (drop (nat (start - 1)) lines)))
      in if int fileSize > readLimit
         then selected @ [LF, LF] @ ''[truncated: '' @ show_int readLimit @ ''/'' @ show_nat fileSize @ '' bytes]''
         else if end < int (length lines)
         then selected @ [LF, LF] @ ''[truncated: '' @ show_int end @ ''/'' @ show_nat (length lines) @ '' lines]''
         else selected)"

definition readFile ::
  "('e, 'h) platform \<Rightarrow> 'h \<Rightarrow> string \<Rightarrow> int option \<Rightarrow> int option \<Rightarrow> int option \<Rightarrow> ('e, string) io" where
  "readFile p root path maxBytes optStart optEnd =
     and_then (getParentDirectoryAndName p root path False) (\<lambda>(dir, name).
       and_then (fs_getFileHandle p dir name False) (\<lambda>fileHandle.
         and_then (fs_size p fileHandle) (\<lambda>fileSize.
           let readLimit = max 1 (min (num_or maxBytes MAX_READ_BYTES) MAX_READ_BYTES) in
           and_then (fs_text p fileHandle (if int fileSize > readLimit then Some (nat readLimit) else None))
             (\<lambda>text. ret (select_lines optStart optEnd readLimit fileSize text)))))"

definition readWholeFile :: "('e, 'h) platform \<Rightarrow> 'h \<Rightarrow> string \<Rightarrow> ('e, string) io" where
  "readWholeFile p root path =
     and_then (getParentDirectoryAndName p root path False) (\<lambda>(dir, name).
       and_then (fs_getFileHandle p dir name False) (\<lambda>fileHandle.
         and_then (fs_size p fileHandle) (\<lambda>fileSize.
           if int fileSize > MAX_READ_BYTES then throw ''file_too_large_for_batch_edit''
           else fs_text p fileHandle None)))"

definition SEARCHABLE_EXTENSIONS :: "string list" where
  "SEARCHABLE_EXTENSIONS =
     [''txt'', ''md'', ''markdown'', ''json'', ''jsonl'', ''csv'', ''tsv'', ''yaml'', ''yml'', ''xml'', ''htm'',
      ''html'', ''css'', ''scss'', ''js'', ''jsx'', ''ts'', ''tsx'', ''py'', ''go'', ''java'', ''c'', ''cpp'', ''h'',
      ''hpp'', ''rs'', ''sh'', ''sql'', ''log'', ''toml'', ''ini'', ''env'']"

definition isSearchableFile :: "string \<Rightarrow> bool" where
  "isSearchableFile name \<longleftrightarrow>
     (\<exists>ext \<in> set SEARCHABLE_EXTENSIONS. ends_with (''.'' @ ext) (toLowerCase name))"

text \<open>The walk carries the matches and the number of scanned files; the fuel bounds the depth of
  the directories, and a deeper tree is reported as an error.\<close>

type_synonym search_state = "string list \<times> nat"

definition match_lines :: "string \<Rightarrow> string \<Rightarrow> int \<Rightarrow> string list \<Rightarrow> string list \<Rightarrow> string list" where
  "match_lines query filePath maxResults results lines =
     foldl (\<lambda>rs (i, line).
       if int (length rs) \<ge> maxResults then rs
       else if str_includes (toLowerCase line) (toLowerCase query)
       then rs @ [filePath @ '':'' @ show_nat (i + 1) @ '': '' @ trim line] else rs)
     results (enumerate 0 lines)"

definition search_file ::
  "('e, 'h) platform \<Rightarrow> string \<Rightarrow> int \<Rightarrow> string \<Rightarrow> string \<Rightarrow> 'h \<Rightarrow> search_state \<Rightarrow> ('e, search_state) io" where
  "search_file p query maxResults filePath name h acc =
     (case acc of (results, scanned) \<Rightarrow>
        and_then (fs_size p h) (\<lambda>fileSize.
          if int (length results) \<ge> maxResults \<or> scanned \<ge> MAX_SEARCH_FILES then ret acc
          else if fileSize > SEARCH_READ_BYTES \<or> \<not> isSearchableFile name then ret (results, scanned + 1)
          else and_then (fs_text p h None) (\<lambda>text.
            ret (match_lines query filePath maxResults results (split_lines text), scanned + 1))))"

fun walkDirectory ::
  "('e, 'h) platform \<Rightarrow> (string \<Rightarrow> string \<Rightarrow> 'h \<Rightarrow> 'b \<Rightarrow> ('e, 'b) io) \<Rightarrow> nat \<Rightarrow> 'h \<Rightarrow> string \<Rightarrow> 'b \<Rightarrow>
   ('e, 'b) io" where
  "walkDirectory p onFile 0 dir basePath acc = throw ''directory_depth_exceeded''"
| "walkDirectory p onFile (Suc fuel) dir basePath acc =
     and_then (fs_entries p dir) (\<lambda>es. case es of
         None \<Rightarrow> throw ''directory_iteration_unavailable''
       | Some entries \<Rightarrow>
           fold_io (\<lambda>acc (name, isDir, h).
             if isDir then walkDirectory p onFile fuel h (path_join basePath name) acc
             else onFile (path_join basePath name) name h acc) acc entries)"

definition searchFiles ::
  "nat \<Rightarrow> ('e, 'h) platform \<Rightarrow> 'h \<Rightarrow> string \<Rightarrow> string \<Rightarrow> int option \<Rightarrow> ('e, string \<times> string) io" where
  "searchFiles fuel p root path query optMax =
     (if trim query = [] then throw ''search_query_required''
      else and_then (getDirectoryHandle p root path False) (\<lambda>baseDir.
        let maxResults = max 1 (min (num_or optMax 20) MAX_SEARCH_RESULTS) in
        and_then (lift_result (normalizePath path)) (\<lambda>parts.
          and_then (walkDirectory p (search_file p query maxResults) fuel baseDir (join ''/'' parts) ([], 0))
            (\<lambda>(results, scanned).
              ret (text_or (Some (join [LF] results)) ''no matches'',
                   show_nat (length results) @ '' matches in '' @ show_nat scanned @ '' scanned files'')))))"

section \<open>Writing\<close>

definition writeFile :: "('e, 'h) platform \<Rightarrow> 'h \<Rightarrow> string \<Rightarrow> string \<Rightarrow> ('e, unit) io" where
  "writeFile p root path content =
     and_then (getParentDirectoryAndName p root path True) (\<lambda>(dir, name).
       and_then (fs_getFileHandle p dir name True) (\<lambda>fileHandle. fs_write p fileHandle content))"

definition appendFile :: "('e, 'h) platform \<Rightarrow> 'h \<Rightarrow> string \<Rightarrow> string \<Rightarrow> ('e, unit) io" where
  "appendFile p root path content =
     and_then (getParentDirectoryAndName p root path True) (\<lambda>(dir, name).
       and_then (fs_getFileHandle p dir name True) (\<lambda>fileHandle.
         and_then (fs_size p fileHandle) (\<lambda>fileSize. fs_append p fileHandle fileSize content)))"

definition applyBatchEditsPreview :: "string \<Rightarrow> agent_batch_edit list \<Rightarrow> string" where
  "applyBatchEditsPreview content edits =
     foldl (\<lambda>next edit. if be_find edit = [] then next
                else js_replace (be_find edit) (be_replace edit) next) content edits"

text \<open>The loop of \<open>batchEditFile\<close>: the content and the log.\<close>

definition apply_edit :: "string \<times> string list \<Rightarrow> nat \<times> agent_batch_edit \<Rightarrow> string \<times> string list" where
  "apply_edit st ie =
     (case (st, ie) of ((content, applied), (index, edit)) \<Rightarrow>
        if be_find edit = [] then (content, applied)
        else if \<not> str_includes content (be_find edit)
        then (content, applied @ [''#'' @ show_nat (index + 1) @ '': not found''])
        else (js_replace (be_find edit) (be_replace edit) content,
              applied @ [''#'' @ show_nat (index + 1) @ '': applied'']))"

definition batchEditFile ::
  "('e, 'h) platform \<Rightarrow> 'h \<Rightarrow> string \<Rightarrow> agent_batch_edit list \<Rightarrow> ('e, string \<times> string) io" where
  "batchEditFile p root path edits =
     (if edits = [] then throw ''batch_edit_requires_edits''
      else and_then (readWholeFile p root path) (\<lambda>content.
        case foldl apply_edit (content, []) (enumerate 0 edits) of (content', applied) \<Rightarrow>
          and_then (writeFile p root path content') (\<lambda>_.
            ret (join [LF] applied,
                 show_nat (length (filter (\<lambda>item. str_includes item ''applied'') applied)) @ ''/'' @
                 show_nat (length edits) @ '' edits applied''))))"

section \<open>Tool calls\<close>

definition pairAgentHelper :: "('e, 'h) platform \<Rightarrow> string \<Rightarrow> ('e, unit) io" where
  "pairAgentHelper p code =
     and_then (http_pair p code) (\<lambda>response. case response of
         Inl status \<Rightarrow> throw (''helper_pair_http_'' @ show_nat status)
       | Inr token \<Rightarrow>
           (case token of
              None \<Rightarrow> throw ''helper_pair_token_missing''
            | Some t \<Rightarrow> if t = [] then throw ''helper_pair_token_missing'' else set_token p t))"

definition call_path :: "agent_tool_call \<Rightarrow> string" where
  "call_path call =
     (if tc_tool call = ''run_command'' then trim_or (tc_cwd call) ''.'' else trim_or (tc_path call) ''.'')"

definition tool_result ::
  "agent_tool_call \<Rightarrow> string option \<Rightarrow> string option \<Rightarrow> agent_tool_result" where
  "tool_result call output summary =
     \<lparr>tr_id = tc_id call, tr_tool = tc_tool call, tr_path = call_path call, tr_ok = True,
       tr_summary = summary, tr_output = output, tr_diff = None, tr_error = None\<rparr>"

definition truthy_int :: "int option \<Rightarrow> bool" where
  "truthy_int v \<longleftrightarrow> v \<noteq> None \<and> v \<noteq> Some 0"

definition read_summary :: "agent_tool_call \<Rightarrow> string" where
  "read_summary call =
     (if truthy_int (tc_start call) \<or> truthy_int (tc_end call)
      then ''lines '' @ show_int (num_or (tc_start call) 1) @ ''-'' @
        show_int (num_or (tc_end call) (num_or (tc_start call) 100))
      else ''first 100 lines read'')"

definition execute_in_browser ::
  "nat \<Rightarrow> ('e, 'h) platform \<Rightarrow> 'h \<Rightarrow> agent_tool_call \<Rightarrow> ('e, agent_tool_result) io" where
  "execute_in_browser fuel p root call =
     (let path = call_path call; content = text_or (tc_content call) [] in
      if tc_tool call = ''list_dir'' then
        and_then (listDir p root path) (\<lambda>out. ret (tool_result call (Some out) None))
      else if tc_tool call = ''read_file'' then
        and_then (readFile p root path (tc_maxBytes call) (tc_start call) (tc_end call))
          (\<lambda>out. ret (tool_result call (Some out) (Some (read_summary call))))
      else if tc_tool call = ''search_files'' then
        and_then (searchFiles fuel p root path (text_or (tc_query call) []) (tc_maxResults call))
          (\<lambda>(out, summary). ret (tool_result call (Some out) (Some summary)))
      else if tc_tool call = ''write_file'' then
        and_then (writeFile p root path content)
          (\<lambda>_. ret (tool_result call (Some ''written'') (Some (show_nat (length content) @ '' chars written''))))
      else if tc_tool call = ''append_file'' then
        and_then (appendFile p root path content)
          (\<lambda>_. ret (tool_result call (Some ''appended'') (Some (show_nat (length content) @ '' chars appended''))))
      else if tc_tool call = ''batch_edit'' then
        and_then (batchEditFile p root path (case tc_edits call of None \<Rightarrow> [] | Some es \<Rightarrow> es))
          (\<lambda>(out, summary). ret (tool_result call (Some out) (Some summary)))
      else if tc_tool call = ''create_dir'' then
        and_then (getDirectoryHandle p root path True)
          (\<lambda>_. ret (tool_result call (Some ''created'') (Some ''directory created'')))
      else if tc_tool call = ''run_command'' then runLocalCommand p call
      else throw ''unsupported_tool'')"

definition executeAgentToolCall ::
  "nat \<Rightarrow> ('e, 'h) platform \<Rightarrow> 'h agent_tool_runtime \<Rightarrow> agent_tool_call \<Rightarrow> ('e, agent_tool_result) io" where
  "executeAgentToolCall fuel p runtime call =
     catch
       (if isAgentHelperPaired (rt_helper runtime) then executeHelperToolCall p call
        else case rt_root runtime of
            None \<Rightarrow> throw ''workspace_required''
          | Some root \<Rightarrow> execute_in_browser fuel p root call)
       (\<lambda>msg. ret \<lparr>tr_id = tc_id call, tr_tool = tc_tool call, tr_path = call_path call, tr_ok = False,
          tr_summary = None, tr_output = None, tr_diff = None, tr_error = Some msg\<rparr>)"

text \<open>The results of a list of calls, in order.\<close>

fun map_io :: "('a \<Rightarrow> ('e, 'b) io) \<Rightarrow> 'a list \<Rightarrow> ('e, 'b list) io" where
  "map_io f [] = ret []"
| "map_io f (x # xs) = and_then (f x) (\<lambda>y. and_then (map_io f xs) (\<lambda>ys. ret (y # ys)))"

definition executeAgentToolCalls ::
  "nat \<Rightarrow> ('e, 'h) platform \<Rightarrow> 'h agent_tool_runtime \<Rightarrow> agent_tool_call list \<Rightarrow>
   ('e, agent_tool_result list) io" where
  "executeAgentToolCalls fuel p runtime calls =
     map_io (executeAgentToolCall fuel p runtime) (take MAX_TOOL_CALLS calls)"

section \<open>Review before approval\<close>

definition readWholeFileFromRuntime ::
  "('e, 'h) platform \<Rightarrow> 'h agent_tool_runtime \<Rightarrow> string \<Rightarrow> ('e, string) io" where
  "readWholeFileFromRuntime p runtime path =
     (if isAgentHelperPaired (rt_helper runtime)
      then and_then (helperFSRequest p ((plain_request ''read_file'' path)
               \<lparr>rq_whole := True, rq_max_bytes := Some MAX_READ_BYTES\<rparr>))
        (\<lambda>response. if \<not> rs_ok response then throw (text_or (rs_error response) ''helper_read_failed'')
           else ret (text_or (rs_output response) []))
      else case rt_root runtime of
          None \<Rightarrow> throw ''workspace_required''
        | Some root \<Rightarrow> readWholeFile p root path)"

definition readWholeFileIfExists ::
  "('e, 'h) platform \<Rightarrow> 'h agent_tool_runtime \<Rightarrow> string \<Rightarrow> ('e, string) io" where
  "readWholeFileIfExists p runtime path =
     catch (readWholeFileFromRuntime p runtime path) (\<lambda>_. ret [])"

definition describeWriteIntent :: "agent_tool_call \<Rightarrow> string" where
  "describeWriteIntent call =
     (if tc_tool call = ''write_file'' then ''overwrite file''
      else if tc_tool call = ''append_file'' then ''append content''
      else if tc_tool call = ''batch_edit''
      then show_nat (case tc_edits call of None \<Rightarrow> 0 | Some es \<Rightarrow> length es) @ '' edits''
      else if tc_tool call = ''create_dir'' then ''create directory''
      else if tc_tool call = ''run_command'' then ''run command: '' @ text_or (tc_command call) []
      else ''ready to run'')"

definition buildToolDiff ::
  "('e, 'h) platform \<Rightarrow> 'h agent_tool_runtime \<Rightarrow> agent_tool_call \<Rightarrow> ('e, string) io" where
  "buildToolDiff p runtime call =
     (let path = trim_or (tc_path call) ''.''; content = text_or (tc_content call) [] in
      if tc_tool call = ''run_command'' then
        ret (''$ cd '' @ trim_or (tc_cwd call) ''.'' @ [LF] @ ''$ '' @ text_or (tc_command call) [])
      else if tc_tool call = ''create_dir'' then ret (''+ directory '' @ path)
      else if tc_tool call = ''append_file'' then
        and_then (readWholeFileIfExists p runtime path) (\<lambda>old. ret (buildLineDiff old (old @ content)))
      else if tc_tool call = ''write_file'' then
        and_then (readWholeFileIfExists p runtime path) (\<lambda>old. ret (buildLineDiff old content))
      else if tc_tool call = ''batch_edit'' then
        and_then (readWholeFileFromRuntime p runtime path) (\<lambda>old.
          ret (buildLineDiff old
            (applyBatchEditsPreview old (case tc_edits call of None \<Rightarrow> [] | Some es \<Rightarrow> es))))
      else ret [])"

text \<open>One entry of the review. The entries are built concurrently by the code; they only read.\<close>

definition review_result ::
  "('e, 'h) platform \<Rightarrow> 'h agent_tool_runtime \<Rightarrow> agent_tool_call \<Rightarrow> ('e, agent_tool_result) io" where
  "review_result p runtime call =
     (let base = \<lparr>tr_id = tc_id call, tr_tool = tc_tool call, tr_path = call_path call, tr_ok = False,
            tr_summary = Some (describeWriteIntent call), tr_output = None, tr_diff = None,
            tr_error = None\<rparr> in
      if \<not> requiresAgentToolApproval call
      then ret (base\<lparr>tr_ok := True, tr_summary := Some ''ready to run''\<rparr>)
      else catch
        (and_then (buildToolDiff p runtime call) (\<lambda>d. ret (base\<lparr>tr_diff := Some d\<rparr>)))
        (\<lambda>msg. ret (base\<lparr>tr_diff := Some (buildCreateDiff [] (text_or (tc_content call) [])),
                       tr_error := Some msg\<rparr>)))"

definition buildAgentToolReviewResults ::
  "('e, 'h) platform \<Rightarrow> 'h agent_tool_runtime \<Rightarrow> agent_tool_call list \<Rightarrow> ('e, agent_tool_result list) io" where
  "buildAgentToolReviewResults p runtime calls =
     map_io (review_result p runtime) (take MAX_TOOL_CALLS calls)"

section \<open>What an operation leaves alone\<close>

text \<open>\<open>keeps ws m\<close>: running \<open>m\<close> does not change the part \<open>ws\<close> of the environment. \<open>yields m P\<close>:
  every value \<open>m\<close> returns satisfies \<open>P\<close>.\<close>

definition keeps :: "('e \<Rightarrow> 'w) \<Rightarrow> ('e, 'a) io \<Rightarrow> bool" where
  "keeps ws m \<longleftrightarrow> (\<forall>e. ws (snd (m e)) = ws e)"

definition yields :: "('e, 'a) io \<Rightarrow> ('a \<Rightarrow> bool) \<Rightarrow> bool" where
  "yields m P \<longleftrightarrow> (\<forall>e x. fst (m e) = Inr x \<longrightarrow> P x)"

named_theorems io_rules \<open>operations that keep a part of the environment\<close>

lemma keeps_ret [io_rules]: "keeps ws (ret x)"
  by (simp add: keeps_def ret_def)

lemma keeps_throw [io_rules]: "keeps ws (throw msg)"
  by (simp add: keeps_def throw_def)

lemma keeps_lift [io_rules]: "keeps ws (lift_result r)"
  by (cases r) (simp_all add: lift_result_def io_rules)

lemma keeps_and_then_yields:
  assumes "keeps ws m" "yields m P" "\<And>x. P x \<Longrightarrow> keeps ws (f x)"
  shows "keeps ws (and_then m f)"
  unfolding keeps_def
proof
  fix e
  obtain r e' where m: "m e = (r, e')" by fastforce
  then have "ws e' = ws e" using assms(1) by (metis keeps_def snd_conv)
  moreover have "P x" if "r = Inr x" for x using assms(2) m that by (metis yields_def fst_conv)
  ultimately show "ws (snd (and_then m f e)) = ws e"
    using assms(3) m by (cases r) (simp_all add: and_then_def keeps_def)
qed

lemma yields_True: "yields m (\<lambda>_. True)"
  by (simp add: yields_def)

lemma keeps_and_then [io_rules]:
  "keeps ws m \<Longrightarrow> (\<And>x. keeps ws (f x)) \<Longrightarrow> keeps ws (and_then m f)"
  using keeps_and_then_yields [OF _ yields_True] by metis

lemma keeps_catch [io_rules]:
  assumes "keeps ws m" "\<And>msg. keeps ws (h msg)"
  shows "keeps ws (catch m h)"
  unfolding keeps_def
proof
  fix e
  obtain r e' where m: "m e = (r, e')" by fastforce
  then have "ws e' = ws e" using assms(1) by (metis keeps_def snd_conv)
  then show "ws (snd (catch m h e)) = ws e"
    using assms(2) m by (cases r) (simp_all add: catch_def keeps_def)
qed

lemma keeps_fold [io_rules]:
  "(\<And>acc x. x \<in> set xs \<Longrightarrow> keeps ws (f acc x)) \<Longrightarrow> keeps ws (fold_io f acc xs)"
  by (induction xs arbitrary: acc) (auto intro: io_rules)

lemma keeps_map [io_rules]:
  "(\<And>x. x \<in> set xs \<Longrightarrow> keeps ws (f x)) \<Longrightarrow> keeps ws (map_io f xs)"
  by (induction xs) (auto intro!: io_rules)

text \<open>What is documented of the reading half of the platform: looking up handles without creating
  them, listing, measuring and reading files, the token, and the read-only operations of the
  helper do not change the workspace \<open>ws\<close>.\<close>

definition reads_keep :: "('e, 'h) platform \<Rightarrow> ('e \<Rightarrow> 'w) \<Rightarrow> bool" where
  "reads_keep p ws \<longleftrightarrow>
     (\<forall>h n. keeps ws (fs_getDirectoryHandle p h n False)) \<and>
     (\<forall>h n. keeps ws (fs_getFileHandle p h n False)) \<and>
     (\<forall>h. keeps ws (fs_entries p h)) \<and> (\<forall>h. keeps ws (fs_size p h)) \<and>
     (\<forall>h k. keeps ws (fs_text p h k)) \<and>
     keeps ws (get_token p) \<and> (\<forall>t. keeps ws (set_token p t)) \<and>
     (\<forall>t rq. rq_op rq \<in> {''list_dir'', ''read_file'', ''search_files''} \<longrightarrow> keeps ws (http_fs p t rq))"

lemma keeps_if: "(b \<Longrightarrow> keeps ws m) \<Longrightarrow> (\<not> b \<Longrightarrow> keeps ws m') \<Longrightarrow> keeps ws (if b then m else m')"
  by simp

lemma keeps_option [io_rules]:
  "(x = None \<Longrightarrow> keeps ws m) \<Longrightarrow> (\<And>y. x = Some y \<Longrightarrow> keeps ws (f y)) \<Longrightarrow> keeps ws (case_option m f x)"
  by (cases x) auto

lemma keeps_sum [io_rules]:
  "(\<And>y. keeps ws (f y)) \<Longrightarrow> (\<And>y. keeps ws (g y)) \<Longrightarrow> keeps ws (case_sum f g x)"
  by (cases x) auto

lemma keeps_prod [io_rules]: "(\<And>a b. keeps ws (f a b)) \<Longrightarrow> keeps ws (case_prod f x)"
  by (cases x) auto

lemma keeps_let [io_rules]: "keeps ws (f x) \<Longrightarrow> keeps ws (Let x f)"
  by simp

lemmas io_auto = io_rules keeps_if

lemma read_dir:
  assumes "reads_keep p ws"
  shows "keeps ws (getDirectoryHandle p root path False)"
    and "keeps ws (getParentDirectoryAndName p root path False)"
  unfolding getDirectoryHandle_def getParentDirectoryAndName_def
  using assms by (auto simp: reads_keep_def intro!: io_auto)

lemma read_helper:
  assumes "reads_keep p ws" "rq_op rq \<in> {''list_dir'', ''read_file'', ''search_files''}"
  shows "keeps ws (helperFSRequest p rq)"
  unfolding helperFSRequest_def
  using assms by (auto simp: reads_keep_def intro!: io_auto)

lemma read_search:
  assumes "reads_keep p ws"
  shows "keeps ws (walkDirectory p (search_file p query mx) fuel dir base acc)"
proof (induction fuel arbitrary: dir base acc)
  case 0
  show ?case by (simp add: io_rules)
next
  case (Suc fuel)
  have "keeps ws (search_file p query mx path name h acc)" for path name h acc
    unfolding search_file_def using assms by (auto simp: reads_keep_def intro!: io_auto)
  then show ?case using assms Suc by (auto simp: reads_keep_def intro!: io_auto)
qed

lemma read_tools:
  assumes "reads_keep p ws"
  shows "keeps ws (listDir p root path)" "keeps ws (readFile p root path mb st en)"
    "keeps ws (searchFiles fuel p root path query mx)" "keeps ws (readWholeFile p root path)"
  unfolding listDir_def readFile_def searchFiles_def readWholeFile_def
  using assms read_dir [OF assms] read_search [OF assms]
  by (auto simp: reads_keep_def intro!: io_auto)

lemma read_runtime:
  assumes "reads_keep p ws"
  shows "keeps ws (readWholeFileFromRuntime p rt path)" "keeps ws (readWholeFileIfExists p rt path)"
  unfolding readWholeFileFromRuntime_def readWholeFileIfExists_def
  using read_tools(4) [OF assms] read_helper [OF assms]
  by (auto simp: plain_request_def intro!: io_auto)

lemma review_reads:
  assumes "reads_keep p ws"
  shows "keeps ws (buildAgentToolReviewResults p rt calls)"
  unfolding buildAgentToolReviewResults_def review_result_def buildToolDiff_def
  using read_runtime [OF assms] by (intro io_auto) auto

lemma read_only_call:
  assumes "reads_keep p ws" "tc_tool call \<in> set SUPPORTED_TOOLS" "\<not> requiresAgentToolApproval call"
  shows "keeps ws (executeAgentToolCall fuel p rt call)"
proof -
  have tool: "tc_tool call \<in> {''list_dir'', ''read_file'', ''search_files''}"
    using assms(2,3) by (auto simp: SUPPORTED_TOOLS_def requiresAgentToolApproval_def)
  then have h: "keeps ws (executeHelperToolCall p call)"
    unfolding executeHelperToolCall_def
    using read_helper [OF assms(1)] by (auto intro!: io_auto)
  have "keeps ws (execute_in_browser fuel p root call)" for root
    using tool read_tools [OF assms(1)]
    by (auto simp: execute_in_browser_def Let_def intro!: io_auto)
  then show ?thesis
    unfolding executeAgentToolCall_def using h by (intro io_auto)
qed

section \<open>A file store behind the handles\<close>

text \<open>What is documented of the file system interface, over an abstraction of the environment to a
  map \<open>files\<close> from paths to texts, the path \<open>resolve h\<close> of a handle and the number \<open>bytes s\<close> of
  bytes of a text. A handle obtained by name is one step below; creating a file leaves other files
  alone and keeps the text of an existing file; writing replaces the text of that file only, and
  writing at its end appends to it. Operations that fail may have changed only the file they are
  about.\<close>

definition store_laws ::
  "('e, 'h) platform \<Rightarrow> ('h \<Rightarrow> string list) \<Rightarrow> (string \<Rightarrow> nat) \<Rightarrow> ('e \<Rightarrow> string list \<Rightarrow> string option) \<Rightarrow>
   bool" where
  "store_laws p resolve bytes files \<longleftrightarrow>
     (\<forall>h n c. keeps files (fs_getDirectoryHandle p h n c) \<and>
        yields (fs_getDirectoryHandle p h n c) (\<lambda>h'. resolve h' = resolve h @ [n])) \<and>
     (\<forall>h n. keeps files (fs_getFileHandle p h n False)) \<and>
     (\<forall>h n c. yields (fs_getFileHandle p h n c) (\<lambda>h'. resolve h' = resolve h @ [n])) \<and>
     (\<forall>h n e q. q \<noteq> resolve h @ [n] \<longrightarrow> files (snd (fs_getFileHandle p h n True e)) q = files e q) \<and>
     (\<forall>h n e h'. fst (fs_getFileHandle p h n True e) = Inr h' \<longrightarrow>
        files (snd (fs_getFileHandle p h n True e)) (resolve h') =
          Some (case files e (resolve h') of None \<Rightarrow> [] | Some s \<Rightarrow> s)) \<and>
     (\<forall>h. keeps files (fs_entries p h) \<and> keeps files (fs_size p h)) \<and>
     (\<forall>h e n. fst (fs_size p h e) = Inr n \<longrightarrow> (\<exists>s. files e (resolve h) = Some s \<and> n = bytes s)) \<and>
     (\<forall>h k. keeps files (fs_text p h k)) \<and>
     (\<forall>h e s. fst (fs_text p h None e) = Inr s \<longrightarrow> files e (resolve h) = Some s) \<and>
     (\<forall>h c e q. q \<noteq> resolve h \<longrightarrow> files (snd (fs_write p h c e)) q = files e q) \<and>
     (\<forall>h c e. fst (fs_write p h c e) = Inr () \<longrightarrow> files (snd (fs_write p h c e)) (resolve h) = Some c) \<and>
     (\<forall>h k c e q. q \<noteq> resolve h \<longrightarrow> files (snd (fs_append p h k c e)) q = files e q) \<and>
     (\<forall>h c e s. files e (resolve h) = Some s \<longrightarrow> fst (fs_append p h (bytes s) c e) = Inr () \<longrightarrow>
        files (snd (fs_append p h (bytes s) c e)) (resolve h) = Some (s @ c))"

text \<open>The files other than the one at a given path.\<close>

definition others :: "string list \<Rightarrow> ('e \<Rightarrow> string list \<Rightarrow> string option) \<Rightarrow> 'e \<Rightarrow> string list \<Rightarrow> string option" where
  "others parts files e q = (if q = parts then None else files e q)"

lemma keeps_others: "keeps files m \<Longrightarrow> keeps (others parts files) m"
  by (auto simp: keeps_def others_def)

lemma yields_ret: "P x \<Longrightarrow> yields (ret x) P"
  by (simp add: yields_def ret_def)

lemma yields_throw: "yields (throw msg) P"
  by (simp add: yields_def throw_def)

lemma yields_and_then:
  assumes "yields m P" "\<And>x. P x \<Longrightarrow> yields (f x) Q"
  shows "yields (and_then m f) Q"
  unfolding yields_def
proof (intro allI impI)
  fix e y assume y: "fst (and_then m f e) = Inr y"
  obtain r e' where m: "m e = (r, e')" by fastforce
  then obtain x where x: "r = Inr x" "fst (f x e') = Inr y"
    using y by (cases r) (auto simp: and_then_def)
  then have "P x" using assms(1) m by (metis yields_def fst_conv)
  then show "Q y" using assms(2) x(2) by (metis yields_def)
qed

lemma yields_fold:
  assumes "\<And>h x. yields (f h x) (\<lambda>h'. resolve h' = resolve h @ [x])"
  shows "yields (fold_io f root parts) (\<lambda>h. resolve h = resolve root @ parts)"
proof (induction parts arbitrary: root)
  case Nil
  show ?case by (simp add: yields_ret)
next
  case (Cons x xs)
  show ?case
    unfolding fold_io.simps
    by (rule yields_and_then [OF assms]) (metis Cons.IH append.assoc append_Cons append_Nil)
qed

lemma yields_lift: "yields (lift_result r) (\<lambda>x. r = Inr x)"
  by (cases r) (simp_all add: lift_result_def yields_throw yields_ret)

lemma parent_yields:
  assumes "store_laws p resolve bytes files" "resolve root = []"
  shows "yields (getParentDirectoryAndName p root path c)
    (\<lambda>(dir, name). normalizePath path = Inr (resolve dir @ [name]))"
  unfolding getParentDirectoryAndName_def
proof (rule yields_and_then [OF yields_lift])
  fix parts assume n: "normalizePath path = Inr parts"
  show "yields (if parts = [] then throw ''file_path_required''
      else and_then (fold_io (\<lambda>dir part. fs_getDirectoryHandle p dir part c) root (butlast parts))
        (\<lambda>dir. ret (dir, last parts)))
      (\<lambda>(dir, name). normalizePath path = Inr (resolve dir @ [name]))"
  proof (cases "parts = []")
    case False
    have "yields (fold_io (\<lambda>dir part. fs_getDirectoryHandle p dir part c) root (butlast parts))
        (\<lambda>h. resolve h = resolve root @ butlast parts)"
      by (rule yields_fold) (use assms(1) in \<open>simp add: store_laws_def\<close>)
    then have "yields (and_then (fold_io (\<lambda>dir part. fs_getDirectoryHandle p dir part c) root (butlast parts))
        (\<lambda>dir. ret (dir, last parts))) (\<lambda>(dir, name). normalizePath path = Inr (resolve dir @ [name]))"
      by (rule yields_and_then) (use assms(2) n False in \<open>auto intro!: yields_ret\<close>)
    then show ?thesis using False by simp
  qed (simp add: yields_throw)
qed

lemma parent_keeps:
  "store_laws p resolve bytes files \<Longrightarrow> keeps files (getParentDirectoryAndName p root path c)"
  unfolding getParentDirectoryAndName_def store_laws_def by (auto intro!: io_auto)

lemma create_keeps:
  "store_laws p resolve bytes files \<Longrightarrow> resolve dir @ [name] = parts \<Longrightarrow>
     keeps (others parts files) (fs_getFileHandle p dir name True)"
  by (auto simp: store_laws_def keeps_def others_def fun_eq_iff)

text \<open>Everything that needs a file below the root keeps the other files when its continuation on
  the handle of that file does.\<close>

lemma with_file_keeps:
  assumes "store_laws p resolve bytes files" "resolve root = []"
    and "\<And>h parts. normalizePath path = Inr parts \<Longrightarrow> resolve h = parts \<Longrightarrow> keeps (others parts files) (k h)"
  shows "keeps (case normalizePath path of Inl e \<Rightarrow> files | Inr parts \<Rightarrow> others parts files)
    (and_then (getParentDirectoryAndName p root path True) (\<lambda>(dir, name).
       and_then (fs_getFileHandle p dir name True) k))"
proof (cases "normalizePath path")
  case (Inl e)
  then have "and_then (getParentDirectoryAndName p root path True) f = throw e" for f :: "_ \<Rightarrow> (_, 'c) io"
    by (rule_tac ext) (simp add: getParentDirectoryAndName_def and_then_def lift_result_def throw_def)
  then show ?thesis using Inl by (simp add: io_rules)
next
  case (Inr parts)
  have "keeps (others parts files)
      (and_then (getParentDirectoryAndName p root path True) (\<lambda>(dir, name).
         and_then (fs_getFileHandle p dir name True) k))"
  proof (rule keeps_and_then_yields [OF keeps_others [OF parent_keeps [OF assms(1)]]
        parent_yields [OF assms(1,2)]])
    fix x assume x: "case x of (dir, name) \<Rightarrow> normalizePath path = Inr (resolve dir @ [name])"
    obtain dir name where dn: "x = (dir, name)" by fastforce
    then have parts: "resolve dir @ [name] = parts" using x Inr by simp
    have "yields (fs_getFileHandle p dir name True) (\<lambda>h. resolve h = parts)"
      using assms(1) parts by (auto simp: store_laws_def)
    then have "keeps (others parts files) (and_then (fs_getFileHandle p dir name True) k)"
      by (rule keeps_and_then_yields [OF create_keeps [OF assms(1) parts]])
        (use assms(3) [OF Inr] in auto)
    then show "keeps (others parts files)
        (case x of (dir, name) \<Rightarrow> and_then (fs_getFileHandle p dir name True) k)"
      by (simp add: dn)
  qed
  then show ?thesis using Inr by simp
qed

lemma write_keeps:
  assumes "store_laws p resolve bytes files" "resolve root = []"
  shows "keeps (case normalizePath path of Inl e \<Rightarrow> files | Inr parts \<Rightarrow> others parts files)
      (writeFile p root path content)"
    and "keeps (case normalizePath path of Inl e \<Rightarrow> files | Inr parts \<Rightarrow> others parts files)
      (appendFile p root path content)"
proof -
  have w: "keeps (others parts files) (fs_write p h content)" if "resolve h = parts" for h parts
    using assms(1) that by (auto simp: store_laws_def keeps_def others_def fun_eq_iff)
  show "keeps (case normalizePath path of Inl e \<Rightarrow> files | Inr parts \<Rightarrow> others parts files)
      (writeFile p root path content)"
    unfolding writeFile_def by (rule with_file_keeps [OF assms]) (use w in auto)
  have a: "keeps (others parts files) (fs_append p h k content)" if "resolve h = parts" for h k parts
    using assms(1) that by (auto simp: store_laws_def keeps_def others_def fun_eq_iff)
  have "keeps (others parts files) (fs_size p h)" for h parts
    using assms(1) by (auto simp: store_laws_def intro: keeps_others)
  then have "keeps (others parts files) (and_then (fs_size p h) (\<lambda>n. fs_append p h n content))"
    if "resolve h = parts" for h parts
    by (intro keeps_and_then a that)
  then show "keeps (case normalizePath path of Inl e \<Rightarrow> files | Inr parts \<Rightarrow> others parts files)
      (appendFile p root path content)"
    unfolding appendFile_def by (intro with_file_keeps [OF assms]) auto
qed

lemma store_reads:
  assumes "store_laws p resolve bytes files"
  shows "keeps files (getDirectoryHandle p root path c)" "keeps files (readWholeFile p root path)"
    "keeps files (listDir p root path)" "keeps files (readFile p root path mb st en)"
    "keeps files (searchFiles fuel p root path query mx)"
proof -
  have laws: "keeps files (fs_getDirectoryHandle p h n c)" "keeps files (fs_getFileHandle p h n False)"
    "keeps files (fs_entries p h)" "keeps files (fs_size p h)" "keeps files (fs_text p h k)" for h n c k
    using assms by (simp_all add: store_laws_def)
  show d: "keeps files (getDirectoryHandle p root path c)" for root path c
    unfolding getDirectoryHandle_def by (intro io_auto laws)
  show "keeps files (readWholeFile p root path)" "keeps files (readFile p root path mb st en)"
    unfolding readWholeFile_def readFile_def by (intro io_auto laws parent_keeps [OF assms])+
  show "keeps files (listDir p root path)"
    unfolding listDir_def by (intro io_auto laws d)
  have "keeps files (walkDirectory p (search_file p query m) fuel dir base acc)" for m dir base acc
  proof (induction fuel arbitrary: dir base acc)
    case (Suc fuel)
    show ?case unfolding walkDirectory.simps search_file_def
      by (intro io_auto laws Suc [unfolded search_file_def])
  qed (simp add: io_rules)
  then show "keeps files (searchFiles fuel p root path query mx)"
    unfolding searchFiles_def by (intro io_auto laws d)
qed


section \<open>What is shown is what is written\<close>

lemma and_then_Inr:
  "and_then m f e = (Inr y, e') \<longleftrightarrow> (\<exists>x e1. m e = (Inr x, e1) \<and> f x e1 = (Inr y, e'))"
  by (auto simp: and_then_def split: prod.splits sum.splits)

lemma yieldsD: "yields m P \<Longrightarrow> m e = (Inr x, e') \<Longrightarrow> P x"
  by (metis yields_def fst_conv)

lemma keepsD: "keeps ws m \<Longrightarrow> m e = (r, e') \<Longrightarrow> ws e' = ws e"
  by (metis keeps_def snd_conv)

text \<open>The laws of the store on concrete runs.\<close>

lemma store_lawsD:
  assumes "store_laws p resolve bytes files"
  shows "fs_getFileHandle p h n True e = (Inr h', e') \<Longrightarrow>
      files e' (resolve h') = Some (case files e (resolve h') of None \<Rightarrow> [] | Some s \<Rightarrow> s)"
    and "fs_size p h e = (Inr k, e') \<Longrightarrow> \<exists>s. files e (resolve h) = Some s \<and> k = bytes s"
    and "fs_text p h None e = (Inr s, e') \<Longrightarrow> files e (resolve h) = Some s"
    and "fs_write p h c e = (Inr (), e') \<Longrightarrow> files e' (resolve h) = Some c"
    and "files e (resolve h) = Some s \<Longrightarrow> fs_append p h (bytes s) c e = (Inr (), e') \<Longrightarrow>
      files e' (resolve h) = Some (s @ c)"
proof -
  have l: "\<forall>h n e h'. fst (fs_getFileHandle p h n True e) = Inr h' \<longrightarrow>
        files (snd (fs_getFileHandle p h n True e)) (resolve h') =
          Some (case files e (resolve h') of None \<Rightarrow> [] | Some s \<Rightarrow> s)"
    "\<forall>h e n. fst (fs_size p h e) = Inr n \<longrightarrow> (\<exists>s. files e (resolve h) = Some s \<and> n = bytes s)"
    "\<forall>h e s. fst (fs_text p h None e) = Inr s \<longrightarrow> files e (resolve h) = Some s"
    "\<forall>h c e. fst (fs_write p h c e) = Inr () \<longrightarrow> files (snd (fs_write p h c e)) (resolve h) = Some c"
    "\<forall>h c e s. files e (resolve h) = Some s \<longrightarrow> fst (fs_append p h (bytes s) c e) = Inr () \<longrightarrow>
        files (snd (fs_append p h (bytes s) c e)) (resolve h) = Some (s @ c)"
    using assms by (simp_all add: store_laws_def)
  show "fs_getFileHandle p h n True e = (Inr h', e') \<Longrightarrow>
      files e' (resolve h') = Some (case files e (resolve h') of None \<Rightarrow> [] | Some s \<Rightarrow> s)"
    using l(1) [rule_format, of h n e h'] by simp
  show "fs_size p h e = (Inr k, e') \<Longrightarrow> \<exists>s. files e (resolve h) = Some s \<and> k = bytes s"
    using l(2) [rule_format, of h e k] by simp
  show "fs_text p h None e = (Inr s, e') \<Longrightarrow> files e (resolve h) = Some s"
    using l(3) [rule_format, of h e s] by simp
  show "fs_write p h c e = (Inr (), e') \<Longrightarrow> files e' (resolve h) = Some c"
    using l(4) [rule_format, of h c e] by simp
  show "files e (resolve h) = Some s \<Longrightarrow> fs_append p h (bytes s) c e = (Inr (), e') \<Longrightarrow>
      files e' (resolve h) = Some (s @ c)"
    using l(5) [rule_format, of e h s c] by simp
qed

text \<open>A successful lookup of a file below the root, with and without creating it.\<close>

lemma file_lookup:
  assumes "store_laws p resolve bytes files" "resolve root = []"
    and "getParentDirectoryAndName p root path c e = (Inr (dir, name), e1)"
    and "fs_getFileHandle p dir name c e1 = (Inr h, e2)"
  shows "normalizePath path = Inr (resolve h) \<and>
    (if c then files e2 (resolve h) = Some (case files e (resolve h) of None \<Rightarrow> [] | Some s \<Rightarrow> s)
     else files e2 = files e)"
proof -
  have n: "normalizePath path = Inr (resolve dir @ [name])"
    using yieldsD [OF parent_yields [OF assms(1,2)] assms(3)] by simp
  have f1: "files e1 = files e" using keepsD [OF parent_keeps [OF assms(1)] assms(3)] .
  have "yields (fs_getFileHandle p dir name c) (\<lambda>h'. resolve h' = resolve dir @ [name])"
    using assms(1) by (simp add: store_laws_def)
  then have h: "resolve h = resolve dir @ [name]" using assms(4) by (rule yieldsD)
  show ?thesis
  proof (cases c)
    case True
    have "files e2 (resolve h) = Some (case files e1 (resolve h) of None \<Rightarrow> [] | Some s \<Rightarrow> s)"
      using store_lawsD(1) [OF assms(1)] assms(4) True by simp
    then show ?thesis using n h f1 True by simp
  next
    case False
    have "keeps files (fs_getFileHandle p dir name False)" using assms(1) by (simp add: store_laws_def)
    then have "files e2 = files e1" by (rule keepsD) (use assms(4) False in simp)
    then show ?thesis using n h f1 False by simp
  qed
qed

lemma writeFile_effect:
  assumes "store_laws p resolve bytes files" "resolve root = []" "writeFile p root path c e = (Inr u, e')"
  shows "\<exists>parts. normalizePath path = Inr parts \<and> files e' parts = Some c"
proof -
  obtain dir name e1 h e2 where s: "getParentDirectoryAndName p root path True e = (Inr (dir, name), e1)"
    "fs_getFileHandle p dir name True e1 = (Inr h, e2)" "fs_write p h c e2 = (Inr (), e')"
    using assms(3) by (auto simp: writeFile_def and_then_Inr)
  have "files e' (resolve h) = Some c" using store_lawsD(4) [OF assms(1) s(3)] .
  then show ?thesis using file_lookup [OF assms(1,2) s(1,2)] by blast
qed

lemma appendFile_effect:
  assumes "store_laws p resolve bytes files" "resolve root = []" "appendFile p root path c e = (Inr u, e')"
  shows "\<exists>parts. normalizePath path = Inr parts \<and>
    files e' parts = Some ((case files e parts of None \<Rightarrow> [] | Some s \<Rightarrow> s) @ c)"
proof -
  obtain dir name e1 h e2 n e3 where s: "getParentDirectoryAndName p root path True e = (Inr (dir, name), e1)"
    "fs_getFileHandle p dir name True e1 = (Inr h, e2)" "fs_size p h e2 = (Inr n, e3)"
    "fs_append p h n c e3 = (Inr (), e')"
    using assms(3) by (auto simp: appendFile_def and_then_Inr)
  let ?old = "case files e (resolve h) of None \<Rightarrow> [] | Some s \<Rightarrow> s"
  have l: "normalizePath path = Inr (resolve h)" "files e2 (resolve h) = Some ?old"
    using file_lookup [OF assms(1,2) s(1,2)] by simp_all
  have k: "keeps files (fs_size p h)" using assms(1) by (simp add: store_laws_def)
  have "n = bytes ?old" using store_lawsD(2) [OF assms(1) s(3)] l(2) by auto
  moreover have "files e3 (resolve h) = Some ?old" using keepsD [OF k s(3)] l(2) by simp
  ultimately have "files e' (resolve h) = Some (?old @ c)"
    using store_lawsD(5) [OF assms(1), of e3 h ?old c e'] s(4) by simp
  then show ?thesis using l(1) by blast
qed

lemma readWholeFile_content:
  assumes "store_laws p resolve bytes files" "resolve root = []" "readWholeFile p root path e = (Inr s, e')"
  shows "\<exists>parts. normalizePath path = Inr parts \<and> files e parts = Some s"
proof -
  obtain dir name e1 h e2 n e3 where st: "getParentDirectoryAndName p root path False e = (Inr (dir, name), e1)"
    "fs_getFileHandle p dir name False e1 = (Inr h, e2)" "fs_size p h e2 = (Inr n, e3)"
    "fs_text p h None e3 = (Inr s, e')"
    using assms(3) by (auto simp: readWholeFile_def and_then_Inr throw_def split: if_splits)
  have l: "normalizePath path = Inr (resolve h)" "files e2 = files e"
    using file_lookup [OF assms(1,2) st(1,2)] by simp_all
  have k: "keeps files (fs_size p h)" using assms(1) by (simp add: store_laws_def)
  have "files e3 = files e" using keepsD [OF k st(3)] l(2) by simp
  moreover have "files e3 (resolve h) = Some s" using store_lawsD(3) [OF assms(1) st(4)] .
  ultimately show ?thesis using l(1) by auto
qed

lemma js_replace_absent: "\<not> str_includes s f \<Longrightarrow> js_replace f r s = s"
  by (simp add: js_replace_def str_includes_def)

lemma apply_edits_preview:
  "fst (foldl apply_edit (content, applied) (enumerate n edits)) = applyBatchEditsPreview content edits"
proof (induction edits arbitrary: content applied n)
  case (Cons edit edits)
  show ?case
    using Cons by (auto simp: apply_edit_def applyBatchEditsPreview_def js_replace_absent)
qed (simp add: applyBatchEditsPreview_def)

lemma batchEditFile_effect:
  assumes "store_laws p resolve bytes files" "resolve root = []" "batchEditFile p root path edits e = (Inr x, e')"
  shows "\<exists>parts old. normalizePath path = Inr parts \<and> files e parts = Some old \<and>
    files e' parts = Some (applyBatchEditsPreview old edits)"
proof -
  obtain old e1 where s: "readWholeFile p root path e = (Inr old, e1)"
    and k: "(case foldl apply_edit (old, []) (enumerate 0 edits) of (content', applied) \<Rightarrow>
          and_then (writeFile p root path content') (\<lambda>_.
            ret (join [LF] applied,
                 show_nat (length (filter (\<lambda>item. str_includes item ''applied'') applied)) @ ''/'' @
                 show_nat (length edits) @ '' edits applied''))) e1 = (Inr x, e')"
    using assms(3) by (auto simp: batchEditFile_def and_then_Inr throw_def split: if_splits)
  obtain content applied where f: "foldl apply_edit (old, []) (enumerate 0 edits) = (content, applied)"
    by fastforce
  have "content = applyBatchEditsPreview old edits"
    using apply_edits_preview [of old "[]" 0 edits] f by simp
  moreover have "writeFile p root path content e1 = (Inr (), e')"
    using k f by (auto simp: and_then_Inr ret_def)
  ultimately show ?thesis
    using readWholeFile_content [OF assms(1,2) s] writeFile_effect [OF assms(1,2)] by fastforce
qed


section \<open>Results and permissions\<close>

lemma yields_if: "(b \<Longrightarrow> yields m P) \<Longrightarrow> (\<not> b \<Longrightarrow> yields m' P) \<Longrightarrow> yields (if b then m else m') P"
  by simp

lemma yields_then: "(\<And>x. yields (f x) P) \<Longrightarrow> yields (and_then m f) P"
  by (rule yields_and_then [OF yields_True]) blast

lemma yields_sum: "(\<And>y. yields (f y) P) \<Longrightarrow> (\<And>y. yields (g y) P) \<Longrightarrow> yields (case_sum f g x) P"
  by (cases x) auto

lemma yields_prod: "(\<And>a b. yields (f a b) P) \<Longrightarrow> yields (case_prod f x) P"
  by (cases x) auto

lemma yields_let: "yields (f x) P \<Longrightarrow> yields (Let x f) P"
  by simp

lemmas yields_rules = yields_throw yields_if yields_then yields_sum yields_prod yields_let yields_ret

definition answers :: "agent_tool_call \<Rightarrow> agent_tool_result \<Rightarrow> bool" where
  "answers call r \<longleftrightarrow> tr_id r = tc_id call \<and> tr_tool r = tc_tool call"

lemma answers_tool_result: "answers call (tool_result call out summary)"
  by (simp add: answers_def tool_result_def)

lemma command_answers: "yields (runLocalCommand p call) (answers call)"
  unfolding runLocalCommand_def by (intro yields_rules) (simp add: answers_def)

lemma helper_answers: "yields (executeHelperToolCall p call) (answers call)"
  unfolding executeHelperToolCall_def
  by (intro yields_rules command_answers) (simp add: answers_def)

lemma browser_answers: "yields (execute_in_browser fuel p root call) (answers call)"
  unfolding execute_in_browser_def by (intro yields_rules command_answers answers_tool_result)

lemma call_answers: "\<exists>r e'. executeAgentToolCall fuel p runtime call e = (Inr r, e') \<and> answers call r"
proof -
  let ?m = "if isAgentHelperPaired (rt_helper runtime) then executeHelperToolCall p call
        else case rt_root runtime of None \<Rightarrow> throw ''workspace_required''
          | Some root \<Rightarrow> execute_in_browser fuel p root call"
  have y: "yields ?m (answers call)"
    by (auto intro!: helper_answers browser_answers yields_throw split: option.split)
  obtain x e' where m: "?m e = (x, e')" by fastforce
  show ?thesis
  proof (cases x)
    case (Inl msg)
    then show ?thesis using m by (simp add: executeAgentToolCall_def catch_def ret_def answers_def)
  next
    case (Inr r)
    then have "answers call r" using yieldsD [OF y] m by simp
    then show ?thesis using m Inr by (simp add: executeAgentToolCall_def catch_def)
  qed
qed

lemma map_io_total:
  assumes "\<And>x e. \<exists>y e'. f x e = (Inr y, e') \<and> P x y"
  shows "\<exists>ys e'. map_io f xs e = (Inr ys, e') \<and> list_all2 P xs ys"
proof (induction xs arbitrary: e)
  case Nil
  show ?case by (simp add: ret_def)
next
  case (Cons x xs)
  obtain y e1 where y: "f x e = (Inr y, e1)" "P x y" using assms by blast
  obtain ys e2 where "map_io f xs e1 = (Inr ys, e2)" "list_all2 P xs ys" using Cons by blast
  then show ?case using y by (simp add: and_then_def ret_def)
qed

lemma answers_map:
  "list_all2 answers calls rs \<Longrightarrow> map tr_id rs = map tc_id calls \<and> map tr_tool rs = map tc_tool calls"
  by (induction rule: list_all2_induct) (auto simp: answers_def)

lemma calls_total:
  "\<exists>results e'. executeAgentToolCalls fuel p runtime calls e = (Inr results, e') \<and>
     map tr_id results = map tc_id (take 30 calls) \<and> map tr_tool results = map tc_tool (take 30 calls)"
proof -
  obtain results e' where r: "executeAgentToolCalls fuel p runtime calls e = (Inr results, e')"
    "list_all2 answers (take 30 calls) results"
    using map_io_total [of "executeAgentToolCall fuel p runtime" answers "take 30 calls" e] call_answers
    unfolding executeAgentToolCalls_def MAX_TOOL_CALLS_def by metis
  with answers_map [OF r(2)] show ?thesis by blast
qed

text \<open>every call is answered. Executing the calls of an answer never throws, whatever the
  platform does: it gives one result for each of the first thirty calls, in order, with the id and
  the tool of the call.\<close>

theorem every_call_answered:
  "\<exists>results e'. executeAgentToolCalls fuel p runtime calls e = (Inr results, e') \<and>
     map tr_id results = map tc_id (take 30 calls) \<and> map tr_tool results = map tc_tool (take 30 calls)"
  by (rule calls_total)

lemma safe_calls_keep:
  assumes "reads_keep p ws"
    and "\<And>call. call \<in> set calls \<Longrightarrow> tc_tool call \<in> set SUPPORTED_TOOLS \<and> \<not> requiresAgentToolApproval call"
  shows "keeps ws (executeAgentToolCalls fuel p runtime calls)"
  unfolding executeAgentToolCalls_def
  by (intro keeps_map read_only_call [OF assms(1)]) (use assms(2) in_set_takeD in fast)+

text \<open>nothing is changed without approval. On a platform whose reading operations do not change
  the workspace, running calls that need no approval leaves the workspace as it is, through the
  browser or through the helper, and so does building the review that asks for approval.\<close>

theorem unapproved_keeps_workspace:
  assumes "reads_keep p ws"
    and "\<And>call. call \<in> set calls \<Longrightarrow> tc_tool call \<in> set SUPPORTED_TOOLS \<and> \<not> requiresAgentToolApproval call"
  shows "ws (snd (executeAgentToolCalls fuel p runtime calls e)) = ws e \<and>
    ws (snd (buildAgentToolReviewResults p runtime reviewed e)) = ws e"
  using safe_calls_keep [OF assms] review_reads [OF assms(1), of runtime reviewed] by (simp add: keeps_def)

section \<open>An instance of the platform\<close>

text \<open>Files in memory, every directory present, no helper: used to show that the laws can hold.\<close>

definition memory_platform :: "(string list \<Rightarrow> string option, string list) platform" where
  "memory_platform =
     \<lparr>fs_getDirectoryHandle = (\<lambda>h n c. ret (h @ [n])),
       fs_getFileHandle = (\<lambda>h n c e. case e (h @ [n]) of
           Some _ \<Rightarrow> (Inr (h @ [n]), e)
         | None \<Rightarrow> if c then (Inr (h @ [n]), e(h @ [n] \<mapsto> [])) else (Inl ''NotFoundError'', e)),
       fs_entries = (\<lambda>h. ret None),
       fs_size = (\<lambda>h e. case e h of None \<Rightarrow> (Inl ''NotFoundError'', e) | Some s \<Rightarrow> (Inr (length s), e)),
       fs_text = (\<lambda>h k e. case e h of
           None \<Rightarrow> (Inl ''NotFoundError'', e)
         | Some s \<Rightarrow> (Inr (case k of None \<Rightarrow> s | Some n \<Rightarrow> take n s), e)),
       fs_write = (\<lambda>h c e. (Inr (), e(h \<mapsto> c))),
       fs_append = (\<lambda>h n c e. (Inr (), e(h \<mapsto> (case e h of None \<Rightarrow> [] | Some s \<Rightarrow> take n s) @ c))),
       http_fs = (\<lambda>t rq. throw ''offline''), http_exec = (\<lambda>t rq. throw ''offline''),
       http_pair = (\<lambda>c. throw ''offline''), get_token = ret [], set_token = (\<lambda>t. ret ())\<rparr>"

lemma memory_store: "store_laws memory_platform (\<lambda>h. h) length (\<lambda>e. e)"
  by (auto simp: store_laws_def memory_platform_def keeps_def yields_def ret_def throw_def
      split: option.splits)

lemma memory_reads: "reads_keep memory_platform (\<lambda>e. e)"
  by (auto simp: reads_keep_def memory_platform_def keeps_def ret_def throw_def split: option.splits)

definition memory_runtime :: "string list agent_tool_runtime" where
  "memory_runtime = \<lparr>rt_root = Some [], rt_helper = None\<rparr>"

definition sample_call :: "string \<Rightarrow> string \<Rightarrow> string \<Rightarrow> agent_tool_call" where
  "sample_call tool path content =
     \<lparr>tc_id = None, tc_tool = tool, tc_path = Some path, tc_cwd = None, tc_command = None,
       tc_content = Some content, tc_query = None, tc_start = None, tc_end = None, tc_maxBytes = None,
       tc_maxResults = None, tc_timeoutMs = None, tc_edits = None\<rparr>"

lemma sample_path: "normalizePath (call_path (sample_call ''append_file'' ''d/f'' c)) = Inr [''d'', ''f'']"
  "normalizePath (call_path (sample_call ''read_file'' ''d/f'' c)) = Inr [''d'', ''f'']"
  by (simp_all add: sample_call_def call_path_def trim_or_def trim_def trim_by_def is_ws_def
      normalizePath_def forward_slashes_def replace_all_char_def)

lemmas sample_eval = memory_platform_def memory_runtime_def and_then_def ret_def throw_def catch_def
  lift_result_def getParentDirectoryAndName_def

text \<open>Appending to a file of the sample workspace.\<close>

lemma sample_append:
  "executeAgentToolCall fuel memory_platform memory_runtime (sample_call ''append_file'' ''d/f'' ''b'')
     [[''d'', ''f''] \<mapsto> ''a''] =
   (Inr (tool_result (sample_call ''append_file'' ''d/f'' ''b'') (Some ''appended'') (Some ''1 chars appended'')),
    [[''d'', ''f''] \<mapsto> ''ab''])"
proof -
  have t: "tc_tool (sample_call ''append_file'' ''d/f'' ''b'') = ''append_file''"
    "text_or (tc_content (sample_call ''append_file'' ''d/f'' ''b'')) [] = ''b''"
    by (simp_all add: sample_call_def text_or_def)
  have "show_nat (Suc 0) = ''1''" by (subst show_nat.simps) (simp add: digit_char_def char_of_def bit_0)
  moreover have "appendFile memory_platform [] (call_path (sample_call ''append_file'' ''d/f'' ''b'')) ''b''
      [[''d'', ''f''] \<mapsto> ''a''] = (Inr (), [[''d'', ''f''] \<mapsto> ''ab''])"
    by (simp add: appendFile_def sample_path sample_eval)
  ultimately show ?thesis
    by (simp add: executeAgentToolCall_def execute_in_browser_def t Let_def and_then_def ret_def catch_def
        memory_runtime_def isAgentHelperPaired_def)
qed



theorem unapproved_keeps_workspace_witness:
  "reads_keep memory_platform (\<lambda>e. e) \<and>
   snd (executeAgentToolCalls 9 memory_platform memory_runtime [sample_call ''read_file'' ''d/f'' ''x'']
     [[''d'', ''f''] \<mapsto> ''a'']) = [[''d'', ''f''] \<mapsto> ''a'']"
proof -
  have "tc_tool call \<in> set SUPPORTED_TOOLS \<and> \<not> requiresAgentToolApproval call"
    if "call \<in> set [sample_call ''read_file'' ''d/f'' ''x'']" for call
    using that by (simp add: sample_call_def SUPPORTED_TOOLS_def requiresAgentToolApproval_def)
  from unapproved_keeps_workspace [OF memory_reads this] memory_reads show ?thesis by blast
qed

text \<open>the replacement text of an edit is not taken literally. A dollar sign followed by a dollar
  sign, an ampersand, a back quote or a quote is expanded by \<open>replace\<close>, so an edit that should
  write two dollar signs writes one, and one that should write an ampersand after a dollar sign
  repeats the text it replaces. Without a dollar sign the first occurrence is replaced literally.\<close>

theorem batch_edit_dollar:
  "applyBatchEditsPreview ''cost X'' [\<lparr>be_find = ''X'', be_replace = ''$$5''\<rparr>] = ''cost $5'' \<and>
   applyBatchEditsPreview ''cost X'' [\<lparr>be_find = ''X'', be_replace = ''$&5''\<rparr>] = ''cost X5'' \<and>
   applyBatchEditsPreview ''cost X, X'' [\<lparr>be_find = ''X'', be_replace = ''5''\<rparr>] = ''cost 5, X''"
  by (simp add: applyBatchEditsPreview_def js_replace_def)

end
