(* ===== verification/Chat_Payload.thy ===== *)
theory Chat_Payload
  imports Chat_Messages
begin

text \<open>
  \<^verbatim>\<open>features/playground/lib/payload-builder.ts\<close>: the chat completion request built from the
  messages of a conversation and the configuration of the playground.
\<close>

definition isOpenAIReasoningModel :: "string \<Rightarrow> bool" where
  "isOpenAIReasoningModel model =
     (let normalized = toLowerCase (trim model) in
      if normalized = [] then False
      else starts_with ''gpt-'' normalized \<or> starts_with ''o1'' normalized \<or>
        starts_with ''o3'' normalized \<or> starts_with ''o4'' normalized \<or>
        starts_with ''codex'' normalized \<or> str_includes normalized ''-codex'' \<or>
        starts_with ''chatgpt'' normalized)"

definition shouldUseOpenAICompatibleMode :: "playground_config \<Rightarrow> bool" where
  "shouldUseOpenAICompatibleMode config \<longleftrightarrow> pc_openaiRequestMode config = Some CompatibleMode"

definition isOpenAIFastMode :: "playground_config \<Rightarrow> bool" where
  "isOpenAIFastMode config =
     (case pc_openaiRequestMode config of
        Some mode \<Rightarrow> mode = FastMode
      | None \<Rightarrow> pc_openaiFastMode config)"

text \<open>The options for OpenAI reasoning models; an empty cache key is falsy.\<close>

definition addOpenAIOptions ::
  "playground_config \<Rightarrow> string option \<Rightarrow> chat_completion_request \<Rightarrow> chat_completion_request" where
  "addOpenAIOptions config promptCacheKey payload =
     (if isOpenAIReasoningModel (pc_model config) \<and> \<not> shouldUseOpenAICompatibleMode config
      then payload
        \<lparr>cr_prompt_cache_key := (if promptCacheKey = Some [] then None else promptCacheKey),
          cr_reasoning_effort :=
            (if pc_openaiReasoningEffort config \<noteq> EffortNone
             then Some (pc_openaiReasoningEffort config) else None),
          cr_service_tier := (if isOpenAIFastMode config then Some ''fast'' else None)\<rparr>
      else payload)"

text \<open>The loop over \<open>parameterKeys\<close>: only \<open>seed\<close> can be null in a configuration.\<close>

definition addEnabledParameters ::
  "playground_config \<Rightarrow> parameter_enabled \<Rightarrow> chat_completion_request \<Rightarrow> chat_completion_request" where
  "addEnabledParameters config enabled payload =
     payload
       \<lparr>cr_temperature := (if pe_temperature enabled then Some (pc_temperature config) else None),
         cr_top_p := (if pe_top_p enabled then Some (pc_top_p config) else None),
         cr_max_tokens := (if pe_max_tokens enabled then Some (pc_max_tokens config) else None),
         cr_frequency_penalty :=
           (if pe_frequency_penalty enabled then Some (pc_frequency_penalty config) else None),
         cr_presence_penalty :=
           (if pe_presence_penalty enabled then Some (pc_presence_penalty config) else None),
         cr_seed := (if pe_seed enabled then pc_seed config else None)\<rparr>"

definition buildChatCompletionPayload ::
  "message list \<Rightarrow> playground_config \<Rightarrow> parameter_enabled \<Rightarrow> string option \<Rightarrow>
   chat_completion_request" where
  "buildChatCompletionPayload messages config enabled promptCacheKey =
     addEnabledParameters config enabled (addOpenAIOptions config promptCacheKey
       \<lparr>cr_model = pc_model config, cr_group = pc_group config,
         cr_messages = map formatMessageForAPI (filter isValidMessage messages),
         cr_stream = pc_stream config, cr_prompt_cache_key = None, cr_reasoning_effort = None,
         cr_service_tier = None, cr_temperature = None, cr_top_p = None, cr_max_tokens = None,
         cr_frequency_penalty = None, cr_presence_penalty = None, cr_seed = None\<rparr>)"

section \<open>What a request contains\<close>

lemma join_pair_nonempty:
  "a \<noteq> [] \<Longrightarrow> join sep (filter (\<lambda>s. s \<noteq> []) [a, b]) \<noteq> []"
  by (cases b) auto

lemma getTextContent_build [simp]: "getTextContent (buildMessageContent t urls) = t"
  by (simp add: buildMessageContent_def getTextContent_def Let_def)

lemma format_role [simp]: "cm_role (formatMessageForAPI m) = m_from m"
  by (simp add: formatMessageForAPI_def Let_def)

lemma valid_assistant_text:
  assumes "isValidMessage m" "m_from m = Assistant"
  shows "getTextContent (cm_content (formatMessageForAPI m)) \<noteq> []"
proof -
  obtain v vs where v: "m_versions m = v # vs"
    using assms(1) by (cases "m_versions m") (auto simp: isValidMessage_def)
  then have "getCurrentVersion m = v" by (simp add: getCurrentVersion_def)
  then have "trim (case m_apiContent m of None \<Rightarrow> mv_content (getCurrentVersion m) | Some c \<Rightarrow> c) \<noteq> []"
    using assms v by (auto simp: isValidMessage_def Let_def split: if_splits)
  from join_pair_nonempty [OF this] show ?thesis
    by (simp only: formatMessageForAPI_def Let_def chat_completion_message.simps getTextContent_build) simp
qed

lemma valid_images:
  assumes "PartsContent ps = cm_content (formatMessageForAPI m)" "ImagePart u \<in> set ps"
  shows "u \<noteq> [] \<and> trim u = u"
  using assms
  by (auto simp: formatMessageForAPI_def buildMessageContent_def Let_def split: if_splits)

lemma payload_messages [simp]:
  "cr_messages (buildChatCompletionPayload ms config enabled key) =
     map formatMessageForAPI (filter isValidMessage ms)"
  by (simp add: buildChatCompletionPayload_def addEnabledParameters_def addOpenAIOptions_def)

text \<open>the request that is sent never carries an empty assistant turn (the placeholder of the
  answer being generated), every image in it has a non-blank, trimmed URL, and the placeholder
  appended for the new answer changes nothing: the request built with it is the request built
  without it.\<close>

theorem payload_well_formed:
  "(\<forall>cm \<in> set (cr_messages (buildChatCompletionPayload ms config enabled key)).
      (cm_role cm = Assistant \<longrightarrow> getTextContent (cm_content cm) \<noteq> []) \<and>
      (\<forall>ps u. cm_content cm = PartsContent ps \<longrightarrow> ImagePart u \<in> set ps \<longrightarrow> u \<noteq> [] \<and> trim u = u)) \<and>
   buildChatCompletionPayload (ms @ [createLoadingAssistantMessage k v]) config enabled key =
     buildChatCompletionPayload ms config enabled key"
proof
  show "\<forall>cm \<in> set (cr_messages (buildChatCompletionPayload ms config enabled key)).
      (cm_role cm = Assistant \<longrightarrow> getTextContent (cm_content cm) \<noteq> []) \<and>
      (\<forall>ps u. cm_content cm = PartsContent ps \<longrightarrow> ImagePart u \<in> set ps \<longrightarrow> u \<noteq> [] \<and> trim u = u)"
    by (auto simp: valid_assistant_text dest: valid_images [OF sym])
  have "\<not> isValidMessage (createLoadingAssistantMessage k v)"
    by (simp add: isValidMessage_def createLoadingAssistantMessage_def plain_message_def
        createMessageVersion_def)
  then show "buildChatCompletionPayload (ms @ [createLoadingAssistantMessage k v]) config enabled key =
      buildChatCompletionPayload ms config enabled key"
    by (simp add: buildChatCompletionPayload_def)
qed

text \<open>The witness sends one assistant turn with an image.\<close>

definition sample_turn :: message where
  "sample_turn = (plain_message ''k'' Assistant [createMessageVersion ''v'' '' hi ''])
     \<lparr>m_attachments := Some [\<lparr>att_id = ''i'', att_type = ImageAttachment, att_name = ''n'',
        att_mimeType = None, att_size = None, att_url = Some '' u '', att_textContent = None\<rparr>]\<rparr>"

theorem payload_well_formed_witness:
  "cr_messages (buildChatCompletionPayload [sample_turn] DEFAULT_CONFIG DEFAULT_PARAMETER_ENABLED None) =
     [\<lparr>cm_role = Assistant, cm_content = PartsContent [TextPart ''hi'', ImagePart ''u'']\<rparr>] \<and>
   (''hi'' :: string) \<noteq> [] \<and> trim ''u'' = ''u''"
proof -
  let ?p = "buildChatCompletionPayload [sample_turn] DEFAULT_CONFIG DEFAULT_PARAMETER_ENABLED None"
  let ?cm = "\<lparr>cm_role = Assistant, cm_content = PartsContent [TextPart ''hi'', ImagePart ''u'']\<rparr>"
  have *: "cr_messages ?p = [?cm]"
    by (simp add: sample_turn_def plain_message_def createMessageVersion_def isValidMessage_def
        formatMessageForAPI_def buildMessageContent_def attachments_of_def has_text_def
        getCurrentVersion_def trim_def trim_by_def is_ws_def)
  moreover have "getTextContent (cm_content ?cm) \<noteq> [] \<and> trim ''u'' = ''u''"
    using payload_well_formed [of "[sample_turn]" DEFAULT_CONFIG DEFAULT_PARAMETER_ENABLED None] *
    by (simp del: payload_messages)
  ultimately show ?thesis by simp
qed

end
