(* ===== verification/Js_Data.thy ===== *)
theory Js_Data
  imports Complex_Main Js_Prelude "HOL-Library.AList"
begin

text \<open>
  Data of the JavaScript library that the playground uses beside strings: \<open>Map\<close>, whose entries are
  kept in the order in which their keys were first inserted (\<open>AList.update\<close> replaces an entry in
  place and appends a new one), the values of \<open>JSON\<close>, \<open>JSON.parse\<close>, \<open>JSON.stringify\<close> and
  \<open>Number\<close>. A number is an exact decimal fraction: the rounding of the double format is left out.
\<close>

section \<open>Values\<close>

datatype json = JNull | JBool bool | JNum rat | JStr string | JArr "json list"
  | JObj "(string \<times> json) list"

text \<open>Reading a property: of an object, the last member of that name; arrays, strings and numbers
  have none of the properties the code asks for.\<close>

definition json_get :: "json \<Rightarrow> string \<Rightarrow> json option" where
  "json_get v name = (case v of JObj ms \<Rightarrow> map_of (rev ms) name | _ \<Rightarrow> None)"

section \<open>Numbers\<close>

text \<open>An unsigned decimal literal: digits, a fraction and an exponent, with the rest of the text.\<close>

definition take_digits :: "string \<Rightarrow> string \<times> string" where
  "take_digits s = (takeWhile is_digit s, dropWhile is_digit s)"

definition take_fraction :: "string \<Rightarrow> (string \<times> string) option" where
  "take_fraction s =
     (case s of
        [] \<Rightarrow> Some ([], [])
      | c # s' \<Rightarrow>
          if c = CHR ''.'' then
            (case take_digits s' of (ds, rest) \<Rightarrow> if ds = [] then None else Some (ds, rest))
          else Some ([], s))"

definition take_exponent :: "string \<Rightarrow> (int \<times> string) option" where
  "take_exponent s =
     (case s of
        [] \<Rightarrow> Some (0, [])
      | c # s' \<Rightarrow>
          if c \<noteq> CHR ''e'' \<and> c \<noteq> CHR ''E'' then Some (0, s)
          else
            (case (case s' of d # s'' \<Rightarrow>
                if d = CHR ''-'' then (- 1, s'') else if d = CHR ''+'' then (1, s'') else (1, s')
              | [] \<Rightarrow> (1, [])) of (sign, body) \<Rightarrow>
             case take_digits body of (ds, rest) \<Rightarrow>
               if ds = [] then None else Some (sign * int (digits_val ds), rest)))"

definition decimal :: "string \<Rightarrow> string \<Rightarrow> int \<Rightarrow> rat" where
  "decimal whole fr e =
     (let m = of_nat (digits_val (whole @ fr)); k = e - int (length fr) in
      if k \<ge> 0 then m * 10 ^ nat k else m / 10 ^ nat (- k))"

section \<open>\<open>JSON.parse\<close>\<close>

abbreviation (input) QUOTE :: char where
  "QUOTE \<equiv> CHR 0x22"

abbreviation (input) BSLASH :: char where
  "BSLASH \<equiv> CHR 0x5C"

definition is_json_ws :: "char \<Rightarrow> bool" where
  "is_json_ws c \<longleftrightarrow> c = CHR 0x20 \<or> c = CHR 0x09 \<or> c = CHR 0x0A \<or> c = CHR 0x0D"

definition skip_ws :: "string \<Rightarrow> string" where
  "skip_ws = dropWhile is_json_ws"

definition hex_val :: "char \<Rightarrow> nat option" where
  "hex_val c =
     (let n = of_char c in
      if 48 \<le> n \<and> n \<le> 57 then Some (n - 48)
      else if 97 \<le> n \<and> n \<le> 102 then Some (n - 87)
      else if 65 \<le> n \<and> n \<le> 70 then Some (n - 55) else None)"

text \<open>A four digit escape. A code unit above 255 has no character in the model and reads as a
  question mark.\<close>

definition unit_char :: "char \<Rightarrow> char \<Rightarrow> char \<Rightarrow> char \<Rightarrow> char option" where
  "unit_char a b c d =
     (case (hex_val a, hex_val b, hex_val c, hex_val d) of
        (Some w, Some x, Some y, Some z) \<Rightarrow>
          (let n = 4096 * w + 256 * x + 16 * y + z in Some (if n < 256 then char_of n else CHR ''?''))
      | _ \<Rightarrow> None)"

definition escape_char :: "char \<Rightarrow> char option" where
  "escape_char c =
     (if c = QUOTE \<or> c = BSLASH \<or> c = CHR ''/'' then Some c
      else if c = CHR ''b'' then Some (CHR 0x08)
      else if c = CHR ''f'' then Some (CHR 0x0C)
      else if c = CHR ''n'' then Some (CHR 0x0A)
      else if c = CHR ''r'' then Some (CHR 0x0D)
      else if c = CHR ''t'' then Some (CHR 0x09) else None)"

text \<open>The characters of a string literal after its opening quote, and the text after its end.\<close>

fun json_chars :: "string \<Rightarrow> (string \<times> string) option" where
  "json_chars [] = None"
| "json_chars (c # s) =
     (if c = QUOTE then Some ([], s)
      else if c \<noteq> BSLASH then
        (if (of_char c :: nat) < 32 then None
         else map_option (\<lambda>(t, rest). (c # t, rest)) (json_chars s))
      else
        (case s of
           [] \<Rightarrow> None
         | e # s' \<Rightarrow>
             if e = CHR ''u'' then
               (case s' of
                  h1 # h2 # h3 # h4 # s'' \<Rightarrow>
                    (case unit_char h1 h2 h3 h4 of
                       None \<Rightarrow> None
                     | Some u \<Rightarrow> map_option (\<lambda>(t, rest). (u # t, rest)) (json_chars s''))
                | _ \<Rightarrow> None)
             else
               (case escape_char e of
                  None \<Rightarrow> None
                | Some u \<Rightarrow> map_option (\<lambda>(t, rest). (u # t, rest)) (json_chars s'))))"

definition json_number :: "string \<Rightarrow> (json \<times> string) option" where
  "json_number s =
     (let neg = (case s of c # _ \<Rightarrow> c = CHR ''-'' | [] \<Rightarrow> False); body = (if neg then tl s else s) in
      case take_digits body of (whole, rest) \<Rightarrow>
        if whole = [] \<or> (length whole > 1 \<and> hd whole = CHR ''0'') then None
        else
          (case take_fraction rest of
             None \<Rightarrow> None
           | Some (fr, rest') \<Rightarrow>
               (case take_exponent rest' of
                  None \<Rightarrow> None
                | Some (e, rest'') \<Rightarrow>
                    Some (JNum (if neg then - decimal whole fr e else decimal whole fr e), rest''))))"

text \<open>A value, the elements of an array from one of its values on, and the members of an object
  from one of its names on. The fuel bounds the number of nested calls; twice the length of the text
  is enough, since each value takes at least one character.\<close>

fun json_value :: "nat \<Rightarrow> string \<Rightarrow> (json \<times> string) option"
  and json_elements :: "nat \<Rightarrow> string \<Rightarrow> (json list \<times> string) option"
  and json_members :: "nat \<Rightarrow> string \<Rightarrow> ((string \<times> json) list \<times> string) option"
where
  "json_value 0 s = None"
| "json_value (Suc fuel) s =
     (case skip_ws s of
        [] \<Rightarrow> None
      | c # s' \<Rightarrow>
          if c = QUOTE then map_option (\<lambda>(t, rest). (JStr t, rest)) (json_chars s')
          else if c = CHR ''['' then
            (case skip_ws s' of
               [] \<Rightarrow> None
             | d # s'' \<Rightarrow>
                 if d = CHR '']'' then Some (JArr [], s'')
                 else map_option (\<lambda>(vs, rest). (JArr vs, rest)) (json_elements fuel s'))
          else if c = CHR ''{'' then
            (case skip_ws s' of
               [] \<Rightarrow> None
             | d # s'' \<Rightarrow>
                 if d = CHR ''}'' then Some (JObj [], s'')
                 else map_option (\<lambda>(ms, rest). (JObj ms, rest)) (json_members fuel s'))
          else if starts_with ''true'' (c # s') then Some (JBool True, drop 3 s')
          else if starts_with ''false'' (c # s') then Some (JBool False, drop 4 s')
          else if starts_with ''null'' (c # s') then Some (JNull, drop 3 s')
          else json_number (c # s'))"
| "json_elements 0 s = None"
| "json_elements (Suc fuel) s =
     (case json_value fuel s of
        None \<Rightarrow> None
      | Some (v, rest) \<Rightarrow>
          (case skip_ws rest of
             [] \<Rightarrow> None
           | c # rest' \<Rightarrow>
               if c = CHR '']'' then Some ([v], rest')
               else if c = CHR '','' then
                 map_option (\<lambda>(vs, r). (v # vs, r)) (json_elements fuel rest')
               else None))"
| "json_members 0 s = None"
| "json_members (Suc fuel) s =
     (case skip_ws s of
        [] \<Rightarrow> None
      | q # s' \<Rightarrow>
          if q \<noteq> QUOTE then None
          else
            (case json_chars s' of
               None \<Rightarrow> None
             | Some (name, rest) \<Rightarrow>
                 (case skip_ws rest of
                    [] \<Rightarrow> None
                  | c # rest' \<Rightarrow>
                      if c \<noteq> CHR '':'' then None
                      else
                        (case json_value fuel rest' of
                           None \<Rightarrow> None
                         | Some (v, rest'') \<Rightarrow>
                             (case skip_ws rest'' of
                                [] \<Rightarrow> None
                              | d # r \<Rightarrow>
                                  if d = CHR ''}'' then Some ([(name, v)], r)
                                  else if d = CHR '','' then
                                    map_option (\<lambda>(ms, r'). ((name, v) # ms, r')) (json_members fuel r)
                                  else None)))))"

definition json_parse :: "string \<Rightarrow> json option" where
  "json_parse s =
     (case json_value (2 * length s + 2) s of
        None \<Rightarrow> None
      | Some (v, rest) \<Rightarrow> if skip_ws rest = [] then Some v else None)"

section \<open>\<open>JSON.stringify\<close>\<close>

definition hex_digit :: "nat \<Rightarrow> char" where
  "hex_digit n = (if n < 10 then char_of (48 + n) else char_of (87 + n))"

definition quote_char :: "char \<Rightarrow> string" where
  "quote_char c =
     (if c = QUOTE \<or> c = BSLASH then [BSLASH, c]
      else if c = CHR 0x08 then [BSLASH, CHR ''b'']
      else if c = CHR 0x0C then [BSLASH, CHR ''f'']
      else if c = CHR 0x0A then [BSLASH, CHR ''n'']
      else if c = CHR 0x0D then [BSLASH, CHR ''r'']
      else if c = CHR 0x09 then [BSLASH, CHR ''t'']
      else if (of_char c :: nat) < 32
      then [BSLASH, CHR ''u'', CHR ''0'', CHR ''0'', hex_digit (of_char c div 16), hex_digit (of_char c mod 16)]
      else [c])"

definition json_quote :: "string \<Rightarrow> string" where
  "json_quote s = [QUOTE] @ concat (map quote_char s) @ [QUOTE]"

text \<open>\<open>Number.prototype.toString\<close>: the digits of the number without trailing zeros, \<open>k\<close> of them, and the
  exponent \<open>n\<close> of the first one decide on the notation. The number of decimal places of a fraction is
  found by trying; a number the code can have read has finitely many, at most the bits of its
  denominator.\<close>

fun places :: "nat \<Rightarrow> nat \<Rightarrow> int \<Rightarrow> nat" where
  "places 0 k d = k"
| "places (Suc fuel) k d = (if d dvd 10 ^ k then k else places fuel (Suc k) d)"

definition strip_zeros :: "string \<Rightarrow> string" where
  "strip_zeros ds = rev (dropWhile (\<lambda>c. c = CHR ''0'') (rev ds))"

definition show_positive :: "rat \<Rightarrow> string" where
  "show_positive r =
     (case quotient_of r of (p, q) \<Rightarrow>
        let k0 = places (nat q) 0 q; all_digits = show_nat (nat (p * 10 ^ k0 div q));
            ds = strip_zeros all_digits; k = int (length ds); n = int (length all_digits) - int k0 in
        if k \<le> n \<and> n \<le> 21 then ds @ replicate (nat (n - k)) (CHR ''0'')
        else if 0 < n \<and> n \<le> 21 then take (nat n) ds @ ''.'' @ drop (nat n) ds
        else if - 6 < n \<and> n \<le> 0 then ''0.'' @ replicate (nat (- n)) (CHR ''0'') @ ds
        else
          (let e = (if n - 1 < 0 then ''e-'' @ show_nat (nat (1 - n)) else ''e+'' @ show_nat (nat (n - 1))) in
           if k = 1 then ds @ e else take 1 ds @ ''.'' @ drop 1 ds @ e))"

definition show_number :: "rat \<Rightarrow> string" where
  "show_number r = (if r = 0 then ''0'' else if r < 0 then ''-'' @ show_positive (- r) else show_positive r)"

fun json_stringify :: "json \<Rightarrow> string" where
  "json_stringify JNull = ''null''"
| "json_stringify (JBool b) = (if b then ''true'' else ''false'')"
| "json_stringify (JNum r) = show_number r"
| "json_stringify (JStr s) = json_quote s"
| "json_stringify (JArr vs) = ''['' @ join '','' (map json_stringify vs) @ '']''"
| "json_stringify (JObj ms) =
     ''{'' @ join '','' (map (\<lambda>(name, v). json_quote name @ '':'' @ json_stringify v) ms) @ ''}''"

section \<open>\<open>Number\<close>\<close>

text \<open>\<open>Number\<close> of a text: white space around it is dropped, the empty text is zero, and otherwise it is
  a literal of the language; \<open>None\<close> stands for a result that is not finite.\<close>

definition radix_val :: "nat \<Rightarrow> string \<Rightarrow> rat option" where
  "radix_val b ds =
     (if ds = [] \<or> (\<exists>c \<in> set ds. case hex_val c of None \<Rightarrow> True | Some d \<Rightarrow> d \<ge> b) then None
      else Some (of_nat (foldl (\<lambda>n c. b * n + the (hex_val c)) 0 ds)))"

definition decimal_literal :: "string \<Rightarrow> rat option" where
  "decimal_literal s =
     (case take_digits s of (whole, rest) \<Rightarrow>
      case (case rest of c # r \<Rightarrow> if c = CHR ''.'' then take_digits r else ([], rest) | [] \<Rightarrow> ([], []))
      of (fr, rest') \<Rightarrow>
        if whole = [] \<and> fr = [] then None
        else
          (case take_exponent rest' of
             None \<Rightarrow> None
           | Some (e, rest'') \<Rightarrow> if rest'' = [] then Some (decimal whole fr e) else None))"

definition number_of_string :: "string \<Rightarrow> rat option" where
  "number_of_string s =
     (let t = trim s in
      if t = [] then Some 0
      else if starts_with ''0x'' t \<or> starts_with ''0X'' t then radix_val 16 (drop 2 t)
      else if starts_with ''0o'' t \<or> starts_with ''0O'' t then radix_val 8 (drop 2 t)
      else if starts_with ''0b'' t \<or> starts_with ''0B'' t then radix_val 2 (drop 2 t)
      else if starts_with ''-'' t then map_option uminus (decimal_literal (tl t))
      else if starts_with ''+'' t then decimal_literal (tl t)
      else decimal_literal t)"

text \<open>An array is converted through its text: none for an empty one, that of its element for one
  with a single element (\<open>null\<close> has none), and a text with a comma otherwise.\<close>

fun number_of_json :: "json \<Rightarrow> rat option" where
  "number_of_json JNull = Some 0"
| "number_of_json (JBool b) = Some (if b then 1 else 0)"
| "number_of_json (JNum r) = Some r"
| "number_of_json (JStr s) = number_of_string s"
| "number_of_json (JArr vs) =
     (case vs of
        [] \<Rightarrow> Some 0
      | [v] \<Rightarrow> (case v of JBool _ \<Rightarrow> None | _ \<Rightarrow> number_of_json v)
      | _ \<Rightarrow> None)"
| "number_of_json (JObj ms) = None"


section \<open>Printed values are read back\<close>

lemma hex_val_hex_digit:
  assumes "d < 16"
  shows "hex_val (hex_digit d) = Some d"
proof (cases "d < 10")
  case True
  then have "of_char (char_of (48 + d) :: char) = 48 + d" by simp
  with True show ?thesis by (simp add: hex_digit_def hex_val_def Let_def)
next
  case False
  with assms have "of_char (char_of (87 + d) :: char) = 87 + d" by simp
  with False assms show ?thesis by (simp add: hex_digit_def hex_val_def Let_def)
qed

lemma unit_char_control:
  assumes "(of_char c :: nat) < 32"
  shows "unit_char (CHR ''0'') (CHR ''0'') (hex_digit (of_char c div 16)) (hex_digit (of_char c mod 16)) = Some c"
proof -
  have "hex_val (CHR ''0'') = Some 0" by (simp add: hex_val_def)
  moreover have "16 * (of_char c div 16) + of_char c mod 16 = (of_char c :: nat)" by simp
  ultimately show ?thesis
    using assms by (simp add: unit_char_def hex_val_hex_digit Let_def)
qed

lemma json_chars_quote_char:
  "json_chars (quote_char c @ t) = map_option (\<lambda>(u, rest). (c # u, rest)) (json_chars t)"
  by (simp add: quote_char_def escape_char_def unit_char_control)

lemma json_chars_quoted: "json_chars (concat (map quote_char s) @ QUOTE # rest) = Some (s, rest)"
  by (induction s) (simp_all add: json_chars_quote_char)

lemma strip_zeros_replicate:
  "strip_zeros ds @ replicate (length ds - length (strip_zeros ds)) (CHR ''0'') = ds"
proof -
  let ?z = "\<lambda>c. c = CHR ''0''"
  have "takeWhile ?z (rev ds) = replicate (length (takeWhile ?z (rev ds))) (CHR ''0'')"
    by (intro replicate_eqI) (auto dest: set_takeWhileD)
  moreover have "rev ds = takeWhile ?z (rev ds) @ dropWhile ?z (rev ds)" by simp
  ultimately have "ds = strip_zeros ds @ replicate (length (takeWhile ?z (rev ds))) (CHR ''0'')"
    unfolding strip_zeros_def by (metis rev_append rev_replicate rev_rev_ident)
  moreover from this have "length (takeWhile ?z (rev ds)) = length ds - length (strip_zeros ds)"
    by (metis add_diff_cancel_left' length_append length_replicate)
  ultimately show ?thesis by metis
qed

lemma length_show_nat: "n < 10 ^ k \<Longrightarrow> 0 < k \<Longrightarrow> length (show_nat n) \<le> k"
proof (induction k arbitrary: n)
  case (Suc k)
  show ?case
  proof (cases "n < 10")
    case False
    then have "n div 10 < 10 ^ k" using Suc.prems(1) by (simp add: less_mult_imp_div_less mult.commute)
    moreover have "0 < k" using False Suc.prems(1) by (cases k) auto
    ultimately have "length (show_nat (n div 10)) \<le> k" by (rule Suc.IH)
    then show ?thesis using False by (subst show_nat.simps) simp
  qed (subst show_nat.simps, simp)
qed simp

lemma show_positive_int:
  assumes "0 < n" "n < 10 ^ 21"
  shows "show_positive (of_nat n) = show_nat n"
proof -
  have q: "quotient_of (of_nat n) = (int n, 1)"
    using quotient_of_int [of "int n"] by simp
  have l: "length (show_nat n) \<le> 21" using length_show_nat assms by simp
  let ?ds = "strip_zeros (show_nat n)"
  have s: "length ?ds \<le> length (show_nat n)"
    unfolding strip_zeros_def by (metis length_dropWhile_le length_rev)
  have "show_positive (of_nat n) =
      ?ds @ replicate (nat (int (length (show_nat n)) - int (length ?ds))) (CHR ''0'')"
    using l s by (simp add: show_positive_def q Let_def)
  also have "nat (int (length (show_nat n)) - int (length ?ds)) = length (show_nat n) - length ?ds" by simp
  finally show ?thesis using strip_zeros_replicate [of "show_nat n"] by simp
qed

lemma show_nat_hd: "0 < n \<Longrightarrow> hd (show_nat n) \<noteq> CHR ''0''"
proof (induction n rule: show_nat.induct)
  case (1 n)
  show ?case
  proof (cases "n < 10")
    case True
    with 1 have "n \<in> {1, 2, 3, 4, 5, 6, 7, 8, 9}" by auto
    then show ?thesis by (auto simp: digit_char_def show_nat.simps [of n] char_of_def bit_0)
  next
    case False
    then have "hd (show_nat (n div 10)) \<noteq> CHR ''0''" using 1 by simp
    then show ?thesis using False show_nat.simps [of n] by simp
  qed
qed

text \<open>What may follow a value inside a printed text.\<close>

definition stops :: "string \<Rightarrow> bool" where
  "stops rest \<longleftrightarrow> rest = [] \<or> hd rest \<in> set ('','' @ '']'' @ ''}'')"

lemma stops_simps [simp]: "stops []" "stops (CHR '','' # r)" "stops (CHR '']'' # r)" "stops (CHR ''}'' # r)"
  by (simp_all add: stops_def)

lemma take_digits_append:
  assumes "\<forall>c \<in> set ds. is_digit c" "stops rest"
  shows "take_digits (ds @ rest) = (ds, rest)"
proof -
  have "rest = [] \<or> \<not> is_digit (hd rest)" using assms(2) by (auto simp: stops_def is_digit_def)
  then show ?thesis using assms(1) by (cases rest) (simp_all add: take_digits_def takeWhile_append dropWhile_append)
qed

lemma stops_fraction: "stops rest \<Longrightarrow> take_fraction rest = Some ([], rest) \<and> take_exponent rest = Some (0, rest)"
  by (cases rest) (auto simp: stops_def take_fraction_def take_exponent_def)

lemma json_number_nat:
  assumes "stops rest"
  shows "json_number (show_nat n @ rest) = Some (JNum (of_nat n), rest)"
    and "0 < n \<Longrightarrow> json_number (CHR ''-'' # show_nat n @ rest) = Some (JNum (- of_nat n), rest)"
proof -
  have d: "\<forall>c \<in> set (show_nat n). is_digit c" by (simp add: js_num)
  have t: "take_digits (show_nat n @ rest) = (show_nat n, rest)" by (rule take_digits_append [OF d assms])
  have z: "\<not> (length (show_nat n) > 1 \<and> hd (show_nat n) = CHR ''0'')"
    using show_nat_hd [of n] by (cases "n = 0") (auto simp: show_nat.simps [of 0])
  have m: "\<not> (case show_nat n @ rest of c # _ \<Rightarrow> c = CHR ''-'' | [] \<Rightarrow> False)"
    using d by (cases "show_nat n") (auto simp: is_digit_def)
  note f = conjunct1 [OF stops_fraction [OF assms]] conjunct2 [OF stops_fraction [OF assms]]
  show "json_number (show_nat n @ rest) = Some (JNum (of_nat n), rest)"
    using z m by (simp add: json_number_def Let_def t f decimal_def)
  show "json_number (CHR ''-'' # show_nat n @ rest) = Some (JNum (- of_nat n), rest)" if "0 < n"
    using z by (simp add: json_number_def Let_def t f decimal_def)
qed


text \<open>Values whose numbers are integers that are printed without an exponent.\<close>

fun printable :: "json \<Rightarrow> bool" where
  "printable (JNum r) \<longleftrightarrow> (\<exists>i. r = of_int i \<and> \<bar>i\<bar> < 10 ^ 21)"
| "printable (JArr vs) \<longleftrightarrow> list_all printable vs"
| "printable (JObj ms) \<longleftrightarrow> list_all (\<lambda>(name, v). printable v) ms"
| "printable _ \<longleftrightarrow> True"

lemma show_number_int:
  assumes "\<bar>i\<bar> < 10 ^ 21"
  shows "show_number (of_int i) =
     (if 0 \<le> i then show_nat (nat i) else CHR ''-'' # show_nat (nat (- i)))"
proof -
  have "nat \<bar>i\<bar> < 10 ^ 21" using assms by (simp add: nat_less_iff)
  then have "0 < i \<Longrightarrow> show_positive (of_int i) = show_nat (nat i)"
    "i < 0 \<Longrightarrow> show_positive (of_int (- i)) = show_nat (nat (- i))"
    using show_positive_int [of "nat i"] show_positive_int [of "nat (- i)"] by (simp_all add: abs_if)
  moreover have "show_nat 0 = ''0''" by (simp add: show_nat.simps digit_char_def char_of_def bit_0)
  ultimately show ?thesis by (auto simp: show_number_def)
qed

lemma show_nat_first: "\<exists>c t. show_nat n = c # t \<and> is_digit c"
  using show_nat_digits [of "hd (show_nat n)" n] by (cases "show_nat n") auto

definition plain_start :: "char \<Rightarrow> bool" where
  "plain_start c \<longleftrightarrow> \<not> is_json_ws c \<and> c \<noteq> CHR '']'' \<and> c \<noteq> CHR ''}''"

lemma number_first:
  assumes "\<bar>i\<bar> < 10 ^ 21"
  obtains c t where "show_number (of_int i) = c # t" "is_digit c \<or> c = CHR ''-''"
  using show_nat_first [of "nat i"] show_number_int [OF assms] by (cases "0 \<le> i") auto

lemma stringify_first:
  assumes "printable v"
  shows "\<exists>c t. json_stringify v = c # t \<and> plain_start c"
proof (cases v)
  case (JNum r)
  then obtain i where "r = of_int i" "\<bar>i\<bar> < 10 ^ 21" using assms by auto
  with JNum obtain c t where "json_stringify v = c # t" "is_digit c \<or> c = CHR ''-''"
    using number_first by (metis json_stringify.simps(3))
  moreover from this have "plain_start c" by (auto simp: plain_start_def is_json_ws_def is_digit_def)
  ultimately show ?thesis by blast
qed (simp_all add: plain_start_def is_json_ws_def json_quote_def)

lemma skip_ws_plain [simp]: "plain_start c \<Longrightarrow> skip_ws (c # s) = c # s"
  "skip_ws (CHR '','' # s) = CHR '','' # s" "skip_ws (CHR '']'' # s) = CHR '']'' # s"
  "skip_ws (CHR ''}'' # s) = CHR ''}'' # s" "skip_ws (CHR '':'' # s) = CHR '':'' # s"
  "skip_ws (QUOTE # s) = QUOTE # s" "skip_ws (CHR ''['' # s) = CHR ''['' # s"
  "skip_ws (CHR ''{'' # s) = CHR ''{'' # s"
  by (simp_all add: skip_ws_def plain_start_def is_json_ws_def)

lemma json_value_number:
  assumes "\<bar>i\<bar> < 10 ^ 21" "stops rest"
  shows "json_value (Suc fuel) (show_number (of_int i) @ rest) = Some (JNum (of_int i), rest)"
proof -
  obtain c t where c: "show_number (of_int i) = c # t" "is_digit c \<or> c = CHR ''-''"
    using number_first [OF assms(1)] .
  then have p: "plain_start c" by (auto simp: plain_start_def is_json_ws_def is_digit_def)
  have "c \<noteq> QUOTE" "c \<noteq> CHR ''[''" "c \<noteq> CHR ''{''" "c \<noteq> CHR ''t''" "c \<noteq> CHR ''f''" "c \<noteq> CHR ''n''"
    using c(2) by (auto simp: is_digit_def)
  then have "json_value (Suc fuel) (c # t @ rest) = json_number (c # t @ rest)" by (simp add: p)
  also have "\<dots> = json_number (show_number (of_int i) @ rest)" using c(1) by simp
  also have "\<dots> = Some (JNum (of_int i), rest)"
  proof (cases "0 \<le> i")
    case True
    then show ?thesis
      using json_number_nat(1) [OF assms(2), of "nat i"] by (simp add: show_number_int [OF assms(1)])
  next
    case False
    then have "(of_nat (nat (- i)) :: rat) = - of_int i" by simp
    with False show ?thesis
      using json_number_nat(2) [OF assms(2), of "nat (- i)"] by (simp add: show_number_int [OF assms(1)])
  qed
  finally show ?thesis using c(1) by simp
qed

text \<open>\<open>reads v\<close>: the printed form of \<open>v\<close> is read back as \<open>v\<close> before anything that may follow it.\<close>

definition reads :: "json \<Rightarrow> bool" where
  "reads v \<longleftrightarrow> (\<forall>fuel rest. stops rest \<longrightarrow> 2 * length (json_stringify v) \<le> fuel \<longrightarrow>
     json_value fuel (json_stringify v @ rest) = Some (v, rest))"

lemma reads_elements:
  assumes "vs \<noteq> []" "\<forall>v \<in> set vs. reads v" "2 * length (join '','' (map json_stringify vs)) + 1 \<le> fuel"
  shows "json_elements fuel (join '','' (map json_stringify vs) @ CHR '']'' # rest) = Some (vs, rest)"
  using assms
proof (induction vs arbitrary: fuel)
  case (Cons v vs)
  then obtain f where f: "fuel = Suc f" by (cases fuel) auto
  let ?j = "join '','' (map json_stringify vs)"
  show ?case
  proof (cases "vs = []")
    case True
    have "json_value f (json_stringify v @ CHR '']'' # rest) = Some (v, CHR '']'' # rest)"
      using Cons.prems f True by (simp add: reads_def)
    then show ?thesis using f True by simp
  next
    case False
    have "json_value f (json_stringify v @ CHR '','' # ?j @ CHR '']'' # rest) =
        Some (v, CHR '','' # ?j @ CHR '']'' # rest)"
      using Cons.prems f False by (simp add: reads_def join_Cons)
    moreover have "json_elements f (?j @ CHR '']'' # rest) = Some (vs, rest)"
      using Cons.prems f False by (intro Cons.IH) (simp_all add: join_Cons)
    ultimately show ?thesis using f False by (simp add: join_Cons)
  qed
qed simp

definition print_member :: "string \<times> json \<Rightarrow> string" where
  "print_member m = (case m of (name, v) \<Rightarrow> json_quote name @ '':'' @ json_stringify v)"

lemma print_member_pair: "print_member (name, v) = json_quote name @ '':'' @ json_stringify v"
  by (simp add: print_member_def)

lemma reads_members:
  assumes "ms \<noteq> []" "\<forall>m \<in> set ms. reads (snd m)" "2 * length (join '','' (map print_member ms)) + 1 \<le> fuel"
  shows "json_members fuel (join '','' (map print_member ms) @ CHR ''}'' # rest) = Some (ms, rest)"
  using assms
proof (induction ms arbitrary: fuel)
  case (Cons m ms)
  then obtain f where f: "fuel = Suc f" by (cases fuel) auto
  obtain name v where m: "m = (name, v)" by fastforce
  let ?j = "join '','' (map print_member ms)"
  have q: "json_chars (concat (map quote_char name) @ QUOTE # CHR '':'' # r) = Some (name, CHR '':'' # r)" for r
    by (rule json_chars_quoted)
  show ?case
  proof (cases "ms = []")
    case True
    have "json_value f (json_stringify v @ CHR ''}'' # rest) = Some (v, CHR ''}'' # rest)"
      using Cons.prems f True m by (simp add: reads_def print_member_pair)
    then show ?thesis using f True m by (simp add: print_member_pair json_quote_def q)
  next
    case False
    have "json_value f (json_stringify v @ CHR '','' # ?j @ CHR ''}'' # rest) =
        Some (v, CHR '','' # ?j @ CHR ''}'' # rest)"
      using Cons.prems f False m by (simp add: reads_def print_member_pair join_Cons)
    moreover have "json_members f (?j @ CHR ''}'' # rest) = Some (ms, rest)"
      using Cons.prems f False by (intro Cons.IH) (simp_all add: join_Cons)
    ultimately show ?thesis using f False m by (simp add: print_member_pair json_quote_def q join_Cons)
  qed
qed simp


lemma readsI:
  assumes "json_stringify v \<noteq> []"
    and "\<And>f rest. stops rest \<Longrightarrow> json_value (Suc f) (json_stringify v @ rest) = Some (v, rest)"
  shows "reads v"
  unfolding reads_def
proof (intro allI impI)
  fix fuel rest
  assume "stops rest" "2 * length (json_stringify v) \<le> fuel"
  with assms show "json_value fuel (json_stringify v @ rest) = Some (v, rest)" by (cases fuel) auto
qed

lemma reads_array:
  assumes "\<forall>v \<in> set vs. reads v \<and> printable v"
  shows "reads (JArr vs)"
  unfolding reads_def
proof (intro allI impI)
  fix fuel rest
  assume st: "stops rest" and len: "2 * length (json_stringify (JArr vs)) \<le> fuel"
  then obtain f where f: "fuel = Suc f" by (cases fuel) auto
  show "json_value fuel (json_stringify (JArr vs) @ rest) = Some (JArr vs, rest)"
  proof (cases vs)
    case Nil
    then show ?thesis using f by simp
  next
    case (Cons v ws)
    obtain c t where c: "json_stringify v = c # t" "plain_start c"
      using stringify_first assms Cons by (metis list.set_intros(1))
    let ?j = "join '','' (map json_stringify vs) @ CHR '']'' # rest"
    have j: "\<exists>u. ?j = c # u" using Cons c(1) by (simp add: join_Cons)
    have "json_elements f ?j = Some (vs, rest)"
      using assms len f Cons by (intro reads_elements) (simp_all add: join_Cons)
    with j c(2) f show ?thesis by (auto simp: plain_start_def)
  qed
qed

lemma reads_object:
  assumes "\<forall>m \<in> set ms. reads (snd m)"
  shows "reads (JObj ms)"
  unfolding reads_def
proof (intro allI impI)
  fix fuel rest
  assume st: "stops rest" and len: "2 * length (json_stringify (JObj ms)) \<le> fuel"
  then obtain f where f: "fuel = Suc f" by (cases fuel) auto
  have p: "json_stringify (JObj ms) = CHR ''{'' # join '','' (map print_member ms) @ ''}''"
    by (simp add: print_member_def [abs_def])
  show "json_value fuel (json_stringify (JObj ms) @ rest) = Some (JObj ms, rest)"
  proof (cases ms)
    case Nil
    then show ?thesis using f by simp
  next
    case (Cons m ns)
    let ?j = "join '','' (map print_member ms) @ CHR ''}'' # rest"
    have j: "\<exists>u. ?j = QUOTE # u"
      using Cons by (cases m) (simp add: join_Cons print_member_pair json_quote_def)
    have "json_members f ?j = Some (ms, rest)"
      using assms len f Cons p by (intro reads_members) simp_all
    with j f p show ?thesis by auto
  qed
qed

lemma reads_printable: "printable v \<Longrightarrow> reads v"
proof (induction v)
  case (JNum r)
  then obtain i where i: "r = of_int i" "\<bar>i\<bar> < 10 ^ 21" by auto
  show ?case
    using stringify_first [OF JNum] json_value_number [OF i(2)] i(1) by (intro readsI) auto
next
  case (JArr vs)
  then show ?case by (intro reads_array) (simp add: list_all_iff)
next
  case (JObj ms)
  then show ?case by (intro reads_object) (force simp: list_all_iff)
next
  case (JStr s)
  show ?case by (rule readsI) (simp_all add: json_quote_def json_chars_quoted)
qed (rule readsI; simp add: skip_ws_def is_json_ws_def)+

text \<open>Reading a printed value gives the value back.\<close>

lemma parse_stringify:
  assumes "printable v"
  shows "json_parse (json_stringify v) = Some v"
proof -
  have "json_value (2 * length (json_stringify v) + 2) (json_stringify v @ []) = Some (v, [])"
    using reads_printable [OF assms] unfolding reads_def by (metis le_add1 stops_simps(1))
  then show ?thesis by (simp add: json_parse_def skip_ws_def)
qed

end
