(* ===== verification/Agent_Responses.thy ===== *)
theory Agent_Responses
  imports Agent_Workspace Chat_Payload Js_Data
begin

text \<open>
  The requests of the agent to the Responses interface, from \<^verbatim>\<open>features/playground/index.tsx\<close>:
  the input items built from a conversation, their repair and check before sending, the tools
  offered, the payload, and the function calls assembled from the events of an answer. The
  instructions sent along are Chinese prose; the function that builds them is an argument.
\<close>

section \<open>Input items\<close>

datatype responses_input_content_part = InputText string | OutputText string | InputImage string

datatype responses_input_item =
    InputMessage message_role "responses_input_content_part list"
  | OutputItem responses_output_history_item
  | FunctionCallOutput string string

abbreviation CallItem :: "responses_function_call_item \<Rightarrow> responses_input_item" where
  "CallItem fc \<equiv> OutputItem (FunctionCall fc)"

definition MAX_AGENT_STEPS :: nat where
  "MAX_AGENT_STEPS = 30"

definition isWorkspaceMutatingToolCall :: "agent_tool_call \<Rightarrow> bool" where
  "isWorkspaceMutatingToolCall call \<longleftrightarrow>
     tc_tool call \<in> set [''write_file'', ''append_file'', ''batch_edit'', ''create_dir'']"

definition getHelperWorkspaceName :: "agent_helper_status option \<Rightarrow> string" where
  "getHelperWorkspaceName status =
     (case status of
        None \<Rightarrow> ''Helper workspace''
      | Some st \<Rightarrow>
          (let workspace = strip_trailing_slashes (forward_slashes (hs_workspace st));
               parts = filter (\<lambda>p. p \<noteq> []) (split_on (CHR ''/'') workspace)
           in if parts = [] then ''Helper workspace'' else last parts))"

definition AGENT_TOOL_NAMES :: "string list" where
  "AGENT_TOOL_NAMES = [''list_dir'', ''read_file'', ''search_files'', ''write_file'', ''append_file'',
     ''batch_edit'', ''create_dir'', ''run_command'']"

definition buildAgentPromptCacheKey :: "string option \<Rightarrow> string option" where
  "buildAgentPromptCacheKey conversationId =
     map_option (\<lambda>i. ''xingkong-playground-agent:'' @ i) (js_or conversationId None)"

definition toResponsesInputContent ::
  "message_role \<Rightarrow> message_content \<Rightarrow> responses_input_content_part list" where
  "toResponsesInputContent role content =
     (let text = (if role = Assistant then OutputText else InputText) in
      case content of
        TextContent s \<Rightarrow> if trim s \<noteq> [] then [text s] else []
      | PartsContent parts \<Rightarrow>
          concat (map (\<lambda>part. case part of
              TextPart s \<Rightarrow> if trim s \<noteq> [] then [text s] else []
            | ImagePart url \<Rightarrow> if role = User \<and> url \<noteq> [] then [InputImage url] else []) parts))"

text \<open>The JSON object of a tool result: \<open>JSON.stringify\<close> leaves out properties that are undefined.\<close>

definition result_json :: "agent_tool_display_result \<Rightarrow> json" where
  "result_json r =
     (let optional = (\<lambda>name v. case v of None \<Rightarrow> [] | Some s \<Rightarrow> [(name, JStr s)]) in
      JObj ([(''ok'', JBool (dr_ok r)), (''tool'', JStr (dr_tool r)), (''path'', JStr (dr_path r))] @
        optional ''summary'' (dr_summary r) @ optional ''output'' (dr_output r) @
        optional ''error'' (dr_error r)))"

definition tool_outputs :: "message \<Rightarrow> responses_input_item list" where
  "tool_outputs m =
     concat (map (\<lambda>r. case js_or (dr_id r) None of
         None \<Rightarrow> []
       | Some i \<Rightarrow> [FunctionCallOutput i (json_stringify (result_json r))])
       (case m_agentToolResults m of None \<Rightarrow> [] | Some rs \<Rightarrow> rs))"

definition message_items :: "message \<Rightarrow> responses_input_item list" where
  "message_items m =
     (if m_isAgentToolResult m then tool_outputs m
      else if m_from m \<noteq> User \<and> m_from m \<noteq> Assistant then []
      else
        (let outputItems = (if m_from m = Assistant
               then map OutputItem (case m_agentResponsesOutputItems m of None \<Rightarrow> [] | Some items \<Rightarrow> items)
               else []) in
         if \<not> isValidMessage m then outputItems
         else
           (let content = toResponsesInputContent (m_from m) (cm_content (formatMessageForAPI m)) in
            if content = [] then outputItems else InputMessage (m_from m) content # outputItems)))"

definition messagesToResponsesInput :: "message list \<Rightarrow> responses_input_item list" where
  "messagesToResponsesInput messages = concat (map message_items messages)"

section \<open>Pairs of calls and outputs\<close>

text \<open>The variables of the loop of \<open>sanitizeResponsesInputItems\<close>: the items kept, the position of the
  last unanswered call of each id, and the ids seen.\<close>

record sanitize_state =
  sz_kept :: "responses_input_item list"
  sz_pending :: "(string \<times> nat) list"
  sz_seen :: "string list"

fun sanitize_item :: "sanitize_state \<Rightarrow> responses_input_item \<Rightarrow> sanitize_state" where
  "sanitize_item st (OutputItem (FunctionCall fc)) =
     st\<lparr>sz_seen := set_add (sz_seen st) (fc_call_id fc),
        sz_pending := AList.update (fc_call_id fc) (length (sz_kept st)) (sz_pending st),
        sz_kept := sz_kept st @ [OutputItem (FunctionCall fc)]\<rparr>"
| "sanitize_item st (FunctionCallOutput callId out) =
     (if map_of (sz_pending st) callId \<noteq> None
      then st\<lparr>sz_pending := AList.delete callId (sz_pending st),
              sz_kept := sz_kept st @ [FunctionCallOutput callId out]\<rparr>
      else st)"
| "sanitize_item st item = st\<lparr>sz_kept := sz_kept st @ [item]\<rparr>"

definition sanitizeResponsesInputItems :: "responses_input_item list \<Rightarrow> responses_input_item list" where
  "sanitizeResponsesInputItems input =
     (let st = foldl sanitize_item \<lparr>sz_kept = [], sz_pending = [], sz_seen = []\<rparr> input in
      if sz_pending st = [] then sz_kept st
      else nths (sz_kept st) (- set (map snd (sz_pending st))))"

text \<open>The first loop of \<open>assertResponsesToolCallPairs\<close>, with the sets of calls and outputs.\<close>

fun assert_items ::
  "string list \<Rightarrow> string list \<Rightarrow> responses_input_item list \<Rightarrow> string + string list \<times> string list" where
  "assert_items calls outputs [] = Inr (calls, outputs)"
| "assert_items calls outputs (OutputItem (FunctionCall fc) # items) =
     (if fc_call_id fc = [] then Inl ''responses_function_call_missing_call_id''
      else assert_items (set_add calls (fc_call_id fc)) outputs items)"
| "assert_items calls outputs (FunctionCallOutput callId out # items) =
     (if callId = [] then Inl ''responses_function_call_output_missing_call_id''
      else if callId \<notin> set calls then Inl (''responses_orphan_function_call_output:'' @ callId)
      else assert_items calls (set_add outputs callId) items)"
| "assert_items calls outputs (_ # items) = assert_items calls outputs items"

definition assertResponsesToolCallPairs :: "responses_input_item list \<Rightarrow> string + unit" where
  "assertResponsesToolCallPairs input =
     (case assert_items [] [] input of
        Inl e \<Rightarrow> Inl e
      | Inr (calls, outputs) \<Rightarrow>
          (case List.find (\<lambda>c. c \<notin> set outputs) calls of
             Some c \<Rightarrow> Inl (''responses_function_call_output_missing:'' @ c)
           | None \<Rightarrow> Inr ()))"

section \<open>Tools and payload\<close>

text \<open>A tool offered to the model: its name and the schema of its arguments. The descriptions are
  Chinese prose and are left out.\<close>

record responses_function_tool =
  ft_name :: string
  ft_parameters :: json

definition typed :: "string \<Rightarrow> json" where
  "typed t = JObj [(''type'', JStr t)]"

definition object_schema :: "(string \<times> json) list \<Rightarrow> string list \<Rightarrow> (string \<times> json) list" where
  "object_schema properties required =
     [(''type'', JStr ''object''), (''properties'', JObj properties)] @
     (if required = [] then [] else [(''required'', JArr (map JStr required))])"

definition buildAgentResponsesTools :: "agent_helper_status option \<Rightarrow> responses_function_tool list" where
  "buildAgentResponsesTools helperStatus =
     [\<lparr>ft_name = ''list_dir'', ft_parameters = JObj (object_schema [(''path'', typed ''string'')] [])\<rparr>,
      \<lparr>ft_name = ''read_file'', ft_parameters = JObj (object_schema
         [(''path'', typed ''string''), (''start'', typed ''integer''), (''end'', typed ''integer''),
          (''maxBytes'', typed ''integer'')] [''path''])\<rparr>,
      \<lparr>ft_name = ''search_files'', ft_parameters = JObj (object_schema
         [(''path'', typed ''string''), (''query'', typed ''string''), (''maxResults'', typed ''integer'')]
         [''query''])\<rparr>,
      \<lparr>ft_name = ''write_file'', ft_parameters = JObj (object_schema
         [(''path'', typed ''string''), (''content'', typed ''string'')] [''path'', ''content''])\<rparr>,
      \<lparr>ft_name = ''append_file'', ft_parameters = JObj (object_schema
         [(''path'', typed ''string''), (''content'', typed ''string'')] [''path'', ''content''])\<rparr>,
      \<lparr>ft_name = ''batch_edit'', ft_parameters = JObj (object_schema
         [(''path'', typed ''string''),
          (''edits'', JObj [(''type'', JStr ''array''),
             (''items'', JObj (object_schema
                [(''find'', typed ''string''), (''replace'', typed ''string'')] [''find'', ''replace'']))])]
         [''path'', ''edits''])\<rparr>,
      \<lparr>ft_name = ''create_dir'', ft_parameters = JObj (object_schema
         [(''path'', typed ''string'')] [''path''])\<rparr>] @
     (if helperStatus = None then []
      else [\<lparr>ft_name = ''run_command'', ft_parameters = JObj (object_schema
        [(''command'', JObj [(''type'', JStr ''string''), (''minLength'', JNum 1)]),
         (''cwd'', typed ''string''), (''timeoutMs'', typed ''integer'')] [''command''] @
        [(''additionalProperties'', JBool False)])\<rparr>])"

record responses_request =
  rr_model :: string
  rr_group :: string
  rr_input :: "responses_input_item list"
  rr_include :: "string list option"
  rr_instructions :: string
  rr_stream :: bool
  rr_store :: bool
  rr_prompt_cache_key :: "string option"
  rr_tools :: "responses_function_tool list"
  rr_tool_choice :: string
  rr_parallel_tool_calls :: bool
  rr_reasoning :: "(reasoning_effort \<times> string) option"
  rr_service_tier :: "string option"
  rr_temperature :: "rat option"
  rr_top_p :: "rat option"
  rr_max_output_tokens :: "int option"
  rr_frequency_penalty :: "rat option"
  rr_presence_penalty :: "rat option"
  rr_seed :: "int option"

definition buildAgentResponsesPayload ::
  "(string \<Rightarrow> bool \<Rightarrow> agent_helper_status option \<Rightarrow> string) \<Rightarrow> message list \<Rightarrow> playground_config \<Rightarrow>
   parameter_enabled \<Rightarrow> string \<Rightarrow> string option \<Rightarrow> agent_helper_status option \<Rightarrow> string + responses_request" where
  "buildAgentResponsesPayload instructions messages config enabled workspaceName conversationId helperStatus =
     (let input = sanitizeResponsesInputItems (messagesToResponsesInput messages);
          effort = pc_openaiReasoningEffort config in
      case assertResponsesToolCallPairs input of
        Inl e \<Rightarrow> Inl e
      | Inr _ \<Rightarrow> Inr
          \<lparr>rr_model = pc_model config, rr_group = pc_group config, rr_input = input,
            rr_include = (if effort \<noteq> EffortNone then Some [''reasoning.encrypted_content''] else None),
            rr_instructions = instructions workspaceName True helperStatus, rr_stream = True,
            rr_store = False, rr_prompt_cache_key = buildAgentPromptCacheKey conversationId,
            rr_tools = buildAgentResponsesTools helperStatus, rr_tool_choice = ''auto'',
            rr_parallel_tool_calls = True,
            rr_reasoning = (if effort \<noteq> EffortNone then Some (effort, ''detailed'') else None),
            rr_service_tier = (if isOpenAIFastMode config then Some ''priority'' else None),
            rr_temperature = (if pe_temperature enabled then Some (pc_temperature config) else None),
            rr_top_p = (if pe_top_p enabled then Some (pc_top_p config) else None),
            rr_max_output_tokens = (if pe_max_tokens enabled then Some (pc_max_tokens config) else None),
            rr_frequency_penalty =
              (if pe_frequency_penalty enabled then Some (pc_frequency_penalty config) else None),
            rr_presence_penalty =
              (if pe_presence_penalty enabled then Some (pc_presence_penalty config) else None),
            rr_seed = (if pe_seed enabled then pc_seed config else None)\<rparr>)"


section \<open>Repaired histories pass the check\<close>

text \<open>The ids of the calls and of the outputs of a list of items; \<open>answered c\<close>: an output for \<open>c\<close>
  follows a call of \<open>c\<close>.\<close>

fun call_ids :: "responses_input_item list \<Rightarrow> string list" where
  "call_ids [] = []"
| "call_ids (OutputItem (FunctionCall fc) # items) = fc_call_id fc # call_ids items"
| "call_ids (_ # items) = call_ids items"

fun output_ids :: "responses_input_item list \<Rightarrow> string list" where
  "output_ids [] = []"
| "output_ids (FunctionCallOutput c out # items) = c # output_ids items"
| "output_ids (_ # items) = output_ids items"

fun answered :: "string \<Rightarrow> responses_input_item list \<Rightarrow> bool" where
  "answered c [] = False"
| "answered c (OutputItem (FunctionCall fc) # items) =
     (if fc_call_id fc = c then c \<in> set (output_ids items) else answered c items)"
| "answered c (_ # items) = answered c items"

text \<open>Every output follows a call of its id, or its id is in \<open>A\<close>.\<close>

definition no_orphans :: "string set \<Rightarrow> responses_input_item list \<Rightarrow> bool" where
  "no_orphans A items \<longleftrightarrow>
     (\<forall>a c out b. items = a @ FunctionCallOutput c out # b \<longrightarrow> c \<in> A \<union> set (call_ids a))"

lemma call_ids_append [simp]: "call_ids (a @ b) = call_ids a @ call_ids b"
  by (induction a rule: call_ids.induct) auto

lemma output_ids_append [simp]: "output_ids (a @ b) = output_ids a @ output_ids b"
  by (induction a rule: output_ids.induct) auto

lemma set_call_ids: "c \<in> set (call_ids items) \<longleftrightarrow> (\<exists>fc. CallItem fc \<in> set items \<and> fc_call_id fc = c)"
  by (induction items rule: call_ids.induct) auto

lemma set_output_ids: "c \<in> set (output_ids items) \<longleftrightarrow> (\<exists>out. FunctionCallOutput c out \<in> set items)"
  by (induction items rule: output_ids.induct) auto

lemma answered_snoc:
  "answered c (xs @ [x]) \<longleftrightarrow> answered c xs \<or> c \<in> set (call_ids xs) \<and> c \<in> set (output_ids [x])"
proof (induction xs rule: call_ids.induct)
  case 1
  show ?case by (cases "(c, [x])" rule: answered.cases) auto
qed (auto split: if_splits)

lemma answered_call: "answered c xs \<Longrightarrow> c \<in> set (call_ids xs)"
  by (induction xs rule: call_ids.induct) (auto split: if_splits)

lemma no_orphansD:
  "no_orphans A items \<Longrightarrow> items = a @ FunctionCallOutput c out # b \<Longrightarrow> c \<in> A \<union> set (call_ids a)"
  unfolding no_orphans_def by (elim allE) (erule mp)

lemma no_orphans_snoc:
  "no_orphans {} (xs @ [x]) \<longleftrightarrow> no_orphans {} xs \<and> set (output_ids [x]) \<subseteq> set (call_ids xs)"
proof -
  have "xs @ [x] = a @ y # b \<longleftrightarrow> (b = [] \<and> xs = a \<and> x = y) \<or> (\<exists>b'. b = b' @ [x] \<and> xs = a @ y # b')"
    for a b and y :: responses_input_item
    by (cases b rule: rev_cases) auto
  then show ?thesis
    unfolding no_orphans_def by (auto simp: set_output_ids)
qed

lemma no_orphans_Nil: "no_orphans A []"
  by (simp add: no_orphans_def)

lemma no_orphans_Cons:
  "no_orphans A (x # items) \<longleftrightarrow>
     set (output_ids [x]) \<subseteq> A \<and> no_orphans (A \<union> set (call_ids [x])) items"
proof -
  have split: "x # items = a @ y # b \<longleftrightarrow>
      (a = [] \<and> x = y \<and> items = b) \<or> (\<exists>a'. a = x # a' \<and> items = a' @ y # b)" for a b y
    by (auto simp: Cons_eq_append_conv)
  define K where "K = set (call_ids [x])"
  have ids: "set (call_ids (x # a')) = K \<union> set (call_ids a')" for a'
    using call_ids_append [of "[x]" a'] by (simp add: K_def)
  have gen: "(\<forall>a c out b. x # items = a @ FunctionCallOutput c out # b \<longrightarrow> Q a c) \<longleftrightarrow>
      (\<forall>c out. x = FunctionCallOutput c out \<longrightarrow> Q [] c) \<and>
      (\<forall>a c out b. items = a @ FunctionCallOutput c out # b \<longrightarrow> Q (x # a) c)" for Q
    unfolding split by blast
  have out: "set (output_ids [x]) \<subseteq> A \<longleftrightarrow> (\<forall>c out. x = FunctionCallOutput c out \<longrightarrow> c \<in> A)"
    by (auto simp: subset_iff set_output_ids)
  show ?thesis
    unfolding no_orphans_def K_def [symmetric] out by (subst gen) (simp add: ids Un_assoc)
qed

lemma set_set_add [simp]: "set (set_add xs x) = insert x (set xs)"
  by (auto simp: set_add_def)

lemma assert_items_Inr:
  "assert_items calls outputs items = Inr r \<longleftrightarrow>
     [] \<notin> set (call_ids items) \<and> [] \<notin> set (output_ids items) \<and> no_orphans (set calls) items \<and>
     r = (foldl set_add calls (call_ids items), foldl set_add outputs (output_ids items))"
  by (induction calls outputs items rule: assert_items.induct)
    (auto simp: no_orphans_Cons no_orphans_Nil insert_commute)

lemma find_missing:
  "(case List.find (\<lambda>c. c \<notin> set ys) xs of Some c \<Rightarrow> Inl (f c) | None \<Rightarrow> Inr ()) = Inr () \<longleftrightarrow>
   set xs \<subseteq> set ys"
  by (induction xs) auto

lemma assert_pairs_iff:
  "assertResponsesToolCallPairs items = Inr () \<longleftrightarrow>
     [] \<notin> set (call_ids items) \<and> [] \<notin> set (output_ids items) \<and> no_orphans {} items \<and>
     set (call_ids items) \<subseteq> set (output_ids items)"
proof (cases "assert_items [] [] items")
  case (Inl e)
  then show ?thesis
    using assert_items_Inr [of "[]" "[]" items] by (auto simp: assertResponsesToolCallPairs_def)
next
  case (Inr r)
  then have *: "[] \<notin> set (call_ids items)" "[] \<notin> set (output_ids items)" "no_orphans {} items"
    and r: "r = (foldl set_add [] (call_ids items), foldl set_add [] (output_ids items))"
    unfolding assert_items_Inr by auto
  then show ?thesis
    using Inr by (simp add: assertResponsesToolCallPairs_def find_missing foldl_set_add_set)
qed


definition open_call :: "string \<Rightarrow> nat \<Rightarrow> responses_input_item list \<Rightarrow> bool" where
  "open_call c i items \<longleftrightarrow>
     (\<exists>a fc b. items = a @ CallItem fc # b \<and> length a = i \<and> fc_call_id fc = c \<and> c \<notin> set (output_ids b))"

definition is_plain :: "responses_input_item \<Rightarrow> bool" where
  "is_plain item \<longleftrightarrow> call_ids [item] = [] \<and> output_ids [item] = []"

lemma item_cases: "is_plain x \<or> (\<exists>fc. x = CallItem fc) \<or> (\<exists>k out. x = FunctionCallOutput k out)"
proof (cases x)
  case (OutputItem y)
  then show ?thesis by (cases y) (simp_all add: is_plain_def)
qed (simp_all add: is_plain_def)

definition sanitize_inv :: "responses_input_item list \<Rightarrow> sanitize_state \<Rightarrow> bool" where
  "sanitize_inv xs st \<longleftrightarrow>
     call_ids (sz_kept st) = call_ids xs \<and> distinct (map fst (sz_pending st)) \<and>
     no_orphans {} (sz_kept st) \<and> subseq (sz_kept st) xs \<and>
     filter is_plain (sz_kept st) = filter is_plain xs \<and>
     (\<forall>c. c \<in> set (output_ids (sz_kept st)) \<longleftrightarrow> answered c xs) \<and>
     (\<forall>c i. map_of (sz_pending st) c = Some i \<longrightarrow> open_call c i (sz_kept st)) \<and>
     (\<forall>c \<in> set (call_ids xs). map_of (sz_pending st) c = None \<longrightarrow> answered c xs)"

lemma open_call_snoc: "open_call c i items \<Longrightarrow> c \<notin> set (output_ids [x]) \<Longrightarrow> open_call c i (items @ [x])"
  unfolding open_call_def
proof (elim exE conjE)
  fix a fc b
  assume "c \<notin> set (output_ids [x])" "items = a @ CallItem fc # b" "length a = i" "fc_call_id fc = c"
    "c \<notin> set (output_ids b)"
  then have "items @ [x] = a @ CallItem fc # (b @ [x]) \<and> length a = i \<and> fc_call_id fc = c \<and>
      c \<notin> set (output_ids (b @ [x]))" by simp
  then show "\<exists>a fc b. items @ [x] = a @ CallItem fc # b \<and> length a = i \<and> fc_call_id fc = c \<and>
      c \<notin> set (output_ids b)" by blast
qed

lemma open_call_new: "open_call (fc_call_id fc) (length items) (items @ [CallItem fc])"
  unfolding open_call_def by fastforce

lemma open_call_called: "open_call c i items \<Longrightarrow> c \<in> set (call_ids items)"
  unfolding open_call_def by fastforce

lemma sanitize_item_call:
  assumes "sanitize_inv xs st"
  shows "sanitize_inv (xs @ [CallItem fc]) (sanitize_item st (CallItem fc))"
proof -
  have o: "open_call c i (sz_kept st @ [CallItem fc])"
    if "map_of (AList.update (fc_call_id fc) (length (sz_kept st)) (sz_pending st)) c = Some i" for c i
    using that assms open_call_snoc [of c i "sz_kept st" "CallItem fc"] open_call_new
    by (auto simp: update_conv sanitize_inv_def split: if_splits)
  show ?thesis
    using assms o unfolding sanitize_inv_def
    by (simp add: no_orphans_snoc answered_snoc distinct_update update_conv list_emb_append_mono is_plain_def)
qed

lemma sanitize_item_output:
  assumes "sanitize_inv xs st"
  shows "sanitize_inv (xs @ [FunctionCallOutput k out]) (sanitize_item st (FunctionCallOutput k out))"
proof (cases "map_of (sz_pending st) k")
  case None
  with assms have "k \<in> set (call_ids xs) \<Longrightarrow> answered k xs" by (auto simp: sanitize_inv_def)
  with None assms show ?thesis
    unfolding sanitize_inv_def by (auto simp: answered_snoc is_plain_def subseq_rev_drop_many)
next
  case (Some i)
  with assms have called: "k \<in> set (call_ids xs)"
    unfolding sanitize_inv_def by (metis open_call_called)
  have o: "open_call c j (sz_kept st @ [FunctionCallOutput k out])"
    if "map_of (AList.delete k (sz_pending st)) c = Some j" for c j
    using that assms open_call_snoc [of c j "sz_kept st" "FunctionCallOutput k out"]
    by (auto simp: delete_conv sanitize_inv_def split: if_splits)
  show ?thesis
    using assms o Some called unfolding sanitize_inv_def
    by (auto simp: no_orphans_snoc answered_snoc distinct_delete delete_conv list_emb_append_mono is_plain_def)
qed

lemma sanitize_item_plain:
  assumes "sanitize_inv xs st" "is_plain x"
  shows "sanitize_inv (xs @ [x]) (sanitize_item st x)"
proof -
  have k: "sanitize_item st x = st\<lparr>sz_kept := sz_kept st @ [x]\<rparr>" and e: "call_ids [x] = []" "output_ids [x] = []"
    using assms(2) by (cases "(st, x)" rule: sanitize_item.cases; simp add: is_plain_def)+
  have o: "open_call c i (sz_kept st @ [x])" if "map_of (sz_pending st) c = Some i" for c i
    using that assms(1) e open_call_snoc [of c i "sz_kept st" x] by (simp add: sanitize_inv_def)
  show ?thesis
    using assms o e unfolding sanitize_inv_def
    by (simp add: k no_orphans_snoc answered_snoc list_emb_append_mono)
qed

lemma sanitize_inv_fold: "sanitize_inv xs (foldl sanitize_item \<lparr>sz_kept = [], sz_pending = [], sz_seen = []\<rparr> xs)"
proof (induction xs rule: rev_induct)
  case Nil
  show ?case by (simp add: sanitize_inv_def no_orphans_Nil)
next
  case (snoc x xs)
  then show ?case
    using sanitize_item_call sanitize_item_output sanitize_item_plain item_cases [of x] by auto
qed


lemma nths_split:
  "nths xs A = a' @ y # b' \<Longrightarrow> \<exists>a b. xs = a @ y # b \<and> nths a A = a'"
proof (induction xs arbitrary: A a')
  case (Cons x xs)
  let ?B = "{j. Suc j \<in> A}"
  have shift: "nths (x # a) A = (if 0 \<in> A then [x] else []) @ nths a ?B" for a
    by (rule nths_Cons)
  show ?case
  proof (cases "0 \<in> A \<and> a' = []")
    case True
    then show ?thesis using Cons.prems by (fastforce simp: shift)
  next
    case False
    then obtain a'' where "nths xs ?B = a'' @ y # b'" "a' = (if 0 \<in> A then [x] else []) @ a''"
      using Cons.prems by (cases a') (auto simp: shift split: if_splits)
    then obtain a b where "xs = a @ y # b" "nths a ?B = a''" using Cons.IH by blast
    then have "x # xs = (x # a) @ y # b \<and> nths (x # a) A = a'"
      using \<open>a' = (if 0 \<in> A then [x] else []) @ a''\<close> by (simp add: shift)
    then show ?thesis by blast
  qed
qed simp

lemma filter_nths:
  "(\<And>i. i < length xs \<Longrightarrow> i \<notin> A \<Longrightarrow> \<not> Q (xs ! i)) \<Longrightarrow> filter Q (nths xs A) = filter Q xs"
proof (induction xs arbitrary: A)
  case (Cons x xs)
  have "filter Q (nths xs {j. Suc j \<in> A}) = filter Q xs"
    using Cons.prems by (intro Cons.IH) force
  moreover have "0 \<notin> A \<Longrightarrow> \<not> Q x" using Cons.prems [of 0] by simp
  ultimately show ?case by (simp add: nths_Cons)
qed simp

lemma set_nths_keep:
  "(\<And>i. i < length xs \<Longrightarrow> xs ! i = y \<Longrightarrow> i \<in> A) \<Longrightarrow> y \<in> set (nths xs A) \<longleftrightarrow> y \<in> set xs"
  by (auto simp: set_nths in_set_conv_nth)

lemma nth_other:
  "(\<exists>j. j < length (a @ z # b) \<and> j \<noteq> length a \<and> (a @ z # b) ! j = y) \<longleftrightarrow> y \<in> set a \<or> y \<in> set b"
  (is "?l \<longleftrightarrow> ?r")
proof
  assume ?l
  then obtain j where j: "j < length (a @ z # b)" "j \<noteq> length a" "(a @ z # b) ! j = y" by blast
  show ?r
  proof (cases "j < length a")
    case False
    with j(2) obtain k where "j = length a + Suc k" by (metis less_imp_Suc_add linorder_neqE_nat add_Suc_right)
    with j show ?thesis by (auto simp: nth_append)
  qed (use j in \<open>auto simp: nth_append\<close>)
next
  assume ?r
  then consider k where "k < length a" "a ! k = y" | k where "k < length b" "b ! k = y"
    by (auto simp: in_set_conv_nth)
  then show ?l
  proof cases
    case (1 k)
    then show ?thesis by (intro exI [of _ k]) (simp add: nth_append)
  next
    case (2 k)
    then show ?thesis by (intro exI [of _ "length a + Suc k"]) (simp add: nth_append)
  qed
qed

lemma count_list_other:
  assumes "items = a @ CallItem fc # b" "fc_call_id fc = c"
  shows "1 < count_list (call_ids items) c \<longleftrightarrow> c \<in> set (call_ids a) \<or> c \<in> set (call_ids b)"
proof -
  have "count_list xs c > 0 \<longleftrightarrow> c \<in> set xs" for xs :: "string list"
    by (simp add: count_list_0_iff neq0_conv [symmetric] del: neq0_conv)
  then have "0 < count_list (call_ids a) c + count_list (call_ids b) c \<longleftrightarrow>
      c \<in> set (call_ids a) \<or> c \<in> set (call_ids b)" by (metis add_gr_0)
  then show ?thesis using assms by simp
qed

text \<open>The positions left unanswered, and the items that remain.\<close>

definition open_positions :: "sanitize_state \<Rightarrow> nat set" where
  "open_positions st = set (map snd (sz_pending st))"

definition remaining :: "sanitize_state \<Rightarrow> responses_input_item list" where
  "remaining st = nths (sz_kept st) (- open_positions st)"

lemma open_position:
  assumes inv: "sanitize_inv xs st" and i: "i \<in> open_positions st"
  shows "\<exists>c. map_of (sz_pending st) c = Some i \<and> open_call c i (sz_kept st)"
proof -
  obtain c where "(c, i) \<in> set (sz_pending st)" using i by (auto simp: open_positions_def)
  then have "map_of (sz_pending st) c = Some i" using inv by (simp add: sanitize_inv_def)
  then show ?thesis using inv by (auto simp: sanitize_inv_def)
qed

lemma open_item:
  assumes inv: "sanitize_inv xs st" and i: "i \<in> open_positions st"
  shows "\<exists>fc. sz_kept st ! i = CallItem fc"
  using open_position [OF inv i] unfolding open_call_def by (metis nth_append_length)

lemma remaining_plain:
  assumes inv: "sanitize_inv xs st"
  shows "filter is_plain (remaining st) = filter is_plain xs"
proof -
  have "filter is_plain (remaining st) = filter is_plain (sz_kept st)"
    unfolding remaining_def by (rule filter_nths) (use open_item [OF inv] in \<open>fastforce simp: is_plain_def\<close>)
  then show ?thesis using inv by (simp add: sanitize_inv_def)
qed

lemma remaining_subseq:
  assumes inv: "sanitize_inv xs st"
  shows "subseq (remaining st) xs"
  unfolding remaining_def using inv subseq_order.trans by (metis sanitize_inv_def subseq_conv_nths)

lemma remaining_outputs:
  assumes inv: "sanitize_inv xs st"
  shows "c \<in> set (output_ids (remaining st)) \<longleftrightarrow> answered c xs"
proof -
  have "c \<in> set (output_ids (remaining st)) \<longleftrightarrow> c \<in> set (output_ids (sz_kept st))"
  proof -
    have "i \<notin> open_positions st" if "sz_kept st ! i = FunctionCallOutput c out" for i out
      using open_item [OF inv, of i] that by auto
    then have "FunctionCallOutput c out \<in> set (nths (sz_kept st) (- open_positions st)) \<longleftrightarrow>
        FunctionCallOutput c out \<in> set (sz_kept st)" for out
      by (intro set_nths_keep) auto
    then show ?thesis unfolding set_output_ids remaining_def by simp
  qed
  then show ?thesis using inv by (simp add: sanitize_inv_def)
qed

lemma remaining_no_orphans:
  assumes inv: "sanitize_inv xs st"
  shows "no_orphans {} (remaining st)"
  unfolding no_orphans_def
proof (intro allI impI)
  fix a' c out b'
  assume "remaining st = a' @ FunctionCallOutput c out # b'"
  then have "nths (sz_kept st) (- open_positions st) = a' @ FunctionCallOutput c out # b'"
    by (simp only: remaining_def)
  from nths_split [OF this]
  obtain a b where ab: "sz_kept st = a @ FunctionCallOutput c out # b" "nths a (- open_positions st) = a'"
    by (elim exE conjE)
  have "no_orphans {} (sz_kept st)" using inv by (simp only: sanitize_inv_def)
  from no_orphansD [OF this ab(1)] have "c \<in> set (call_ids a)" by simp
  then obtain fc where fc: "CallItem fc \<in> set a" "fc_call_id fc = c" unfolding set_call_ids by (elim exE conjE)
  then obtain j where j: "j < length a" "a ! j = CallItem fc" "fc_call_id fc = c"
    by (auto simp: in_set_conv_nth)
  have "j \<notin> open_positions st"
  proof
    assume "j \<in> open_positions st"
    from open_position [OF inv this] obtain d a2 fd b2 where d: "sz_kept st = a2 @ CallItem fd # b2"
      "length a2 = j" "fc_call_id fd = d" "d \<notin> set (output_ids b2)"
      unfolding open_call_def by (elim exE conjE)
    have "CallItem fd = sz_kept st ! j" using d(1,2) by (simp add: nth_append)
    also have "\<dots> = a ! j" using ab(1) j(1) by (simp add: nth_append)
    finally have "CallItem fd = a ! j" .
    then have "d = c" using j d(3) by simp
    moreover have "FunctionCallOutput c out \<in> set b2"
    proof -
      have "b2 = drop (Suc j) (sz_kept st)" using d(1,2) by simp
      also have "\<dots> = drop (Suc j) a @ FunctionCallOutput c out # b" using ab(1) j(1) by simp
      finally show ?thesis by simp
    qed
    ultimately show False using d(4) set_output_ids by blast
  qed
  then have "CallItem fc \<in> set a'" using j ab(2) by (auto simp: set_nths intro!: exI [of _ j])
  then show "c \<in> {} \<union> set (call_ids a')" using j(3) set_call_ids by blast
qed


lemma sanitize_remaining:
  "sanitizeResponsesInputItems xs =
     remaining (foldl sanitize_item \<lparr>sz_kept = [], sz_pending = [], sz_seen = []\<rparr> xs)"
  by (simp add: sanitizeResponsesInputItems_def Let_def remaining_def open_positions_def nths_all)

lemma remaining_calls:
  assumes inv: "sanitize_inv xs st" and c: "c \<in> set (call_ids xs)" "\<not> answered c xs"
  shows "c \<in> set (call_ids (remaining st)) \<longleftrightarrow> 1 < count_list (call_ids xs) c"
proof -
  obtain i where p: "map_of (sz_pending st) c = Some i"
    using inv c unfolding sanitize_inv_def by (cases "map_of (sz_pending st) c") auto
  then obtain a fc b where k: "sz_kept st = a @ CallItem fc # b" "length a = i" "fc_call_id fc = c"
    using inv unfolding sanitize_inv_def open_call_def by blast
  have i: "i \<in> open_positions st" using p unfolding open_positions_def by (force dest: map_of_SomeD)
  have only: "j = i" if "j \<in> open_positions st" "sz_kept st ! j = CallItem fd" "fc_call_id fd = c" for j fd
    using open_position [OF inv that(1)] that(2,3) p unfolding open_call_def
    by (metis nth_append_length option.inject responses_input_item.inject(2) responses_output_history_item.inject(1))
  have "c \<in> set (call_ids (remaining st)) \<longleftrightarrow>
      (\<exists>j fd. j < length (sz_kept st) \<and> j \<noteq> i \<and> sz_kept st ! j = CallItem fd \<and> fc_call_id fd = c)"
    (is "_ \<longleftrightarrow> ?other")
  proof -
    have "CallItem fd \<in> set (nths (sz_kept st) (- open_positions st)) \<longleftrightarrow>
        (\<exists>j. j < length (sz_kept st) \<and> j \<noteq> i \<and> sz_kept st ! j = CallItem fd)" if "fc_call_id fd = c" for fd
      using i only [OF _ _ that] unfolding set_nths by (simp add: set_eq_iff) metis
    then show ?thesis unfolding set_call_ids remaining_def by blast
  qed
  also have "\<dots> \<longleftrightarrow> c \<in> set (call_ids a) \<or> c \<in> set (call_ids b)"
  proof -
    have "(\<exists>j. j < length (sz_kept st) \<and> j \<noteq> i \<and> sz_kept st ! j = y) \<longleftrightarrow> y \<in> set a \<or> y \<in> set b" for y
      using nth_other [of a "CallItem fc" b y] k(1,2) by simp
    then show ?thesis unfolding set_call_ids by blast
  qed
  also have "\<dots> \<longleftrightarrow> 1 < count_list (call_ids xs) c"
    using count_list_other [OF k(1,3)] inv by (simp add: sanitize_inv_def)
  finally show ?thesis .
qed

text \<open>C29: the repaired history passes the check. The items sent are a subsequence of the history, in
  which only calls and outputs are missing; if no id is empty, the check before sending accepts them
  exactly when no id was called twice without an answer.\<close>

theorem sanitized_passes:
  assumes "[] \<notin> set (call_ids xs)" "[] \<notin> set (output_ids xs)"
  shows "subseq (sanitizeResponsesInputItems xs) xs \<and>
    filter is_plain (sanitizeResponsesInputItems xs) = filter is_plain xs \<and>
    (assertResponsesToolCallPairs (sanitizeResponsesInputItems xs) = Inr () \<longleftrightarrow>
     (\<forall>c \<in> set (call_ids xs). count_list (call_ids xs) c = 1 \<or> answered c xs))"
proof -
  let ?r = "sanitizeResponsesInputItems xs"
  note inv = sanitize_inv_fold [of xs]
  have sub: "subseq ?r xs" and plain: "filter is_plain ?r = filter is_plain xs" and no: "no_orphans {} ?r"
    and out: "\<And>c. c \<in> set (output_ids ?r) \<longleftrightarrow> answered c xs"
    unfolding sanitize_remaining
    by (rule remaining_subseq [OF inv] remaining_plain [OF inv] remaining_no_orphans [OF inv]
        remaining_outputs [OF inv])+
  have items: "set ?r \<subseteq> set xs" using list_emb_set [OF sub] by (metis subsetI)
  have ids: "[] \<notin> set (call_ids ?r)" "[] \<notin> set (output_ids ?r)"
    using items assms unfolding set_call_ids set_output_ids by blast+
  have "set (call_ids ?r) \<subseteq> set (output_ids ?r) \<longleftrightarrow>
      (\<forall>c \<in> set (call_ids xs). count_list (call_ids xs) c = 1 \<or> answered c xs)"
  proof -
    have "count_list (call_ids xs) c = 1 \<longleftrightarrow> \<not> 1 < count_list (call_ids xs) c" if "c \<in> set (call_ids xs)" for c
      using that count_list_0_iff [of "call_ids xs" c] by linarith
    moreover have "c \<in> set (call_ids ?r) \<Longrightarrow> c \<in> set (call_ids xs)" for c
      using items unfolding set_call_ids by blast
    ultimately show ?thesis
      using remaining_calls [OF inv] out unfolding sanitize_remaining [symmetric] subset_iff by metis
  qed
  then show ?thesis using sub plain no ids by (simp add: assert_pairs_iff)
qed


definition sample_call_item :: "string \<Rightarrow> responses_input_item" where
  "sample_call_item c = CallItem \<lparr>fc_id = None, fc_call_id = c, fc_name = ''list_dir'', fc_arguments = ''{}'',
     fc_status = None\<rparr>"

theorem sanitized_passes_witness:
  "sanitizeResponsesInputItems [sample_call_item ''a'', FunctionCallOutput ''b'' ''x'',
     FunctionCallOutput ''a'' ''y'', sample_call_item ''d''] =
     [sample_call_item ''a'', FunctionCallOutput ''a'' ''y''] \<and>
   assertResponsesToolCallPairs (sanitizeResponsesInputItems [sample_call_item ''a'',
     FunctionCallOutput ''b'' ''x'', FunctionCallOutput ''a'' ''y'', sample_call_item ''d'']) = Inr ()"
  using sanitized_passes [of "[sample_call_item ''a'', FunctionCallOutput ''b'' ''x'',
     FunctionCallOutput ''a'' ''y'', sample_call_item ''d'']"]
  by (simp add: sample_call_item_def sanitizeResponsesInputItems_def set_add_def nths_Cons)

text \<open>an id that was called twice and never answered. The repair removes only the second call,
  and the check then refuses the request.\<close>

theorem duplicate_call_refused:
  "assertResponsesToolCallPairs (sanitizeResponsesInputItems [sample_call_item ''a'', sample_call_item ''a'']) =
     Inl ''responses_function_call_output_missing:a''"
  by (simp add: sample_call_item_def sanitizeResponsesInputItems_def set_add_def nths_Cons
      assertResponsesToolCallPairs_def)

end
