(* ===== verification/Agent_Calls.thy ===== *)
theory Agent_Calls
  imports Agent_Responses
begin

text \<open>
  The function calls of an answer of the Responses interface, from
  \<^verbatim>\<open>features/playground/index.tsx\<close>: the events that carry them, the accumulators that
  assemble their arguments, and the tool calls read from them. An accumulator is an object that two
  maps share, one by item id and one by call id: the model has a heap of accumulators, and the maps
  hold addresses.
\<close>

section \<open>Events\<close>

datatype item_arguments = ArgText string | ArgObject "(string \<times> json) list"

text \<open>An item of an answer; of the parts of its content only the optional texts matter.\<close>

record responses_item =
  ri_type :: "string option"
  ri_id :: "string option"
  ri_call_id :: "string option"
  ri_name :: "string option"
  ri_arguments :: "item_arguments option"
  ri_summary :: "string list option"
  ri_encrypted_content :: "string option"
  ri_content :: "string option list option"

text \<open>Of an error only the presence of the object and its optional message matter.\<close>

record responses_body =
  rb_output :: "responses_item list option"
  rb_error :: "string option option"

record responses_stream_event =
  ev_type :: "string option"
  ev_delta :: "string option"
  ev_item_id :: "string option"
  ev_call_id :: "string option"
  ev_arguments :: "item_arguments option"
  ev_item :: "responses_item option"
  ev_part :: "string option option"
  ev_response :: "responses_body option"
  ev_error :: "string option option"

definition body_output :: "responses_stream_event \<Rightarrow> responses_item list" where
  "body_output event =
     (case ev_response event of
        None \<Rightarrow> []
      | Some body \<Rightarrow> (case rb_output body of None \<Rightarrow> [] | Some items \<Rightarrow> items))"

definition item_texts :: "responses_item \<Rightarrow> string list" where
  "item_texts item = (case ri_content item of None \<Rightarrow> [] | Some parts \<Rightarrow> map (\<lambda>t. text_or t []) parts)"

definition extractResponsesOutputText :: "responses_stream_event \<Rightarrow> string" where
  "extractResponsesOutputText event = concat (concat (map item_texts (body_output event)))"

definition extractResponsesItemText :: "responses_stream_event \<Rightarrow> string" where
  "extractResponsesItemText event =
     concat ((case ev_item event of None \<Rightarrow> [] | Some item \<Rightarrow> item_texts item) @
       [case ev_part event of None \<Rightarrow> [] | Some t \<Rightarrow> text_or t []])"

section \<open>Tool calls\<close>

definition parseResponsesToolArguments :: "item_arguments option \<Rightarrow> json" where
  "parseResponsesToolArguments v =
     (case v of
        None \<Rightarrow> JObj []
      | Some (ArgObject ms) \<Rightarrow> JObj ms
      | Some (ArgText s) \<Rightarrow>
          if s = [] then JObj []
          else (case json_parse s of Some (JObj ms) \<Rightarrow> JObj ms | Some (JArr vs) \<Rightarrow> JArr vs | _ \<Rightarrow> JObj []))"

definition numberArg :: "json option \<Rightarrow> rat option" where
  "numberArg v = (case v of None \<Rightarrow> None | Some j \<Rightarrow> number_of_json j)"

definition stringArg :: "json option \<Rightarrow> string option" where
  "stringArg v = (case v of Some (JStr s) \<Rightarrow> Some s | _ \<Rightarrow> None)"

text \<open>The numbers of a call are integers, as the schemas of the tools declare; a fraction is rounded
  down.\<close>

definition int_arg :: "rat option \<Rightarrow> int option" where
  "int_arg v = map_option floor v"

definition json_edits :: "json option \<Rightarrow> agent_batch_edit list option" where
  "json_edits v =
     (case v of
        Some (JArr es) \<Rightarrow>
          Some (filter (\<lambda>e. be_find e \<noteq> [])
            (map (\<lambda>e. \<lparr>be_find = text_or (stringArg (json_get e ''find'')) [],
                        be_replace = text_or (stringArg (json_get e ''replace'')) []\<rparr>)
              (filter (\<lambda>e. case e of JObj _ \<Rightarrow> True | JArr _ \<Rightarrow> True | _ \<Rightarrow> False) es)))
      | _ \<Rightarrow> None)"

definition parseResponsesToolCallItem :: "responses_item option \<Rightarrow> agent_tool_call option" where
  "parseResponsesToolCallItem optItem =
     (case optItem of
        None \<Rightarrow> None
      | Some item \<Rightarrow>
          if ri_type item \<noteq> Some ''function_call'' then None
          else
            (case ri_name item of
               None \<Rightarrow> None
             | Some tool \<Rightarrow>
                 if tool \<notin> set AGENT_TOOL_NAMES then None
                 else
                   (let arg = json_get (parseResponsesToolArguments (ri_arguments item));
                        timeout = numberArg (arg ''timeoutMs'') in
                    Some \<lparr>tc_id = js_or (ri_call_id item) (ri_id item), tc_tool = tool,
                      tc_path = Some (text_or (stringArg (arg ''path'')) ''.''),
                      tc_cwd = stringArg (arg ''cwd''), tc_command = stringArg (arg ''command''),
                      tc_content = stringArg (arg ''content''), tc_query = stringArg (arg ''query''),
                      tc_start = int_arg (numberArg (arg ''start'')),
                      tc_end = int_arg (numberArg (arg ''end'')),
                      tc_maxBytes = int_arg (numberArg (arg ''maxBytes'')),
                      tc_maxResults = int_arg (numberArg (arg ''maxResults'')),
                      tc_timeoutMs = int_arg (if timeout = None \<or> timeout = Some 0
                                              then numberArg (arg ''timeout_ms'') else timeout),
                      tc_edits = json_edits (arg ''edits'')\<rparr>)))"

section \<open>Accumulators\<close>

record function_call_accumulator =
  ac_id :: "string option"
  ac_callId :: "string option"
  ac_name :: "string option"
  ac_arguments :: string
  ac_done :: bool

record calls_state =
  cs_heap :: "function_call_accumulator list"
  cs_byItemId :: "(string \<times> nat) list"
  cs_byCallId :: "(string \<times> nat) list"

definition no_calls :: calls_state where
  "no_calls = \<lparr>cs_heap = [], cs_byItemId = [], cs_byCallId = []\<rparr>"

text \<open>The accumulator found by item id, else by call id.\<close>

definition find_call :: "calls_state \<Rightarrow> string option \<Rightarrow> string option \<Rightarrow> nat option" where
  "find_call cs itemId callId =
     (case Option.bind itemId (map_of (cs_byItemId cs)) of
        Some a \<Rightarrow> Some a
      | None \<Rightarrow> Option.bind callId (map_of (cs_byCallId cs)))"

text \<open>Find or allocate the accumulator, update it in place and register it under its ids.\<close>

definition register :: "string option \<Rightarrow> nat \<Rightarrow> (string \<times> nat) list \<Rightarrow> (string \<times> nat) list" where
  "register key a m = (case js_or key None of None \<Rightarrow> m | Some k \<Rightarrow> AList.update k a m)"

definition with_call ::
  "calls_state \<Rightarrow> string option \<Rightarrow> string option \<Rightarrow>
   (function_call_accumulator \<Rightarrow> function_call_accumulator) \<Rightarrow> calls_state" where
  "with_call cs itemId callId f =
     (let blank = \<lparr>ac_id = None, ac_callId = None, ac_name = None, ac_arguments = [], ac_done = False\<rparr>;
          (a, heap) = (case find_call cs itemId callId of
              Some a \<Rightarrow> (a, cs_heap cs) | None \<Rightarrow> (length (cs_heap cs), cs_heap cs @ [blank]));
          old = heap ! a;
          new = f (old\<lparr>ac_id := js_or itemId (ac_id old), ac_callId := js_or callId (ac_callId old)\<rparr>)
      in \<lparr>cs_heap = heap[a := new], cs_byItemId = register (ac_id new) a (cs_byItemId cs),
           cs_byCallId = register (ac_callId new) a (cs_byCallId cs)\<rparr>)"

definition arguments_text :: "item_arguments option \<Rightarrow> string" where
  "arguments_text v =
     (case v of None \<Rightarrow> [] | Some (ArgText s) \<Rightarrow> s | Some (ArgObject ms) \<Rightarrow> json_stringify (JObj ms))"

definition set_arguments :: "item_arguments option \<Rightarrow> function_call_accumulator \<Rightarrow> function_call_accumulator" where
  "set_arguments v ac = (if arguments_text v = [] then ac else ac\<lparr>ac_arguments := arguments_text v\<rparr>)"

definition mergeResponsesFunctionCallItem ::
  "calls_state \<Rightarrow> responses_item option \<Rightarrow> bool \<Rightarrow> calls_state" where
  "mergeResponsesFunctionCallItem cs optItem isDone =
     (case optItem of
        None \<Rightarrow> cs
      | Some item \<Rightarrow>
          (let itemId = js_or (ri_id item) None; callId = js_or (ri_call_id item) None in
           if ri_type item \<noteq> Some ''function_call'' \<or> (itemId = None \<and> callId = None) then cs
           else with_call cs itemId callId (\<lambda>ac.
             let ac' = set_arguments (ri_arguments item) (ac\<lparr>ac_name := js_or (ri_name item) (ac_name ac)\<rparr>)
             in ac'\<lparr>ac_done := ac_done ac' \<or> isDone\<rparr>)))"

definition appendResponsesFunctionCallArgumentsDelta ::
  "calls_state \<Rightarrow> responses_stream_event \<Rightarrow> calls_state" where
  "appendResponsesFunctionCallArgumentsDelta cs event =
     (let itemId = js_or (ev_item_id event) None; callId = js_or (ev_call_id event) None in
      if itemId = None \<and> callId = None then cs
      else with_call cs itemId callId (\<lambda>ac.
        set_arguments (ev_arguments event)
          (case ev_delta event of None \<Rightarrow> ac | Some d \<Rightarrow> ac\<lparr>ac_arguments := ac_arguments ac @ d\<rparr>)))"

definition markResponsesFunctionCallArgumentsDone ::
  "calls_state \<Rightarrow> responses_stream_event \<Rightarrow> calls_state" where
  "markResponsesFunctionCallArgumentsDone cs event =
     (let cs' = appendResponsesFunctionCallArgumentsDelta cs event in
      case find_call cs' (js_or (ev_item_id event) None) (js_or (ev_call_id event) None) of
        None \<Rightarrow> cs'
      | Some a \<Rightarrow> cs'\<lparr>cs_heap := (cs_heap cs')[a := (cs_heap cs' ! a)\<lparr>ac_done := True\<rparr>]\<rparr>)"

definition completed_item :: "function_call_accumulator \<Rightarrow> responses_function_call_item option" where
  "completed_item ac =
     (case (js_or (ac_callId ac) None, js_or (ac_name ac) None) of
        (Some c, Some n) \<Rightarrow>
          if ac_done ac
          then Some \<lparr>fc_id = ac_id ac, fc_call_id = c, fc_name = n,
            fc_arguments = (if ac_arguments ac = [] then ''{}'' else ac_arguments ac),
            fc_status = Some ''completed''\<rparr>
          else None
      | _ \<Rightarrow> None)"

definition getCompletedResponsesFunctionCallItems :: "calls_state \<Rightarrow> responses_function_call_item list" where
  "getCompletedResponsesFunctionCallItems cs =
     List.map_filter (\<lambda>(_, a). completed_item (cs_heap cs ! a)) (cs_byCallId cs)"

definition call_of_item :: "responses_function_call_item \<Rightarrow> agent_tool_call option" where
  "call_of_item fc = parseResponsesToolCallItem (Some
     \<lparr>ri_type = Some ''function_call'', ri_id = fc_id fc, ri_call_id = Some (fc_call_id fc),
       ri_name = Some (fc_name fc), ri_arguments = Some (ArgText (fc_arguments fc)),
       ri_summary = None, ri_encrypted_content = None, ri_content = None\<rparr>)"

definition getCompletedResponsesToolCalls :: "calls_state \<Rightarrow> agent_tool_call list" where
  "getCompletedResponsesToolCalls cs =
     List.map_filter call_of_item (getCompletedResponsesFunctionCallItems cs)"

definition parseResponsesReasoningItem ::
  "responses_item option \<Rightarrow> responses_reasoning_output_item option" where
  "parseResponsesReasoningItem optItem =
     (case optItem of
        None \<Rightarrow> None
      | Some item \<Rightarrow>
          if ri_type item \<noteq> Some ''reasoning'' then None
          else map_option (\<lambda>e. \<lparr>ro_summary = Some (case ri_summary item of None \<Rightarrow> [] | Some s \<Rightarrow> s),
            ro_encrypted_content = Some e, ro_content = None, ro_status = None\<rparr>)
            (js_or (ri_encrypted_content item) None))"

definition appendUniqueReasoningItem ::
  "responses_reasoning_output_item list \<Rightarrow> responses_reasoning_output_item option \<Rightarrow>
   responses_reasoning_output_item list" where
  "appendUniqueReasoningItem items optItem =
     (case optItem of
        None \<Rightarrow> items
      | Some item \<Rightarrow>
          if js_or (ro_encrypted_content item) None = None then items
          else if \<exists>x \<in> set items. ro_encrypted_content x = ro_encrypted_content item then items
          else items @ [item])"


section \<open>Interleaved calls are kept apart\<close>

text \<open>The specification: a call of the answer is known by its item id, its call id and its name, and the
  events of several calls may come in any order. An event of an item carries all three and possibly
  the whole arguments; the deltas and the end of the arguments carry the item id only.\<close>

record call_key =
  ck_item :: string
  ck_call :: string
  ck_name :: string

datatype call_event =
    ItemAdded (event_key: call_key) string
  | ArgumentsDelta (event_key: call_key) string
  | ArgumentsDone (event_key: call_key) string
  | ItemDone (event_key: call_key) string

definition key_item :: "call_key \<Rightarrow> string \<Rightarrow> responses_item" where
  "key_item k args =
     \<lparr>ri_type = Some ''function_call'', ri_id = Some (ck_item k), ri_call_id = Some (ck_call k),
       ri_name = Some (ck_name k), ri_arguments = Some (ArgText args), ri_summary = None,
       ri_encrypted_content = None, ri_content = None\<rparr>"

definition key_event :: "call_key \<Rightarrow> string option \<Rightarrow> item_arguments option \<Rightarrow> responses_stream_event" where
  "key_event k delta args =
     \<lparr>ev_type = None, ev_delta = delta, ev_item_id = Some (ck_item k), ev_call_id = None,
       ev_arguments = args, ev_item = None, ev_part = None, ev_response = None, ev_error = None\<rparr>"

fun apply_event :: "calls_state \<Rightarrow> call_event \<Rightarrow> calls_state" where
  "apply_event cs (ItemAdded k args) = mergeResponsesFunctionCallItem cs (Some (key_item k args)) False"
| "apply_event cs (ArgumentsDelta k d) =
     appendResponsesFunctionCallArgumentsDelta cs (key_event k (Some d) None)"
| "apply_event cs (ArgumentsDone k args) =
     markResponsesFunctionCallArgumentsDone cs (key_event k None (Some (ArgText args)))"
| "apply_event cs (ItemDone k args) = mergeResponsesFunctionCallItem cs (Some (key_item k args)) True"

text \<open>What one call should become, from its own events alone.\<close>

fun next_arguments :: "string \<Rightarrow> call_event \<Rightarrow> string" where
  "next_arguments acc (ArgumentsDelta k d) = acc @ d"
| "next_arguments acc (ItemAdded k args) = (if args = [] then acc else args)"
| "next_arguments acc (ArgumentsDone k args) = (if args = [] then acc else args)"
| "next_arguments acc (ItemDone k args) = (if args = [] then acc else args)"

fun names_call :: "call_event \<Rightarrow> bool" where
  "names_call (ItemAdded k args) = True"
| "names_call (ItemDone k args) = True"
| "names_call _ = False"

fun ends_call :: "call_event \<Rightarrow> bool" where
  "ends_call (ItemDone k args) = True"
| "ends_call (ArgumentsDone k args) = True"
| "ends_call _ = False"

definition events_of :: "call_key \<Rightarrow> call_event list \<Rightarrow> call_event list" where
  "events_of k evs = filter (\<lambda>e. event_key e = k) evs"

definition spec_arguments :: "call_event list \<Rightarrow> call_key \<Rightarrow> string" where
  "spec_arguments evs k = foldl next_arguments [] (events_of k evs)"

definition spec_order :: "call_event list \<Rightarrow> call_key list" where
  "spec_order evs = js_set (map event_key (filter names_call evs))"

definition spec_items :: "call_event list \<Rightarrow> responses_function_call_item list" where
  "spec_items evs =
     map (\<lambda>k. \<lparr>fc_id = Some (ck_item k), fc_call_id = ck_call k, fc_name = ck_name k,
         fc_arguments = (if spec_arguments evs k = [] then ''{}'' else spec_arguments evs k),
         fc_status = Some ''completed''\<rparr>)
       (filter (\<lambda>k. \<exists>e \<in> set (events_of k evs). ends_call e) (spec_order evs))"

definition wf_keys :: "call_key set \<Rightarrow> bool" where
  "wf_keys U \<longleftrightarrow> inj_on ck_item U \<and> inj_on ck_call U \<and>
     (\<forall>k \<in> U. ck_item k \<noteq> [] \<and> ck_call k \<noteq> [] \<and> ck_name k \<noteq> [])"

text \<open>The accumulator that the events of a call should leave, and the relation between the heap with its
  two maps and the specification.\<close>

definition spec_accumulator :: "call_event list \<Rightarrow> call_key \<Rightarrow> function_call_accumulator" where
  "spec_accumulator evs k =
     (let named = k \<in> set (spec_order evs) in
      \<lparr>ac_id = Some (ck_item k), ac_callId = (if named then Some (ck_call k) else None),
        ac_name = (if named then Some (ck_name k) else None), ac_arguments = spec_arguments evs k,
        ac_done = (\<exists>e \<in> set (events_of k evs). ends_call e)\<rparr>)"

definition calls_rel :: "(call_key \<Rightarrow> nat) \<Rightarrow> call_event list \<Rightarrow> calls_state \<Rightarrow> bool" where
  "calls_rel addr evs cs \<longleftrightarrow>
     inj_on addr (event_key ` set evs) \<and>
     (\<forall>k \<in> event_key ` set evs. addr k < length (cs_heap cs) \<and>
        cs_heap cs ! addr k = spec_accumulator evs k \<and> map_of (cs_byItemId cs) (ck_item k) = Some (addr k)) \<and>
     fst ` set (cs_byItemId cs) \<subseteq> ck_item ` event_key ` set evs \<and>
     cs_byCallId cs = map (\<lambda>k. (ck_call k, addr k)) (spec_order evs)"


definition event_update :: "call_event \<Rightarrow> function_call_accumulator \<Rightarrow> function_call_accumulator" where
  "event_update e ac =
     ac\<lparr>ac_name := (if names_call e then Some (ck_name (event_key e)) else ac_name ac),
        ac_arguments := next_arguments (ac_arguments ac) e, ac_done := ac_done ac \<or> ends_call e\<rparr>"

definition event_call_id :: "call_event \<Rightarrow> string option" where
  "event_call_id e = (if names_call e then Some (ck_call (event_key e)) else None)"

lemma with_call_mark:
  assumes "i \<noteq> []" "\<And>a. find_call cs (Some i) c = Some a \<Longrightarrow> a < length (cs_heap cs)"
    and "\<And>ac. ac_id (f ac) = ac_id ac"
  shows "(let cs' = with_call cs (Some i) c f in
      case find_call cs' (Some i) c of
        None \<Rightarrow> cs'
      | Some a \<Rightarrow> cs'\<lparr>cs_heap := (cs_heap cs')[a := (cs_heap cs' ! a)\<lparr>ac_done := True\<rparr>]\<rparr>) =
    with_call cs (Some i) c (\<lambda>ac. (f ac)\<lparr>ac_done := True\<rparr>)"
proof -
  have found: "find_call (with_call cs (Some i) c g) (Some i) c =
      Some (case find_call cs (Some i) c of Some a \<Rightarrow> a | None \<Rightarrow> length (cs_heap cs))"
    if "\<And>ac. ac_id (g ac) = ac_id ac" for g
    using assms(1) that
    by (auto simp: with_call_def find_call_def Let_def register_def update_conv split: option.split)
  show ?thesis
    unfolding Let_def found [OF assms(3)]
    using assms by (auto simp: with_call_def Let_def split: option.split)
qed

lemma apply_event_with:
  assumes "wf_keys U" "event_key e \<in> U"
    and "\<And>a. find_call cs (Some (ck_item (event_key e))) None = Some a \<Longrightarrow> a < length (cs_heap cs)"
  shows "apply_event cs e =
    with_call cs (Some (ck_item (event_key e))) (event_call_id e) (event_update e)"
proof -
  let ?k = "event_key e"
  have ne: "ck_item ?k \<noteq> []" "ck_call ?k \<noteq> []" "ck_name ?k \<noteq> []" using assms(1,2) by (auto simp: wf_keys_def)
  show ?thesis
  proof (cases e)
    case (ArgumentsDone k args)
    let ?f = "set_arguments (Some (ArgText args))"
    have "ac_id (?f ac) = ac_id ac" for ac by (simp add: set_arguments_def)
    with with_call_mark [of "ck_item k" cs None ?f] assms(3) ne ArgumentsDone
    have "apply_event cs e = with_call cs (Some (ck_item k)) None (\<lambda>ac. (?f ac)\<lparr>ac_done := True\<rparr>)"
      by (simp add: markResponsesFunctionCallArgumentsDone_def key_event_def Let_def
          appendResponsesFunctionCallArgumentsDelta_def)
    moreover have "(\<lambda>ac. (?f ac)\<lparr>ac_done := True\<rparr>) = event_update e"
      using ArgumentsDone by (auto simp: fun_eq_iff event_update_def set_arguments_def arguments_text_def)
    ultimately show ?thesis using ArgumentsDone by (simp add: event_call_id_def)
  next
    case (ArgumentsDelta k d)
    have "event_update e = (\<lambda>ac. set_arguments None (ac\<lparr>ac_arguments := ac_arguments ac @ d\<rparr>))"
      using ArgumentsDelta by (auto simp: fun_eq_iff event_update_def set_arguments_def arguments_text_def)
    then show ?thesis using ArgumentsDelta ne
      by (simp add: appendResponsesFunctionCallArgumentsDelta_def key_event_def event_call_id_def Let_def)
  next
    case (ItemAdded k args)
    have "event_update e = (\<lambda>ac. let ac' = set_arguments (Some (ArgText args))
        (ac\<lparr>ac_name := Some (ck_name k)\<rparr>) in ac'\<lparr>ac_done := ac_done ac' \<or> False\<rparr>)"
      using ItemAdded by (auto simp: fun_eq_iff event_update_def set_arguments_def arguments_text_def Let_def)
    then show ?thesis using ItemAdded ne
      by (simp add: mergeResponsesFunctionCallItem_def key_item_def event_call_id_def Let_def)
  next
    case (ItemDone k args)
    have "event_update e = (\<lambda>ac. let ac' = set_arguments (Some (ArgText args))
        (ac\<lparr>ac_name := Some (ck_name k)\<rparr>) in ac'\<lparr>ac_done := ac_done ac' \<or> True\<rparr>)"
      using ItemDone by (auto simp: fun_eq_iff event_update_def set_arguments_def arguments_text_def Let_def)
    then show ?thesis using ItemDone ne
      by (simp add: mergeResponsesFunctionCallItem_def key_item_def event_call_id_def Let_def)
  qed
qed


lemma spec_order_snoc:
  "spec_order (evs @ [e]) = (if names_call e then set_add (spec_order evs) (event_key e) else spec_order evs)"
  by (simp add: spec_order_def js_set_def)

lemma spec_order_keys: "k \<in> set (spec_order evs) \<Longrightarrow> k \<in> event_key ` set evs"
  by (auto simp: spec_order_def)

lemma events_of_snoc: "events_of k (evs @ [e]) = events_of k evs @ (if event_key e = k then [e] else [])"
  by (simp add: events_of_def)

lemma spec_arguments_snoc:
  "spec_arguments (evs @ [e]) k =
     (if event_key e = k then next_arguments (spec_arguments evs k) e else spec_arguments evs k)"
  by (simp add: spec_arguments_def events_of_snoc)

lemma spec_accumulator_other:
  "event_key e \<noteq> k \<Longrightarrow> spec_accumulator (evs @ [e]) k = spec_accumulator evs k"
  by (simp add: spec_accumulator_def spec_order_snoc spec_arguments_snoc events_of_snoc Let_def)

lemma spec_accumulator_event:
  assumes "ck_item (event_key e) \<noteq> []" "ck_call (event_key e) \<noteq> []"
  shows "event_update e ((spec_accumulator evs (event_key e))
      \<lparr>ac_callId := js_or (event_call_id e) (ac_callId (spec_accumulator evs (event_key e)))\<rparr>) =
    spec_accumulator (evs @ [e]) (event_key e)"
  using assms
  by (auto simp: spec_accumulator_def event_update_def event_call_id_def spec_order_snoc
      spec_arguments_snoc events_of_snoc Let_def set_add_def)

lemma spec_accumulator_fresh:
  assumes "k \<notin> event_key ` set evs"
  shows "spec_accumulator evs k =
    \<lparr>ac_id = Some (ck_item k), ac_callId = None, ac_name = None, ac_arguments = [], ac_done = False\<rparr>"
proof -
  have "events_of k evs = []" using assms by (auto simp: events_of_def filter_empty_conv)
  moreover have "k \<notin> set (spec_order evs)" using assms spec_order_keys by blast
  ultimately show ?thesis by (simp add: spec_accumulator_def spec_arguments_def Let_def)
qed

lemma update_ordered:
  assumes "inj_on ck_call (insert k (set ks))"
  shows "AList.update (ck_call k) (addr k) (map (\<lambda>k. (ck_call k, addr k)) ks) =
    map (\<lambda>k. (ck_call k, addr k)) (set_add ks k)"
  using assms
proof (induction ks)
  case (Cons x ks)
  then have "inj_on ck_call (insert k (set ks))" by (auto intro: inj_on_subset)
  moreover have "ck_call x = ck_call k \<longleftrightarrow> x = k" using Cons.prems by (auto simp: inj_on_def)
  ultimately show ?case using Cons.IH by (auto simp: set_add_def)
qed (simp add: set_add_def)

lemma register_call:
  assumes "wf_keys U" "event_key e \<in> U" "event_key ` set evs \<subseteq> U"
  shows "register (ac_callId (spec_accumulator (evs @ [e]) (event_key e))) (addr (event_key e))
      (map (\<lambda>k. (ck_call k, addr k)) (spec_order evs)) =
    map (\<lambda>k. (ck_call k, addr k)) (spec_order (evs @ [e]))"
proof -
  let ?k = "event_key e"
  have "insert ?k (set (spec_order evs)) \<subseteq> U" using assms spec_order_keys by blast
  then have "inj_on ck_call (insert ?k (set (spec_order evs)))"
    using assms(1) inj_on_subset unfolding wf_keys_def by blast
  note u = update_ordered [OF this]
  have "ck_call ?k \<noteq> []" using assms by (auto simp: wf_keys_def)
  then show ?thesis
    using u [of addr] by (auto simp: spec_accumulator_def register_def spec_order_snoc Let_def set_add_def)
qed

lemma find_call_known:
  assumes "calls_rel addr evs cs" "k \<in> event_key ` set evs"
  shows "find_call cs (Some (ck_item k)) c = Some (addr k)"
proof -
  have "map_of (cs_byItemId cs) (ck_item k) = Some (addr k)"
    using assms unfolding calls_rel_def by blast
  then show ?thesis by (simp add: find_call_def)
qed

lemma find_call_fresh:
  assumes "calls_rel addr evs cs" "wf_keys U" "event_key e \<in> U" "event_key ` set evs \<subseteq> U"
    and "event_key e \<notin> event_key ` set evs"
  shows "find_call cs (Some (ck_item (event_key e))) (event_call_id e) = None"
proof -
  let ?k = "event_key e"
  have "map_of (cs_byItemId cs) (ck_item ?k) = None"
  proof -
    have "ck_item ?k \<notin> ck_item ` event_key ` set evs"
      using assms(2-5) inj_on_image_mem_iff [of ck_item U ?k "event_key ` set evs"]
      unfolding wf_keys_def by blast
    then show ?thesis using assms(1) unfolding calls_rel_def by (auto simp: map_of_eq_None_iff)
  qed
  moreover have "map_of (cs_byCallId cs) (ck_call ?k) = None"
  proof -
    have "?k \<notin> set (spec_order evs)" "set (spec_order evs) \<subseteq> U" using assms(4,5) spec_order_keys by blast+
    then have "ck_call ?k \<notin> ck_call ` set (spec_order evs)"
      using assms(2,3) inj_on_image_mem_iff [of ck_call U ?k "set (spec_order evs)"]
      unfolding wf_keys_def by blast
    then show ?thesis using assms(1) unfolding calls_rel_def by (auto simp: map_of_eq_None_iff)
  qed
  ultimately show ?thesis by (simp add: find_call_def event_call_id_def)
qed


lemma map_of_update_same: "map_of m k = Some v \<Longrightarrow> fst ` set (AList.update k v m) = fst ` set m"
  by (simp add: dom_update [simplified dom_map_of_conv_image_fst]) (force dest: map_of_SomeD)

lemma calls_rel_known:
  assumes rel: "calls_rel addr evs cs" and U: "wf_keys U" "event_key e \<in> U" "event_key ` set evs \<subseteq> U"
    and known: "event_key e \<in> event_key ` set evs"
  shows "calls_rel addr (evs @ [e]) (apply_event cs e)"
proof -
  let ?k = "event_key e" and ?i = "Some (ck_item (event_key e))" and ?a = "addr (event_key e)"
  have ne: "ck_item ?k \<noteq> []" "ck_call ?k \<noteq> []" using U by (auto simp: wf_keys_def)
  have a: "?a < length (cs_heap cs)" "cs_heap cs ! ?a = spec_accumulator evs ?k"
    "map_of (cs_byItemId cs) (ck_item ?k) = Some ?a"
    using rel known unfolding calls_rel_def by blast+
  have f: "find_call cs ?i c = Some ?a" for c by (rule find_call_known [OF rel known])
  let ?new = "spec_accumulator (evs @ [e]) ?k"
  have i: "ac_id ?new = ?i" by (simp add: spec_accumulator_def Let_def)
  have "(spec_accumulator evs ?k)\<lparr>ac_id := ?i\<rparr> = spec_accumulator evs ?k"
    by (simp add: spec_accumulator_def Let_def)
  then have new: "event_update e ((spec_accumulator evs ?k)\<lparr>ac_id := ?i,
      ac_callId := js_or (event_call_id e) (ac_callId (spec_accumulator evs ?k))\<rparr>) = ?new"
    using spec_accumulator_event [OF ne, of evs] by simp
  have "apply_event cs e = with_call cs ?i (event_call_id e) (event_update e)"
    by (rule apply_event_with [OF U(1,2)]) (simp add: f a)
  then have "apply_event cs e = \<lparr>cs_heap = (cs_heap cs)[?a := ?new],
      cs_byItemId = AList.update (ck_item ?k) ?a (cs_byItemId cs),
      cs_byCallId = register (ac_callId ?new) ?a (cs_byCallId cs)\<rparr>"
    using ne i by (simp add: with_call_def f a(2) new register_def Let_def)
  moreover have "event_key ` set (evs @ [e]) = event_key ` set evs" using known by auto
  moreover have "(cs_heap cs)[?a := ?new] ! addr k = spec_accumulator (evs @ [e]) k"
    if "k \<in> event_key ` set evs" for k
  proof (cases "k = ?k")
    case False
    then have "addr k \<noteq> ?a" using rel that known unfolding calls_rel_def inj_on_def by blast
    then show ?thesis using rel that False spec_accumulator_other [of e k evs]
      by (auto simp: calls_rel_def)
  qed (use a in simp)
  moreover have "fst ` set (AList.update (ck_item ?k) ?a (cs_byItemId cs)) = fst ` set (cs_byItemId cs)"
    by (rule map_of_update_same [OF a(3)])
  moreover have "cs_byCallId cs = map (\<lambda>k. (ck_call k, addr k)) (spec_order evs)"
    using rel by (simp add: calls_rel_def)
  ultimately show ?thesis
    using rel register_call [OF U] a(3) unfolding calls_rel_def by (auto simp: update_conv)
qed


lemma calls_rel_fresh:
  assumes rel: "calls_rel addr evs cs" and U: "wf_keys U" "event_key e \<in> U" "event_key ` set evs \<subseteq> U"
    and fresh: "event_key e \<notin> event_key ` set evs"
  shows "calls_rel (addr(event_key e := length (cs_heap cs))) (evs @ [e]) (apply_event cs e)"
proof -
  let ?k = "event_key e" and ?i = "Some (ck_item (event_key e))" and ?a = "length (cs_heap cs)"
  let ?addr = "addr(?k := ?a)" and ?new = "spec_accumulator (evs @ [e]) ?k"
  have ne: "ck_item ?k \<noteq> []" "ck_call ?k \<noteq> []" using U by (auto simp: wf_keys_def)
  have f: "find_call cs ?i (event_call_id e) = None" by (rule find_call_fresh [OF rel U fresh])
  then have none: "find_call cs ?i None = None" by (simp add: find_call_def split: option.splits)
  have i: "ac_id ?new = ?i" by (simp add: spec_accumulator_def Let_def)
  have new: "event_update e \<lparr>ac_id = ?i, ac_callId = js_or (event_call_id e) None, ac_name = None,
      ac_arguments = [], ac_done = False\<rparr> = ?new"
    using spec_accumulator_event [OF ne, of evs] by (simp add: spec_accumulator_fresh [OF fresh])
  have "apply_event cs e = with_call cs ?i (event_call_id e) (event_update e)"
    by (rule apply_event_with [OF U(1,2)]) (simp add: none)
  then have app: "apply_event cs e = \<lparr>cs_heap = cs_heap cs @ [?new],
      cs_byItemId = AList.update (ck_item ?k) ?a (cs_byItemId cs),
      cs_byCallId = register (ac_callId ?new) ?a (cs_byCallId cs)\<rparr>"
    using ne i by (simp add: with_call_def f new register_def Let_def nth_append)
  have old: "addr k < length (cs_heap cs)" "cs_heap cs ! addr k = spec_accumulator evs k"
    "map_of (cs_byItemId cs) (ck_item k) = Some (addr k)" "k \<noteq> ?k" "ck_item k \<noteq> ck_item ?k"
    if "k \<in> event_key ` set evs" for k
  proof -
    show "addr k < length (cs_heap cs)" "cs_heap cs ! addr k = spec_accumulator evs k"
      "map_of (cs_byItemId cs) (ck_item k) = Some (addr k)"
      using rel that unfolding calls_rel_def by blast+
    show "k \<noteq> ?k" using that fresh by blast
    moreover have "inj_on ck_item U" "k \<in> U" using U that by (auto simp: wf_keys_def)
    ultimately show "ck_item k \<noteq> ck_item ?k" using U(2) by (auto simp: inj_on_def)
  qed
  have keys: "event_key ` set (evs @ [e]) = insert ?k (event_key ` set evs)" by simp
  have "inj_on ?addr (insert ?k (event_key ` set evs))"
  proof -
    have "inj_on addr (event_key ` set evs)" using rel by (simp add: calls_rel_def)
    then show ?thesis using old(1,4) fresh unfolding inj_on_def by (auto simp del: image_iff) fastforce+
  qed
  moreover have "?addr k < length (cs_heap (apply_event cs e)) \<and>
      cs_heap (apply_event cs e) ! ?addr k = spec_accumulator (evs @ [e]) k \<and>
      map_of (cs_byItemId (apply_event cs e)) (ck_item k) = Some (?addr k)"
    if "k \<in> insert ?k (event_key ` set evs)" for k
  proof (cases "k = ?k")
    case False
    then have "k \<in> event_key ` set evs" using that by simp
    from old [OF this] show ?thesis
      using spec_accumulator_other [of e k evs] by (simp add: app nth_append update_conv)
  qed (simp add: app nth_append update_conv)
  moreover have "fst ` set (cs_byItemId (apply_event cs e)) \<subseteq> ck_item ` insert ?k (event_key ` set evs)"
  proof -
    have "fst ` set (AList.update (ck_item ?k) ?a (cs_byItemId cs)) = insert (ck_item ?k) (fst ` set (cs_byItemId cs))"
      by (simp add: dom_update [simplified dom_map_of_conv_image_fst])
    then show ?thesis using rel unfolding calls_rel_def app by auto
  qed
  moreover have "cs_byCallId (apply_event cs e) = map (\<lambda>k. (ck_call k, ?addr k)) (spec_order (evs @ [e]))"
  proof -
    have "cs_byCallId cs = map (\<lambda>k. (ck_call k, ?addr k)) (spec_order evs)"
      using rel old(4) spec_order_keys unfolding calls_rel_def by (auto simp: fun_upd_def)
    then show ?thesis using register_call [OF U, of ?addr] by (simp add: app)
  qed
  ultimately show ?thesis unfolding calls_rel_def keys by blast
qed

lemma calls_rel_run:
  assumes "wf_keys U" "event_key ` set evs \<subseteq> U"
  shows "\<exists>addr. calls_rel addr evs (foldl apply_event no_calls evs)"
  using assms(2)
proof (induction evs rule: rev_induct)
  case Nil
  show ?case by (simp add: calls_rel_def no_calls_def spec_order_def)
next
  case (snoc e evs)
  then obtain addr where "calls_rel addr evs (foldl apply_event no_calls evs)" by auto
  with calls_rel_known [OF this assms(1)] calls_rel_fresh [OF this assms(1)] snoc.prems
  show ?case by (cases "event_key e \<in> event_key ` set evs") auto
qed

lemma map_filter_if:
  "(\<And>k. k \<in> set ks \<Longrightarrow> f k = (if P k then Some (g k) else None)) \<Longrightarrow>
   List.map_filter f ks = map g (filter P ks)"
  by (induction ks) (auto simp: List.map_filter_simps)

lemma completed_items:
  assumes "wf_keys (event_key ` set evs)"
  shows "getCompletedResponsesFunctionCallItems (foldl apply_event no_calls evs) = spec_items evs"
proof -
  let ?cs = "foldl apply_event no_calls evs"
  obtain addr where rel: "calls_rel addr evs ?cs" using calls_rel_run [OF assms] by blast
  let ?done = "\<lambda>k. \<exists>e \<in> set (events_of k evs). ends_call e"
  let ?item = "\<lambda>k. \<lparr>fc_id = Some (ck_item k), fc_call_id = ck_call k, fc_name = ck_name k,
         fc_arguments = (if spec_arguments evs k = [] then ''{}'' else spec_arguments evs k),
         fc_status = Some ''completed''\<rparr>"
  have "completed_item (cs_heap ?cs ! addr k) = (if ?done k then Some (?item k) else None)"
    if "k \<in> set (spec_order evs)" for k
  proof -
    have "k \<in> event_key ` set evs" by (rule spec_order_keys [OF that])
    then have "cs_heap ?cs ! addr k = spec_accumulator evs k" "ck_call k \<noteq> []" "ck_name k \<noteq> []"
      using rel assms by (auto simp: calls_rel_def wf_keys_def)
    then show ?thesis using that by (simp add: completed_item_def spec_accumulator_def Let_def)
  qed
  then have "List.map_filter (\<lambda>k. completed_item (cs_heap ?cs ! addr k)) (spec_order evs) = spec_items evs"
    unfolding spec_items_def by (rule map_filter_if)
  moreover have "cs_byCallId ?cs = map (\<lambda>k. (ck_call k, addr k)) (spec_order evs)"
    using rel by (simp add: calls_rel_def)
  ultimately show ?thesis
    by (simp add: getCompletedResponsesFunctionCallItems_def List.map_filter_def comp_def filter_map)
qed


text \<open>C24: the calls of an answer are kept apart. For any interleaving of the events of calls with
  distinct item ids and distinct call ids, the completed calls are, in the order in which their
  items were first seen, exactly the calls that were finished, each with the arguments of its own
  events: a non-empty full text replaces what was collected, and deltas are appended.\<close>

theorem interleaved_calls_exact:
  assumes "wf_keys (event_key ` set evs)"
  shows "getCompletedResponsesFunctionCallItems (foldl apply_event no_calls evs) = spec_items evs \<and>
    getCompletedResponsesToolCalls (foldl apply_event no_calls evs) = List.map_filter call_of_item (spec_items evs)"
  by (simp add: getCompletedResponsesToolCalls_def completed_items [OF assms])

definition sample_key :: "string \<Rightarrow> call_key" where
  "sample_key s = \<lparr>ck_item = ''i'' @ s, ck_call = ''c'' @ s, ck_name = ''list_dir''\<rparr>"

theorem interleaved_calls_exact_witness:
  "map (\<lambda>fc. (fc_call_id fc, fc_arguments fc)) (getCompletedResponsesFunctionCallItems (foldl apply_event no_calls
     [ArgumentsDelta (sample_key ''b'') ''{'', ItemAdded (sample_key ''a'') [], ItemAdded (sample_key ''b'') [],
      ArgumentsDelta (sample_key ''b'') ''}'', ItemDone (sample_key ''a'') ''{1}'',
      ArgumentsDone (sample_key ''b'') []])) = [(''ca'', ''{1}''), (''cb'', ''{}'')]"
proof -
  let ?evs = "[ArgumentsDelta (sample_key ''b'') ''{'', ItemAdded (sample_key ''a'') [],
      ItemAdded (sample_key ''b'') [], ArgumentsDelta (sample_key ''b'') ''}'',
      ItemDone (sample_key ''a'') ''{1}'', ArgumentsDone (sample_key ''b'') []]"
  have "event_key ` set ?evs = {sample_key ''a'', sample_key ''b''}" by auto
  then have "wf_keys (event_key ` set ?evs)" by (auto simp: wf_keys_def sample_key_def inj_on_def)
  from interleaved_calls_exact [OF this]
  have "getCompletedResponsesFunctionCallItems (foldl apply_event no_calls ?evs) = spec_items ?evs" ..
  moreover have "map (\<lambda>fc. (fc_call_id fc, fc_arguments fc)) (spec_items ?evs) = [(''ca'', ''{1}''), (''cb'', ''{}'')]"
    by (simp add: spec_items_def spec_order_def js_set_def set_add_def spec_arguments_def events_of_def
        sample_key_def)
  ultimately show ?thesis by simp
qed

section \<open>Arguments given as an object\<close>

text \<open>arguments that the server sends as an object lose nothing. They are kept as text and read again
  when the call is executed; for objects whose numbers are integers the call is the one that the
  object itself gives.\<close>

theorem object_arguments_survive:
  assumes "list_all (\<lambda>(name, v). printable v) ms"
  shows "parseResponsesToolCallItem (Some (item\<lparr>ri_arguments := Some (ArgText (arguments_text (Some (ArgObject ms))))\<rparr>)) =
    parseResponsesToolCallItem (Some (item\<lparr>ri_arguments := Some (ArgObject ms)\<rparr>))"
proof -
  have "json_parse (json_stringify (JObj ms)) = Some (JObj ms)" using assms by (intro parse_stringify) simp
  moreover have "json_stringify (JObj ms) \<noteq> []" by simp
  ultimately have "parseResponsesToolArguments (Some (ArgText (arguments_text (Some (ArgObject ms))))) = JObj ms"
    by (simp add: parseResponsesToolArguments_def arguments_text_def del: json_stringify.simps)
  moreover have "parseResponsesToolArguments (Some (ArgObject ms)) = JObj ms"
    by (simp add: parseResponsesToolArguments_def)
  ultimately show ?thesis by (cases "ri_name item") (simp_all add: parseResponsesToolCallItem_def)
qed

theorem object_arguments_survive_witness:
  "parseResponsesToolCallItem (Some ((key_item (sample_key ''a'') [])\<lparr>ri_arguments :=
     Some (ArgText (arguments_text (Some (ArgObject [(''path'', JStr ''src'')]))))\<rparr>)) \<noteq> None"
  using object_arguments_survive [of "[(''path'', JStr ''src'')]" "key_item (sample_key ''a'') []"]
  by (simp add: parseResponsesToolCallItem_def key_item_def sample_key_def AGENT_TOOL_NAMES_def Let_def)

end
