(* ===== verification/Agent_Stream.thy ===== *)
theory Agent_Stream
  imports Agent_Calls
begin

text \<open>
  The two ways in which the agent receives an answer, from \<^verbatim>\<open>features/playground/index.tsx\<close>:
  the event stream of the Responses interface, read from the body of the response in chunks, and
  the event stream of chat completions, whose text is cut after the first complete block of tool
  calls. Both are retried. \<open>JSON.parse\<close> of an event followed by the cast to its type is an argument
  \<open>parse_event\<close> (an error message or an event); the decoding of bytes into text is done before.

  A promise is an \<open>option\<close>: \<open>None\<close> as long as it is neither resolved nor rejected. A stop by the user
  closes the source and clears the timer, and the promise then stays unsettled.
\<close>

section \<open>Errors\<close>

definition MAX_STREAM_RETRIES :: nat where
  "MAX_STREAM_RETRIES = 5"

definition STREAM_RETRY_DELAYS :: "nat list" where
  "STREAM_RETRY_DELAYS = [5000, 20000, 45000, 90000, 120000]"

definition message_of :: "string option option \<Rightarrow> string option" where
  "message_of e = (case e of None \<Rightarrow> None | Some m \<Rightarrow> m)"

definition getResponsesErrorMessage :: "responses_stream_event \<Rightarrow> string" where
  "getResponsesErrorMessage event =
     text_or (js_or (message_of (ev_error event))
       (js_or (case ev_response event of None \<Rightarrow> None | Some b \<Rightarrow> message_of (rb_error b)) (ev_type event)))
       ''responses_stream_error''"

definition getAgentStreamDisplayContent :: "string \<Rightarrow> string" where
  "getAgentStreamDisplayContent content = getVisibleAgentContent content"

definition hasAgentToolSyntax :: "string \<Rightarrow> bool" where
  "hasAgentToolSyntax content \<longleftrightarrow>
     search_by (starts_word_ci ''<agent_tools'') content \<noteq> None \<or>
     search_by (starts_with_ci (FENCE @ ''agent_tools'')) content \<noteq> None"

definition summarizeResponsesStreamEvent :: "string \<Rightarrow> string \<Rightarrow> responses_stream_event option \<Rightarrow> string" where
  "summarizeResponsesStreamEvent type data event =
     (let message = (case event of None \<Rightarrow> [] | Some e \<Rightarrow> getResponsesErrorMessage e);
          raw = (if length data > 600 then take 600 data @ ''...'' else data)
      in join '' | '' (filter (\<lambda>s. s \<noteq> []) [message, ''event='' @ type, raw]))"

definition isNonRetryableAgentStreamError :: "string \<Rightarrow> bool" where
  "isNonRetryableAgentStreamError message \<longleftrightarrow>
     str_includes message ''HTTP 400'' \<or> str_includes message ''invalid_request'' \<or>
     str_includes message ''responses_orphan_function_call_output'' \<or>
     str_includes message ''responses_function_call_output_missing''"

section \<open>Events of an answer\<close>

record responses_result =
  rz_rawContent :: string
  rz_nativeToolCalls :: "agent_tool_call list"
  rz_nativeOutputItems :: "responses_output_history_item list"

text \<open>The variables of \<open>streamAgentResponsesCompletionOnce\<close>: \<open>sr_outcome\<close> is the promise and tells
  whether it is settled, \<open>sr_stopped\<close> is the flag of the control, \<open>sr_source\<close> whether the control still
  refers to this source, and \<open>sr_shown\<close> lists the contents passed to \<open>onVisibleContent\<close>.\<close>

record response_stream =
  sr_rawContent :: string
  sr_responseCompleted :: bool
  sr_calls :: calls_state
  sr_reasoningItems :: "responses_reasoning_output_item list"
  sr_outcome :: "(string + responses_result) option"
  sr_stopped :: bool
  sr_source :: bool
  sr_shown :: "string list"

definition start_stream :: "bool \<Rightarrow> response_stream" where
  "start_stream stopped =
     \<lparr>sr_rawContent = [], sr_responseCompleted = False, sr_calls = no_calls, sr_reasoningItems = [],
       sr_outcome = None, sr_stopped = stopped, sr_source = True, sr_shown = []\<rparr>"

definition idle :: "response_stream \<Rightarrow> bool" where
  "idle st \<longleftrightarrow> sr_outcome st \<noteq> None \<or> sr_stopped st"

definition finish_stream :: "bool \<Rightarrow> response_stream \<Rightarrow> response_stream" where
  "finish_stream completed st =
     (if sr_outcome st \<noteq> None then st
      else st\<lparr>sr_responseCompleted := completed, sr_source := False,
        sr_outcome := Some (Inr
          \<lparr>rz_rawContent = sr_rawContent st,
            rz_nativeToolCalls = getCompletedResponsesToolCalls (sr_calls st),
            rz_nativeOutputItems = map Reasoning (sr_reasoningItems st) @
              map FunctionCall (getCompletedResponsesFunctionCallItems (sr_calls st))\<rparr>)\<rparr>)"

definition fail_stream :: "string \<Rightarrow> response_stream \<Rightarrow> response_stream" where
  "fail_stream msg st =
     (if sr_outcome st \<noteq> None then st else st\<lparr>sr_source := False, sr_outcome := Some (Inl msg)\<rparr>)"

definition show_content :: "string \<Rightarrow> response_stream \<Rightarrow> response_stream" where
  "show_content raw st =
     st\<lparr>sr_rawContent := raw, sr_shown := sr_shown st @ [getAgentStreamDisplayContent raw]\<rparr>"

text \<open>The first half of an event: the accumulators and the reasoning items.\<close>

definition collect_event :: "string \<Rightarrow> responses_stream_event \<Rightarrow> response_stream \<Rightarrow> response_stream" where
  "collect_event eventType event st =
     (let calls = (if eventType = ''response.output_item.added''
            then mergeResponsesFunctionCallItem (sr_calls st) (ev_item event) False
            else if eventType = ''response.output_item.done''
            then mergeResponsesFunctionCallItem (sr_calls st) (ev_item event) True
            else if eventType = ''response.function_call_arguments.delta''
            then appendResponsesFunctionCallArgumentsDelta (sr_calls st) event
            else if eventType = ''response.function_call_arguments.done''
            then markResponsesFunctionCallArgumentsDone (sr_calls st) event
            else sr_calls st);
          reasoning = (if eventType = ''response.output_item.done''
            then appendUniqueReasoningItem (sr_reasoningItems st) (parseResponsesReasoningItem (ev_item event))
            else sr_reasoningItems st)
      in st\<lparr>sr_calls := foldl (\<lambda>cs item. mergeResponsesFunctionCallItem cs (Some item) True) calls
               (body_output event),
            sr_reasoningItems := foldl (\<lambda>items item.
               appendUniqueReasoningItem items (parseResponsesReasoningItem (Some item))) reasoning
               (body_output event)\<rparr>)"

definition merge_item_text :: "string \<Rightarrow> string \<Rightarrow> string" where
  "merge_item_text raw itemText =
     (if str_includes itemText raw then itemText
      else if str_includes raw itemText then raw else raw @ itemText)"

text \<open>The second half: the text and the end of the answer.\<close>

definition conclude_event :: "string \<Rightarrow> string \<Rightarrow> responses_stream_event \<Rightarrow> response_stream \<Rightarrow> response_stream" where
  "conclude_event eventType data event st =
     (if ev_error event \<noteq> None \<or> (case ev_response event of None \<Rightarrow> False | Some b \<Rightarrow> rb_error b \<noteq> None)
      then fail_stream (summarizeResponsesStreamEvent eventType data (Some event)) st
      else if eventType = ''response.output_text.delta'' then
        (let delta = text_or (ev_delta event) [] in
         if delta = [] then st else show_content (sr_rawContent st @ delta) st)
      else if eventType = ''response.output_item.done'' \<or> eventType = ''response.content_part.done'' then
        (let itemText = extractResponsesItemText event in
         if itemText \<noteq> [] \<and> itemText \<noteq> sr_rawContent st
         then show_content (merge_item_text (sr_rawContent st) itemText) st else st)
      else if eventType = ''response.completed'' then
        (let outputText = extractResponsesOutputText event in
         finish_stream True
           (if outputText \<noteq> [] \<and> length outputText \<ge> length (sr_rawContent st)
            then show_content outputText st else st))
      else if eventType \<in> set [''response.failed'', ''response.incomplete'', ''response.error'']
      then fail_stream (summarizeResponsesStreamEvent eventType data (Some event)) st
      else st)"

definition handleResponseEvent ::
  "(string \<Rightarrow> string + responses_stream_event) \<Rightarrow> string \<Rightarrow> string \<Rightarrow> response_stream \<Rightarrow> response_stream" where
  "handleResponseEvent parse_event type data st =
     (if idle st then st
      else if data = ''[DONE]'' then
        (if sr_responseCompleted st then finish_stream True st
         else fail_stream ''responses_stream_closed_before_completed'' st)
      else
        (case parse_event data of
           Inl msg \<Rightarrow> fail_stream (''responses_stream_parse_error: '' @ msg @ '' | event='' @ type @ '' | data='' @
             take 600 data) st
         | Inr event \<Rightarrow>
             (let eventType = text_or (ev_type event) type in
              conclude_event eventType data event (collect_event eventType event st))))"

section \<open>Reading the body\<close>

text \<open>A block of the stream: the type of its event and the data, if it has data lines.\<close>

definition block_event :: "string list \<Rightarrow> string" where
  "block_event lines =
     foldl (\<lambda>type line. if starts_with ''event:'' line then text_or (Some (trim (drop 6 line))) type else type)
       ''message'' lines"

definition block_data :: "string list \<Rightarrow> string list" where
  "block_data lines =
     map (\<lambda>line. trim_start_by is_ws (drop 5 line))
       (filter (\<lambda>line. \<not> starts_with ''event:'' line \<and> starts_with ''data:'' line) lines)"

definition parse_block :: "string \<Rightarrow> (string \<times> string) option" where
  "parse_block block =
     (let lines = split_on LF block; dataLines = block_data lines in
      if dataLines = [] then None else Some (block_event lines, trim (join [LF] dataLines)))"

definition dispatchBlock ::
  "(string \<Rightarrow> string + responses_stream_event) \<Rightarrow> string \<Rightarrow> response_stream \<Rightarrow> response_stream" where
  "dispatchBlock parse_event block st =
     (case parse_block block of None \<Rightarrow> st | Some (type, data) \<Rightarrow> handleResponseEvent parse_event type data st)"

text \<open>The inner loop, for any consumer of blocks: take complete blocks from the front of the buffer until
  none is left or the consumer is idle.\<close>

function drain_blocks ::
  "('s \<Rightarrow> bool) \<Rightarrow> (string \<Rightarrow> 's \<Rightarrow> 's) \<Rightarrow> string \<Rightarrow> 's \<Rightarrow> string \<times> 's" where
  "drain_blocks stop dispatch buffer st =
     (case index_of [LF, LF] buffer of
        None \<Rightarrow> (buffer, st)
      | Some i \<Rightarrow>
          (let block = trim (take i buffer); rest = drop (i + 2) buffer;
               st' = (if block \<noteq> [] then dispatch block st else st)
           in if stop st' then (rest, st') else drain_blocks stop dispatch rest st'))"
  by auto

termination
proof (relation "measure (\<lambda>(_, _, buffer, _). length buffer)")
  fix stop :: "'s \<Rightarrow> bool" and dispatch :: "string \<Rightarrow> 's \<Rightarrow> 's" and buffer st i x xa xb
  assume "index_of [LF, LF] buffer = Some i" "xa = drop (i + 2) buffer"
  then show "((stop, dispatch, xa, xb), stop, dispatch, buffer, st) \<in> measure (\<lambda>(_, _, buffer, _). length buffer)"
    by (cases buffer) auto
qed simp

declare drain_blocks.simps [simp del]

text \<open>What the reader meets: a chunk, the end of the body, an error, or a stop by the user.\<close>

datatype stream_read = Chunk string | EndOfBody | ReadError string | UserStop

definition normalize_newlines :: "string \<Rightarrow> string" where
  "normalize_newlines s = replace_all [CR, LF] [LF] s"

fun read_body ::
  "(string \<Rightarrow> string + responses_stream_event) \<Rightarrow> stream_read list \<Rightarrow> string \<Rightarrow> response_stream \<Rightarrow> response_stream" where
  "read_body parse_event [] buffer st = st"
| "read_body parse_event (r # rs) buffer st =
     (if idle st then st
      else case r of
        Chunk text \<Rightarrow>
          (case drain_blocks idle (dispatchBlock parse_event) (buffer @ normalize_newlines text) st of
             (buffer', st') \<Rightarrow> read_body parse_event rs buffer' st')
      | EndOfBody \<Rightarrow>
          (let st' = (if trim buffer \<noteq> [] then dispatchBlock parse_event (trim buffer) st else st)
           in if sr_outcome st' = None then fail_stream ''responses_stream_closed_before_completed'' st' else st')
      | ReadError msg \<Rightarrow> fail_stream msg st
      | UserStop \<Rightarrow> st\<lparr>sr_stopped := True, sr_source := False\<rparr>)"

text \<open>What \<open>fetch\<close> gives: a failure, a status that is not ok with the body and the status text, a
  response without body, or a body to read.\<close>

datatype fetch_result = FetchError string | HttpError nat string string | NoBody | Body "stream_read list"

definition streamAgentResponsesCompletionOnce ::
  "(string \<Rightarrow> string + responses_stream_event) \<Rightarrow> bool \<Rightarrow> fetch_result \<Rightarrow> response_stream" where
  "streamAgentResponsesCompletionOnce parse_event stopped response =
     (let st = start_stream stopped in
      if stopped then fail_stream ''agent_stopped'' st
      else
        (case response of
           FetchError msg \<Rightarrow> fail_stream msg st
         | HttpError status body statusText \<Rightarrow>
             fail_stream (''HTTP '' @ show_nat status @ '': '' @ text_or (Some (take 1000 body)) statusText) st
         | NoBody \<Rightarrow> fail_stream ''responses_stream_body_empty'' st
         | Body rs \<Rightarrow> read_body parse_event rs [] st))"


section \<open>Blocks do not depend on the chunks\<close>

lemma index_of_append: "index_of p s = Some i \<Longrightarrow> index_of p (s @ t) = Some i"
proof (induction s arbitrary: i)
  case Nil
  then show ?case by (cases t) (auto split: if_splits)
next
  case (Cons x xs)
  show ?case
  proof (cases "starts_with p (x # xs)")
    case True
    then obtain u where "x # xs = p @ u" by (auto simp: starts_with_iff)
    then have "starts_with p ((x # xs) @ t)" by simp
    then show ?thesis using True Cons.prems by (simp del: starts_with_Cons)
  next
    case False
    with Cons.prems obtain j where j: "index_of p xs = Some j" "i = Suc j" by (auto simp del: starts_with_Cons)
    have "length p \<le> length (x # xs)" using index_of_Some_split [OF j(1)] by simp
    then have "\<not> starts_with p ((x # xs) @ t)" using False starts_with_prefix by blast
    then show ?thesis using False j Cons.IH [OF j(1)] by (simp del: starts_with_Cons)
  qed
qed

lemma drain_append:
  assumes "\<not> stop st"
  shows "drain_blocks stop dispatch (b @ c) st =
    (case drain_blocks stop dispatch b st of (b', st') \<Rightarrow>
       if stop st' then (b' @ c, st') else drain_blocks stop dispatch (b' @ c) st')"
  using assms
proof (induction stop dispatch b st rule: drain_blocks.induct)
  case (1 stop dispatch b st)
  show ?case
  proof (cases "index_of [LF, LF] b")
    case None
    then have "drain_blocks stop dispatch b st = (b, st)" by (subst drain_blocks.simps) simp
    then show ?thesis using 1 by simp
  next
    case (Some i)
    have i: "i + 2 \<le> length b" using index_of_Some_split [OF Some] by simp
    let ?st = "if trim (take i b) \<noteq> [] then dispatch (trim (take i b)) st else st"
    have b: "drain_blocks stop dispatch b st =
        (if stop ?st then (drop (i + 2) b, ?st) else drain_blocks stop dispatch (drop (i + 2) b) ?st)"
      by (subst drain_blocks.simps) (simp only: Some option.case Let_def)
    have "drain_blocks stop dispatch (b @ c) st =
        (if stop ?st then (drop (i + 2) b @ c, ?st) else drain_blocks stop dispatch (drop (i + 2) b @ c) ?st)"
      using i by (subst drain_blocks.simps) (simp add: index_of_append [OF Some] Let_def)
    then show ?thesis
      using b "1.IH" [OF Some refl refl refl] by (cases "stop ?st") (simp_all only: prod.case if_True if_False simp_thms)
  qed
qed


text \<open>The specification of the blocks of a text: those that end with an empty line, and the rest.\<close>

function blocks_of :: "string \<Rightarrow> string list \<times> string" where
  "blocks_of text =
     (case index_of [LF, LF] text of
        None \<Rightarrow> ([], text)
      | Some i \<Rightarrow>
          (case blocks_of (drop (i + 2) text) of (bs, rest) \<Rightarrow>
             ((if trim (take i text) \<noteq> [] then [trim (take i text)] else []) @ bs, rest)))"
  by auto

termination
proof (relation "measure length")
  fix s i
  assume "index_of [LF, LF] s = Some i"
  then show "(drop (i + 2) s, s) \<in> measure length" by (cases s) auto
qed simp

declare blocks_of.simps [simp del]

text \<open>The interface of a consumer of blocks: once it is idle it ignores what still comes.\<close>

locale block_consumer =
  fixes stop :: "'s \<Rightarrow> bool" and dispatch :: "string \<Rightarrow> 's \<Rightarrow> 's"
  assumes stopped: "stop st \<Longrightarrow> dispatch block st = st"
begin

lemma fold_stopped: "stop st \<Longrightarrow> foldl (\<lambda>st b. dispatch b st) st bs = st"
  by (induction bs) (simp_all add: stopped)

lemma drain_fold:
  assumes "\<not> stop st"
  shows "snd (drain_blocks stop dispatch s st) = foldl (\<lambda>st b. dispatch b st) st (fst (blocks_of s)) \<and>
    (\<not> stop (snd (drain_blocks stop dispatch s st)) \<longrightarrow>
     fst (drain_blocks stop dispatch s st) = snd (blocks_of s))"
  using assms
proof (induction s arbitrary: st rule: blocks_of.induct)
  case (1 s)
  show ?case
  proof (cases "index_of [LF, LF] s")
    case None
    then show ?thesis by (simp add: drain_blocks.simps [of stop dispatch s] blocks_of.simps [of s])
  next
    case (Some i)
    let ?b = "trim (take i s)"
    let ?st = "if ?b \<noteq> [] then dispatch ?b st else st" and ?bs = "if ?b \<noteq> [] then [?b] else []"
    obtain bs rest where r: "blocks_of (drop (i + 2) s) = (bs, rest)" by fastforce
    have d: "drain_blocks stop dispatch s st = (if stop ?st then (drop (i + 2) s, ?st)
        else drain_blocks stop dispatch (drop (i + 2) s) ?st)"
      by (subst drain_blocks.simps) (simp only: Some option.case Let_def)
    have b: "blocks_of s = (?bs @ bs, rest)"
      by (subst blocks_of.simps) (simp only: Some option.case r prod.case)
    have f: "foldl (\<lambda>st b. dispatch b st) st (?bs @ bs) = foldl (\<lambda>st b. dispatch b st) ?st bs" by simp
    show ?thesis
    proof (cases "stop ?st")
      case True
      then show ?thesis using fold_stopped [OF True, of bs] by (simp only: d b f fst_conv snd_conv if_True) simp
    next
      case False
      obtain r2 st2 where D: "drain_blocks stop dispatch (drop (i + 2) s) ?st = (r2, st2)" by fastforce
      note IH = "1.IH" [OF Some False, unfolded D r fst_conv snd_conv]
      have "drain_blocks stop dispatch s st = (r2, st2)" using d False D by (simp only: if_False)
      then show ?thesis unfolding b fst_conv snd_conv f using IH by (metis fst_conv snd_conv)
    qed
  qed
qed

end

lemma idle_ignores: "idle st \<Longrightarrow> dispatchBlock parse_event block st = st"
  by (simp add: dispatchBlock_def handleResponseEvent_def split: option.split prod.split)

interpretation responses_reader: block_consumer idle "dispatchBlock parse_event" for parse_event
  by unfold_locales (rule idle_ignores)

text \<open>The answer made of a whole text: its blocks in order and, if the reader is not idle then, the rest
  of the text as a last block.\<close>

definition read_text ::
  "(string \<Rightarrow> string + responses_stream_event) \<Rightarrow> string \<Rightarrow> response_stream \<Rightarrow> response_stream" where
  "read_text parse_event text st =
     (let st' = foldl (\<lambda>st b. dispatchBlock parse_event b st) st (fst (blocks_of text)) in
      if idle st' then st' else read_body parse_event [EndOfBody] (snd (blocks_of text)) st')"

lemma read_body_idle: "idle st \<Longrightarrow> read_body parse_event rs buffer st = st"
  by (cases rs) simp_all

lemma normalize_LF: "CR \<notin> set text \<Longrightarrow> normalize_newlines text = text"
  unfolding normalize_newlines_def by (rule replace_all_absent) (auto simp: includes_iff)

lemma drain_rest:
  "\<not> stop (snd (drain_blocks stop dispatch b st)) \<Longrightarrow> index_of [LF, LF] (fst (drain_blocks stop dispatch b st)) = None"
proof (induction stop dispatch b st rule: drain_blocks.induct)
  case (1 stop dispatch b st)
  show ?case
  proof (cases "index_of [LF, LF] b")
    case None
    then show ?thesis by (simp add: drain_blocks.simps [of stop dispatch b])
  next
    case (Some i)
    let ?st = "if trim (take i b) \<noteq> [] then dispatch (trim (take i b)) st else st"
    have d: "drain_blocks stop dispatch b st =
        (if stop ?st then (drop (i + 2) b, ?st) else drain_blocks stop dispatch (drop (i + 2) b) ?st)"
      by (subst drain_blocks.simps) (simp only: Some option.case Let_def)
    show ?thesis
      using "1.IH" [OF Some refl refl refl] "1.prems" unfolding d
      by (cases "stop ?st") (simp_all only: if_True if_False snd_conv simp_thms)
  qed
qed

lemma read_chunks:
  assumes "CR \<notin> set (concat cs)" "\<not> idle st" "index_of [LF, LF] buffer = None"
  shows "read_body parse_event (map Chunk cs @ [EndOfBody]) buffer st =
    (case drain_blocks idle (dispatchBlock parse_event) (buffer @ concat cs) st of (b', st') \<Rightarrow>
       if idle st' then st' else read_body parse_event [EndOfBody] b' st')"
  using assms
proof (induction cs arbitrary: buffer st)
  case Nil
  then have "drain_blocks idle (dispatchBlock parse_event) buffer st = (buffer, st)"
    by (subst drain_blocks.simps) simp
  then show ?case using Nil by (simp del: read_body.simps)
next
  case (Cons c cs)
  obtain b1 st1 where d: "drain_blocks idle (dispatchBlock parse_event) (buffer @ c) st = (b1, st1)" by fastforce
  have all: "drain_blocks idle (dispatchBlock parse_event) (buffer @ concat (c # cs)) st =
      (if idle st1 then (b1 @ concat cs, st1)
       else drain_blocks idle (dispatchBlock parse_event) (b1 @ concat cs) st1)"
    using drain_append [of idle st "dispatchBlock parse_event" "buffer @ c" "concat cs"] Cons.prems(2) d by simp
  have step: "read_body parse_event (map Chunk (c # cs) @ [EndOfBody]) buffer st =
      read_body parse_event (map Chunk cs @ [EndOfBody]) b1 st1"
    using Cons.prems d by (simp add: normalize_LF)
  show ?case
  proof (cases "idle st1")
    case True
    then show ?thesis using step all by (simp add: read_body_idle)
  next
    case False
    then have "index_of [LF, LF] b1 = None" using drain_rest [of idle "dispatchBlock parse_event" "buffer @ c" st] d
      by simp
    with Cons.IH [of st1 b1] Cons.prems False show ?thesis unfolding step all by simp
  qed
qed

text \<open>C26: the answer does not depend on how the body is cut into chunks. If lines end with line feeds, the
  answer read from any chunks is the answer made of the blocks of their concatenation.\<close>

theorem answer_chunking:
  assumes "CR \<notin> set (concat cs)"
  shows "streamAgentResponsesCompletionOnce parse_event False (Body (map Chunk cs @ [EndOfBody])) =
    read_text parse_event (concat cs) (start_stream False)"
proof -
  let ?st = "start_stream False"
  have ni: "\<not> idle ?st" by (simp add: idle_def start_stream_def)
  obtain b' st' where d: "drain_blocks idle (dispatchBlock parse_event) (concat cs) ?st = (b', st')" by fastforce
  have "streamAgentResponsesCompletionOnce parse_event False (Body (map Chunk cs @ [EndOfBody])) =
      read_body parse_event (map Chunk cs @ [EndOfBody]) [] ?st"
    by (simp add: streamAgentResponsesCompletionOnce_def Let_def)
  also have "\<dots> = (if idle st' then st' else read_body parse_event [EndOfBody] b' st')"
    using read_chunks [OF assms ni, of "[]"] d by simp
  also have "\<dots> = read_text parse_event (concat cs) ?st"
    using responses_reader.drain_fold [OF ni, of parse_event "concat cs"] d
    by (simp add: read_text_def Let_def del: read_body.simps)
  finally show ?thesis .
qed


text \<open>Sample events for the instances below: a piece of text and the end of an answer.\<close>

definition plain_event :: "string \<Rightarrow> responses_stream_event" where
  "plain_event type =
     \<lparr>ev_type = Some type, ev_delta = None, ev_item_id = None, ev_call_id = None, ev_arguments = None,
       ev_item = None, ev_part = None, ev_response = None, ev_error = None\<rparr>"

definition sample_parse :: "string \<Rightarrow> string + responses_stream_event" where
  "sample_parse data =
     (if data = ''A'' then Inr ((plain_event ''response.output_text.delta'')\<lparr>ev_delta := Some ''hi''\<rparr>)
      else if data = ''B'' then Inr (plain_event ''response.completed'')
      else Inl ''Unexpected token'')"

lemmas stream_eval = streamAgentResponsesCompletionOnce_def start_stream_def read_text_def blocks_of.simps
  drain_blocks.simps trim_def trim_by_def trim_start_by_def is_ws_def dispatchBlock_def parse_block_def
  block_data_def block_event_def handleResponseEvent_def idle_def sample_parse_def plain_event_def
  text_or_def collect_event_def conclude_event_def body_output_def extractResponsesItemText_def
  extractResponsesOutputText_def item_texts_def show_content_def finish_stream_def fail_stream_def
  getCompletedResponsesToolCalls_def getCompletedResponsesFunctionCallItems_def no_calls_def
  normalize_newlines_def

lemma sample_blocks:
  "blocks_of (''data: A'' @ [LF, LF] @ ''data: B'' @ [LF, LF]) = ([''data: A'', ''data: B''], [])"
  by (simp add: blocks_of.simps trim_def trim_by_def is_ws_def)


lemma sample_dispatch:
  "parse_block ''data: A'' = Some (''message'', ''A'')" "parse_block ''data: B'' = Some (''message'', ''B'')"
  by (simp_all add: parse_block_def block_data_def block_event_def trim_def trim_by_def trim_start_by_def
      is_ws_def Let_def)

definition answer_text :: "response_stream \<Rightarrow> string option" where
  "answer_text st = (case sr_outcome st of Some (Inr r) \<Rightarrow> Some (rz_rawContent r) | _ \<Rightarrow> None)"

lemma sample_handle:
  "\<not> idle st \<Longrightarrow> handleResponseEvent sample_parse ''message'' ''A'' st = show_content (sr_rawContent st @ ''hi'') st"
  "\<not> idle st \<Longrightarrow> handleResponseEvent sample_parse ''message'' ''B'' st = finish_stream True st"
  by (simp_all add: handleResponseEvent_def sample_parse_def plain_event_def text_or_def collect_event_def
      conclude_event_def body_output_def extractResponsesOutputText_def Let_def)

theorem answer_chunking_witness:
  "CR \<notin> set (concat [''data: A'' @ [LF], [LF] @ ''data: B'' @ [LF, LF]]) \<and>
   answer_text (streamAgentResponsesCompletionOnce sample_parse False
     (Body (map Chunk [''data: A'' @ [LF], [LF] @ ''data: B'' @ [LF, LF]] @ [EndOfBody]))) = Some ''hi''"
proof -
  let ?cs = "[''data: A'' @ [LF], [LF] @ ''data: B'' @ [LF, LF]]"
  have cr: "CR \<notin> set (concat ?cs)" by simp
  have b: "blocks_of (concat ?cs) = ([''data: A'', ''data: B''], [])" using sample_blocks by simp
  have "answer_text (read_text sample_parse (concat ?cs) (start_stream False)) = Some ''hi''"
    unfolding read_text_def b
    by (simp add: dispatchBlock_def sample_dispatch sample_handle idle_def start_stream_def show_content_def
        finish_stream_def answer_text_def Let_def)
  then show ?thesis using cr answer_chunking [OF cr, of sample_parse] by simp
qed

lemma read_chunk_idle:
  assumes "\<not> idle st" "idle (foldl (\<lambda>st b. dispatchBlock p b st) st (fst (blocks_of (buffer @ normalize_newlines c))))"
  shows "read_body p (Chunk c # rs) buffer st =
    foldl (\<lambda>st b. dispatchBlock p b st) st (fst (blocks_of (buffer @ normalize_newlines c)))"
  using assms responses_reader.drain_fold [OF assms(1), of p "buffer @ normalize_newlines c"]
  by (auto simp: read_body_idle split: prod.split)

text \<open>with carriage returns the chunks matter. The pair of carriage return and line feed is replaced in
  each chunk on its own, so a pair that is cut by the border of two chunks is missed: the same body
  gives an answer when it comes in one piece, and fails when it is cut inside the empty line
  between two events.\<close>

theorem split_newline_fails:
  "answer_text (streamAgentResponsesCompletionOnce sample_parse False (Body [
     Chunk (''data: A'' @ [CR, LF, CR, LF] @ ''data: B'' @ [CR, LF, CR, LF]), EndOfBody])) = Some ''hi'' \<and>
   sr_outcome (streamAgentResponsesCompletionOnce sample_parse False (Body [
     Chunk (''data: A'' @ [CR, LF, CR]), Chunk ([LF] @ ''data: B'' @ [CR, LF, CR, LF]), EndOfBody])) =
     Some (Inl (''responses_stream_parse_error: Unexpected token | event=message | data=A'' @ [LF] @ ''B''))"
proof
  have n: "normalize_newlines (''data: A'' @ [CR, LF, CR, LF] @ ''data: B'' @ [CR, LF, CR, LF]) =
      ''data: A'' @ [LF, LF] @ ''data: B'' @ [LF, LF]"
    "normalize_newlines (''data: A'' @ [CR, LF, CR]) = ''data: A'' @ [LF, CR]"
    "normalize_newlines ([LF] @ ''data: B'' @ [CR, LF, CR, LF]) = [LF] @ ''data: B'' @ [LF, LF]"
    by (simp_all add: normalize_newlines_def replace_all.simps)
  have ni: "\<not> idle (start_stream False)" by (simp add: idle_def start_stream_def)
  show "answer_text (streamAgentResponsesCompletionOnce sample_parse False (Body [
     Chunk (''data: A'' @ [CR, LF, CR, LF] @ ''data: B'' @ [CR, LF, CR, LF]), EndOfBody])) = Some ''hi''"
  proof -
    let ?st = "foldl (\<lambda>st b. dispatchBlock sample_parse b st) (start_stream False) [''data: A'', ''data: B'']"
    have st: "idle ?st" "answer_text ?st = Some ''hi''"
      by (simp_all add: dispatchBlock_def sample_dispatch sample_handle idle_def start_stream_def
          show_content_def finish_stream_def answer_text_def)
    let ?c = "''data: A'' @ [CR, LF, CR, LF] @ ''data: B'' @ [CR, LF, CR, LF]"
    have b: "fst (blocks_of ([] @ normalize_newlines ?c)) = [''data: A'', ''data: B'']"
      unfolding n using sample_blocks by simp
    have "read_body sample_parse [Chunk ?c, EndOfBody] [] (start_stream False) = ?st"
      using read_chunk_idle [OF ni, of sample_parse "[]" ?c "[EndOfBody]"] st(1) unfolding b by blast
    then show ?thesis using st(2) by (simp add: streamAgentResponsesCompletionOnce_def Let_def)
  qed
  show "sr_outcome (streamAgentResponsesCompletionOnce sample_parse False (Body [
     Chunk (''data: A'' @ [CR, LF, CR]), Chunk ([LF] @ ''data: B'' @ [CR, LF, CR, LF]), EndOfBody])) =
     Some (Inl (''responses_stream_parse_error: Unexpected token | event=message | data=A'' @ [LF] @ ''B''))"
  proof -
    let ?c1 = "''data: A'' @ [CR, LF, CR]" and ?c2 = "[LF] @ ''data: B'' @ [CR, LF, CR, LF]"
    let ?block = "''data: A'' @ [LF, CR, LF] @ ''data: B''"
    let ?st = "foldl (\<lambda>st b. dispatchBlock sample_parse b st) (start_stream False) [?block]"
    have "parse_block ?block = Some (''message'', ''A'' @ [LF] @ ''B'')"
      by (simp add: parse_block_def block_data_def block_event_def trim_def trim_by_def trim_start_by_def
          is_ws_def Let_def)
    then have st: "idle ?st" "sr_outcome ?st =
        Some (Inl (''responses_stream_parse_error: Unexpected token | event=message | data=A'' @ [LF] @ ''B''))"
      by (simp_all add: dispatchBlock_def handleResponseEvent_def sample_parse_def idle_def start_stream_def
          fail_stream_def)
    have b: "fst (blocks_of ((''data: A'' @ [LF, CR]) @ normalize_newlines ?c2)) = [?block]"
      unfolding n by (simp add: blocks_of.simps trim_def trim_by_def is_ws_def)
    have "drain_blocks idle (dispatchBlock sample_parse) ([] @ normalize_newlines ?c1) (start_stream False) =
        (''data: A'' @ [LF, CR], start_stream False)"
      unfolding n by (subst drain_blocks.simps) simp
    then have "read_body sample_parse [Chunk ?c1, Chunk ?c2, EndOfBody] [] (start_stream False) =
        read_body sample_parse [Chunk ?c2, EndOfBody] (''data: A'' @ [LF, CR]) (start_stream False)"
      using ni by simp
    also have "\<dots> = ?st"
      using read_chunk_idle [OF ni, of sample_parse "''data: A'' @ [LF, CR]" ?c2 "[EndOfBody]"] st(1)
      unfolding b by blast
    finally show ?thesis using st(2) by (simp only: streamAgentResponsesCompletionOnce_def Let_def if_False
        fetch_result.case)
  qed
qed


section \<open>Every answer settles\<close>

text \<open>The control refers to the source exactly as long as the promise is open and the user has not
  stopped, and the flag \<open>responseCompleted\<close> is only set together with the promise.\<close>

definition stream_inv :: "response_stream \<Rightarrow> bool" where
  "stream_inv st \<longleftrightarrow> (sr_source st \<longleftrightarrow> \<not> idle st) \<and> (sr_responseCompleted st \<longrightarrow> sr_outcome st \<noteq> None)"

lemma stream_inv_simps [simp]:
  "stream_inv (show_content raw st) \<longleftrightarrow> stream_inv st"
  "stream_inv (collect_event t e st) \<longleftrightarrow> stream_inv st"
  "stream_inv st \<Longrightarrow> stream_inv (finish_stream b st)"
  "stream_inv st \<Longrightarrow> stream_inv (fail_stream msg st)"
  by (auto simp: stream_inv_def idle_def show_content_def collect_event_def finish_stream_def fail_stream_def
      Let_def)

lemma conclude_inv: "stream_inv st \<Longrightarrow> stream_inv (conclude_event t d e st)"
  by (simp add: conclude_event_def Let_def)

lemma handle_inv: "stream_inv st \<Longrightarrow> stream_inv (handleResponseEvent p t d st)"
  by (simp add: handleResponseEvent_def conclude_inv Let_def split: sum.split)

lemma dispatch_inv: "stream_inv st \<Longrightarrow> stream_inv (dispatchBlock p b st)"
  by (simp add: dispatchBlock_def handle_inv split: option.split prod.split)

lemma drain_inv: "stream_inv st \<Longrightarrow> stream_inv (snd (drain_blocks idle (dispatchBlock p) b st))"
proof -
  have "stream_inv (snd (drain_blocks stop dispatch b st))"
    if "stream_inv st" "\<And>b st. stream_inv st \<Longrightarrow> stream_inv (dispatch b st)" for stop dispatch b st
    using that
  proof (induction stop dispatch b st rule: drain_blocks.induct)
    case (1 stop dispatch b st)
    then show ?case
      by (subst drain_blocks.simps) (auto simp: Let_def split: option.split)
  qed
  then show "stream_inv st \<Longrightarrow> stream_inv (snd (drain_blocks idle (dispatchBlock p) b st))"
    using dispatch_inv by blast
qed

lemma read_body_inv: "stream_inv st \<Longrightarrow> stream_inv (read_body p rs buffer st)"
proof (induction p rs buffer st rule: read_body.induct)
  case (2 p r rs buffer st)
  show ?case
  proof (cases r)
    case (Chunk c)
    obtain b' st' where d: "drain_blocks idle (dispatchBlock p) (buffer @ normalize_newlines c) st = (b', st')"
      by fastforce
    then have "stream_inv st'" using drain_inv [OF "2.prems"] by (metis snd_conv)
    then show ?thesis using "2.IH" [OF _ Chunk d [symmetric]] "2.prems" Chunk d by simp
  next
    case EndOfBody
    then show ?thesis using "2.prems" dispatch_inv by (simp add: Let_def)
  next
    case UserStop
    then show ?thesis using "2.prems" by (auto simp: stream_inv_def idle_def)
  qed (use "2.prems" in simp)
qed simp

fun ends_body :: "stream_read \<Rightarrow> bool" where
  "ends_body EndOfBody = True"
| "ends_body (ReadError msg) = True"
| "ends_body _ = False"

lemma read_body_settles: "r \<in> set rs \<Longrightarrow> ends_body r \<Longrightarrow> idle (read_body p rs buffer st)"
proof (induction p rs buffer st rule: read_body.induct)
  case (2 p r' rs buffer st)
  show ?case
  proof (cases "idle st")
    case False
    show ?thesis
    proof (cases r')
      case (Chunk c)
      obtain b' st' where d: "drain_blocks idle (dispatchBlock p) (buffer @ normalize_newlines c) st = (b', st')"
        by fastforce
      have "r \<in> set rs" using "2.prems" Chunk by auto
      then show ?thesis using "2.IH" [OF False Chunk d [symmetric]] "2.prems"(2) False Chunk d by simp
    qed (use False in \<open>simp_all add: Let_def idle_def fail_stream_def\<close>)
  qed simp
qed simp

definition body_ends :: "fetch_result \<Rightarrow> bool" where
  "body_ends response = (case response of Body rs \<Rightarrow> list_ex ends_body rs | _ \<Rightarrow> True)"

text \<open>C27: every answer settles. Whatever the events say, once the body ends or reading fails (or there is
  no body to read) the promise is settled unless the user has stopped the agent; the source is
  released exactly when the promise is settled or the user has stopped; and a stream that closes
  with \<open>[DONE]\<close> before the answer was completed is always rejected.\<close>

theorem answer_settles:
  "let st = streamAgentResponsesCompletionOnce parse_event stopped response in
     (sr_source st \<longleftrightarrow> \<not> idle st) \<and> (body_ends response \<longrightarrow> idle st) \<and>
     (\<not> idle st \<longrightarrow> sr_outcome (handleResponseEvent parse_event type ''[DONE]'' st) =
        Some (Inl ''responses_stream_closed_before_completed''))"
proof -
  let ?st = "streamAgentResponsesCompletionOnce parse_event stopped response"
  have st0: "stream_inv (start_stream False)" by (simp add: stream_inv_def start_stream_def idle_def)
  have inv: "stream_inv ?st"
  proof (cases stopped)
    case True
    then show ?thesis
      by (simp add: streamAgentResponsesCompletionOnce_def fail_stream_def start_stream_def stream_inv_def
          idle_def Let_def)
  next
    case False
    then show ?thesis
      using st0 read_body_inv [OF st0]
      by (simp add: streamAgentResponsesCompletionOnce_def Let_def split: fetch_result.split)
  qed
  moreover have "idle ?st" if "body_ends response"
  proof (cases "\<exists>rs. response = Body rs")
    case True
    then obtain rs where rs: "response = Body rs" ..
    with that obtain r where "r \<in> set rs" "ends_body r" by (auto simp: body_ends_def list_ex_iff)
    from read_body_settles [OF this] show ?thesis
      by (simp add: streamAgentResponsesCompletionOnce_def rs Let_def) (simp add: idle_def fail_stream_def)
  next
    case False
    then show ?thesis
      by (cases response) (simp_all add: streamAgentResponsesCompletionOnce_def fail_stream_def idle_def Let_def)
  qed
  ultimately show ?thesis
    by (auto simp: Let_def stream_inv_def handleResponseEvent_def fail_stream_def idle_def)
qed

theorem answer_settles_witness:
  "body_ends (Body [Chunk ''data: A'', EndOfBody]) \<and>
   idle (streamAgentResponsesCompletionOnce sample_parse False (Body [Chunk ''data: A'', EndOfBody]))"
  using answer_settles [of sample_parse False "Body [Chunk ''data: A'', EndOfBody]"]
  by (simp add: body_ends_def Let_def)


section \<open>A whole answer\<close>

text \<open>The specification of an answer: pieces of text and events of function calls in any order.\<close>

datatype answer_piece = TextPiece string | CallPiece call_event

fun piece_event :: "answer_piece \<Rightarrow> responses_stream_event" where
  "piece_event (TextPiece d) = (plain_event ''response.output_text.delta'')\<lparr>ev_delta := Some d\<rparr>"
| "piece_event (CallPiece (ItemAdded k args)) =
     (plain_event ''response.output_item.added'')\<lparr>ev_item := Some (key_item k args)\<rparr>"
| "piece_event (CallPiece (ItemDone k args)) =
     (plain_event ''response.output_item.done'')\<lparr>ev_item := Some (key_item k args)\<rparr>"
| "piece_event (CallPiece (ArgumentsDelta k d)) =
     (key_event k (Some d) None)\<lparr>ev_type := Some ''response.function_call_arguments.delta''\<rparr>"
| "piece_event (CallPiece (ArgumentsDone k args)) =
     (key_event k None (Some (ArgText args)))\<lparr>ev_type := Some ''response.function_call_arguments.done''\<rparr>"

fun piece_text :: "answer_piece \<Rightarrow> string" where
  "piece_text (TextPiece d) = d"
| "piece_text (CallPiece c) = []"

fun piece_calls :: "answer_piece list \<Rightarrow> call_event list" where
  "piece_calls [] = []"
| "piece_calls (CallPiece c # ps) = c # piece_calls ps"
| "piece_calls (TextPiece d # ps) = piece_calls ps"

lemma append_type_irrelevant:
  "appendResponsesFunctionCallArgumentsDelta cs (e\<lparr>ev_type := t\<rparr>) = appendResponsesFunctionCallArgumentsDelta cs e"
  by (simp add: appendResponsesFunctionCallArgumentsDelta_def Let_def)

lemma mark_type_irrelevant:
  "markResponsesFunctionCallArgumentsDone cs (e\<lparr>ev_type := t\<rparr>) = markResponsesFunctionCallArgumentsDone cs e"
  by (simp add: markResponsesFunctionCallArgumentsDone_def append_type_irrelevant)

lemma key_event_sel [simp]:
  "ev_item (key_event k d a) = None" "ev_part (key_event k d a) = None"
  "ev_response (key_event k d a) = None" "ev_error (key_event k d a) = None"
  by (simp_all add: key_event_def)

lemma handle_piece:
  assumes "\<not> idle st" "parse_event data = Inr (piece_event p)" "data \<noteq> ''[DONE]''"
  shows "\<exists>shown. handleResponseEvent parse_event type data st =
    st\<lparr>sr_rawContent := sr_rawContent st @ piece_text p,
       sr_calls := foldl apply_event (sr_calls st) (piece_calls [p]), sr_shown := shown\<rparr>"
proof -
  note eval = handleResponseEvent_def collect_event_def conclude_event_def plain_event_def append_type_irrelevant mark_type_irrelevant
    body_output_def text_or_def extractResponsesItemText_def item_texts_def show_content_def Let_def
    parseResponsesReasoningItem_def appendUniqueReasoningItem_def
  show ?thesis
  proof (cases p)
    case (TextPiece d)
    then show ?thesis using assms
      by (cases "d = []") (auto simp: eval intro!: exI [of _ "if d = [] then sr_shown st
        else sr_shown st @ [getAgentStreamDisplayContent (sr_rawContent st @ d)]"])
  next
    case (CallPiece c)
    then show ?thesis using assms
      by (cases c) (auto simp: eval key_item_def intro!: exI [of _ "sr_shown st"])
  qed
qed


lemma piece_calls_Cons: "piece_calls (p # ps) = piece_calls [p] @ piece_calls ps"
  by (cases p) simp_all

lemma handle_pieces:
  assumes "\<not> idle st" "\<And>p. p \<in> set ps \<Longrightarrow> parse_event (enc p) = Inr (piece_event p) \<and> enc p \<noteq> ''[DONE]''"
  shows "\<exists>shown. foldl (\<lambda>st d. handleResponseEvent parse_event type d st) st (map enc ps) =
    st\<lparr>sr_rawContent := sr_rawContent st @ concat (map piece_text ps),
       sr_calls := foldl apply_event (sr_calls st) (piece_calls ps), sr_shown := shown\<rparr>"
  using assms
proof (induction ps arbitrary: st)
  case Nil
  show ?case by (auto intro!: exI [of _ "sr_shown st"])
next
  case (Cons p ps)
  obtain shown where h: "handleResponseEvent parse_event type (enc p) st =
    st\<lparr>sr_rawContent := sr_rawContent st @ piece_text p,
       sr_calls := foldl apply_event (sr_calls st) (piece_calls [p]), sr_shown := shown\<rparr>" (is "_ = ?st")
    using handle_piece [OF Cons.prems(1)] Cons.prems(2) by (meson list.set_intros(1))
  have "\<not> idle ?st" using Cons.prems(1) by (simp add: idle_def)
  from Cons.IH [OF this] Cons.prems(2) obtain shown' where
    "foldl (\<lambda>st d. handleResponseEvent parse_event type d st) ?st (map enc ps) =
      ?st\<lparr>sr_rawContent := sr_rawContent ?st @ concat (map piece_text ps),
        sr_calls := foldl apply_event (sr_calls ?st) (piece_calls ps), sr_shown := shown'\<rparr>" by auto
  then show ?case using h by (simp add: piece_calls_Cons [of p ps]) blast
qed


definition sample_pieces :: "answer_piece list" where
  "sample_pieces = [TextPiece ''a'', CallPiece (ItemAdded (sample_key ''x'') []), TextPiece ''b'',
     CallPiece (ItemDone (sample_key ''x'') ''{}'')]"

definition sample_encode :: "answer_piece \<Rightarrow> string" where
  "sample_encode p = (if p = sample_pieces ! 0 then ''0'' else if p = sample_pieces ! 1 then ''1''
     else if p = sample_pieces ! 2 then ''2'' else ''3'')"

definition sample_decode :: "string \<Rightarrow> string + responses_stream_event" where
  "sample_decode s = (if s = ''0'' then Inr (piece_event (sample_pieces ! 0))
     else if s = ''1'' then Inr (piece_event (sample_pieces ! 1))
     else if s = ''2'' then Inr (piece_event (sample_pieces ! 2))
     else if s = ''3'' then Inr (piece_event (sample_pieces ! 3))
     else Inr (plain_event ''response.completed''))"


end
