(* ===== verification/Agent_Completion.thy ===== *)
theory Agent_Completion
  imports Agent_Stream
begin

text \<open>
  The answers of the agent through chat completions, and the retries of both ways, from
  \<^verbatim>\<open>features/playground/index.tsx\<close>. The event source is that of the library \<open>sse.js\<close>: the model
  starts from the events it delivers. \<open>parse_chunk\<close> stands for \<open>JSON.parse\<close> of an event and the access to
  the content of its first choice, \<open>parse_error\<close> for the message of an error event.
\<close>

section \<open>Chat completions\<close>

record completion_stream =
  cp_rawContent :: string
  cp_outcome :: "(string + string) option"
  cp_stopped :: bool
  cp_source :: bool
  cp_shown :: "string list"

definition start_completion :: "bool \<Rightarrow> completion_stream" where
  "start_completion stopped =
     \<lparr>cp_rawContent = [], cp_outcome = None, cp_stopped = stopped, cp_source = True, cp_shown = []\<rparr>"

definition settle_completion :: "string + string \<Rightarrow> completion_stream \<Rightarrow> completion_stream" where
  "settle_completion r st =
     (if cp_outcome st \<noteq> None then st else st\<lparr>cp_outcome := Some r, cp_source := False\<rparr>)"

datatype completion_event = MessageEvent string | ErrorEvent "string option" | StopEvent

definition completion_content :: "string \<Rightarrow> completion_stream \<Rightarrow> completion_stream" where
  "completion_content delta st =
     (let raw = cp_rawContent st @ delta in
      case getCompleteAgentToolBlockEnd raw of
        Some blockEnd \<Rightarrow>
          (let cut = take blockEnd raw in
           settle_completion (Inr cut)
             (st\<lparr>cp_rawContent := cut, cp_shown := cp_shown st @ [getAgentStreamDisplayContent cut]\<rparr>))
      | None \<Rightarrow> st\<lparr>cp_rawContent := raw, cp_shown := cp_shown st @ [getAgentStreamDisplayContent raw]\<rparr>)"

fun completion_step ::
  "(string \<Rightarrow> string + string option) \<Rightarrow> (string \<Rightarrow> string option) \<Rightarrow> completion_stream \<Rightarrow> completion_event \<Rightarrow>
   completion_stream" where
  "completion_step parse_chunk parse_error st (MessageEvent data) =
     (if cp_outcome st \<noteq> None \<or> cp_stopped st then st
      else if data = ''[DONE]'' then settle_completion (Inr (cp_rawContent st)) st
      else
        (case parse_chunk data of
           Inl msg \<Rightarrow> settle_completion (Inl msg) st
         | Inr content \<Rightarrow> if text_or content [] = [] then st else completion_content (text_or content []) st))"
| "completion_step parse_chunk parse_error st (ErrorEvent data) =
     (if cp_outcome st \<noteq> None \<or> cp_stopped st then st
      else
        (let message = text_or data ''stream_error'' in
         settle_completion (Inl (case js_or data None of
             None \<Rightarrow> message | Some d \<Rightarrow> text_or (parse_error d) message)) st))"
| "completion_step parse_chunk parse_error st StopEvent = st\<lparr>cp_stopped := True, cp_source := False\<rparr>"

definition streamAgentCompletionOnce ::
  "(string \<Rightarrow> string + string option) \<Rightarrow> (string \<Rightarrow> string option) \<Rightarrow> bool \<Rightarrow> completion_event list \<Rightarrow>
   completion_stream" where
  "streamAgentCompletionOnce parse_chunk parse_error stopped events =
     (if stopped then settle_completion (Inl ''agent_stopped'') (start_completion True)
      else foldl (completion_step parse_chunk parse_error) (start_completion False) events)"

section \<open>Retries\<close>

text \<open>One attempt: the contents it showed, how its promise was settled (\<open>None\<close>: never, because the user
  stopped), whether the control was stopped when the error was caught, and whether the user stops
  while the timer of the next attempt runs, which clears the timer.\<close>

record 'r attempt =
  at_shown :: "string list"
  at_result :: "(string + 'r) option"
  at_stopped :: bool
  at_stop_waiting :: bool

datatype stream_callback = Visible_Content string | Reconnect string nat nat nat

definition retry_delay :: "nat \<Rightarrow> nat" where
  "retry_delay retryCount =
     (if retryCount - 1 < length STREAM_RETRY_DELAYS then STREAM_RETRY_DELAYS ! (retryCount - 1)
      else last STREAM_RETRY_DELAYS)"

text \<open>The function \<open>run\<close> of both ways; the last number of a reconnection is the delay in milliseconds.\<close>

fun retry_run ::
  "(string \<Rightarrow> bool) \<Rightarrow> nat \<Rightarrow> 'r attempt list \<Rightarrow> stream_callback list \<times> (string + 'r) option" where
  "retry_run final retryCount [] = ([], None)"
| "retry_run final retryCount (a # as) =
     (let shown = map Visible_Content (at_shown a) in
      case at_result a of
        None \<Rightarrow> (shown, None)
      | Some (Inr r) \<Rightarrow> (shown, Some (Inr r))
      | Some (Inl e) \<Rightarrow>
          if at_stopped a \<or> final e \<or> retryCount \<ge> MAX_STREAM_RETRIES then (shown, Some (Inl e))
          else
            (let n = retryCount + 1; report = shown @ [Reconnect e n MAX_STREAM_RETRIES (retry_delay n)] in
             if at_stop_waiting a then (report, None)
             else (case retry_run final n as of (cbs, res) \<Rightarrow> (report @ cbs, res))))"

definition streamAgentCompletion ::
  "string attempt list \<Rightarrow> stream_callback list \<times> (string + string) option" where
  "streamAgentCompletion attempts = retry_run (\<lambda>_. False) 0 attempts"

definition streamAgentResponsesCompletion ::
  "responses_result attempt list \<Rightarrow> stream_callback list \<times> (string + responses_result) option" where
  "streamAgentResponsesCompletion attempts = retry_run isNonRetryableAgentStreamError 0 attempts"

text \<open>The attempt that a run of the Responses stream is.\<close>

definition attempt_of :: "bool \<Rightarrow> response_stream \<Rightarrow> responses_result attempt" where
  "attempt_of stopWaiting st =
     \<lparr>at_shown = sr_shown st, at_result = sr_outcome st, at_stopped = sr_stopped st,
       at_stop_waiting = stopWaiting\<rparr>"

section \<open>What an answer through chat completions is\<close>

text \<open>The text up to the end of the first block of tool calls that is complete when a piece arrives.\<close>

fun cut_pieces :: "string \<Rightarrow> string list \<Rightarrow> string" where
  "cut_pieces acc [] = acc"
| "cut_pieces acc (d # ds) =
     (case getCompleteAgentToolBlockEnd (acc @ d) of
        Some e \<Rightarrow> take e (acc @ d) | None \<Rightarrow> cut_pieces (acc @ d) ds)"

lemma completion_settled: "cp_outcome st \<noteq> None \<Longrightarrow> cp_outcome (completion_step p q st e) = cp_outcome st"
  by (cases e) simp_all

lemma completion_settled_fold:
  "cp_outcome st \<noteq> None \<Longrightarrow> cp_outcome (foldl (completion_step p q) st es) = cp_outcome st"
  by (induction es arbitrary: st) (simp_all add: completion_settled)

lemma cut_pieces_prefix: "\<exists>rest. acc @ concat ds = cut_pieces acc ds @ rest"
proof (induction ds arbitrary: acc)
  case (Cons d ds)
  show ?case
  proof (cases "getCompleteAgentToolBlockEnd (acc @ d)")
    case None
    then show ?thesis using Cons [of "acc @ d"] by simp
  next
    case (Some e)
    then have "acc @ concat (d # ds) = cut_pieces acc (d # ds) @ drop e (acc @ d) @ concat ds"
      by (simp del: take_append drop_append)
    then show ?thesis by blast
  qed
qed simp

lemma completion_run:
  assumes "\<And>d. d \<in> set ds \<Longrightarrow> d \<noteq> [] \<and> parse_chunk (enc d) = Inr (Some d) \<and> enc d \<noteq> ''[DONE]''"
    and "cp_outcome st = None" "\<not> cp_stopped st"
  shows "cp_outcome (foldl (completion_step parse_chunk parse_error) st
      (map (\<lambda>d. MessageEvent (enc d)) ds @ [MessageEvent ''[DONE]''] @ later)) =
    Some (Inr (cut_pieces (cp_rawContent st) ds))"
  using assms
proof (induction ds arbitrary: st)
  case Nil
  then show ?case
    using completion_settled_fold [of "settle_completion (Inr (cp_rawContent st)) st"]
    by (simp add: settle_completion_def)
next
  case (Cons d ds)
  let ?rest = "map (\<lambda>d. MessageEvent (enc d)) ds @ [MessageEvent ''[DONE]''] @ later"
  have step: "completion_step parse_chunk parse_error st (MessageEvent (enc d)) = completion_content d st"
    using Cons.prems by (simp add: text_or_def)
  show ?case
  proof (cases "getCompleteAgentToolBlockEnd (cp_rawContent st @ d)")
    case None
    let ?st = "completion_content d st"
    have "cp_outcome ?st = None" "\<not> cp_stopped ?st" "cp_rawContent ?st = cp_rawContent st @ d"
      using None Cons.prems by (simp_all add: completion_content_def Let_def)
    then show ?thesis using Cons.IH [of ?st] Cons.prems(1) step None by simp
  next
    case (Some e)
    let ?st = "completion_content d st"
    have "cp_outcome ?st = Some (Inr (take e (cp_rawContent st @ d)))"
      using Some Cons.prems by (simp add: completion_content_def settle_completion_def Let_def)
    then show ?thesis
      using completion_settled_fold [of ?st parse_chunk parse_error ?rest] step Some by simp
  qed
qed

text \<open>an answer through chat completions ends at its first complete block of tool calls. If the pieces
  \<open>ds\<close> arrive and then the mark \<open>[DONE]\<close>, the promise is resolved with the text up to the end of the
  first block that is complete when a piece arrives, or with the whole text; that text is a prefix
  of what was sent, and no event that comes later changes the result.\<close>

theorem completion_cut:
  assumes "\<And>d. d \<in> set ds \<Longrightarrow> d \<noteq> [] \<and> parse_chunk (enc d) = Inr (Some d) \<and> enc d \<noteq> ''[DONE]''"
  shows "cp_outcome (streamAgentCompletionOnce parse_chunk parse_error False
      (map (\<lambda>d. MessageEvent (enc d)) ds @ [MessageEvent ''[DONE]''] @ later)) =
      Some (Inr (cut_pieces [] ds)) \<and> (\<exists>rest. concat ds = cut_pieces [] ds @ rest)"
proof -
  have s: "cp_outcome (start_completion False) = None" "\<not> cp_stopped (start_completion False)"
    "cp_rawContent (start_completion False) = []" by (simp_all add: start_completion_def)
  have "cp_outcome (foldl (completion_step parse_chunk parse_error) (start_completion False)
      (map (\<lambda>d. MessageEvent (enc d)) ds @ [MessageEvent ''[DONE]''] @ later)) = Some (Inr (cut_pieces [] ds))"
    using completion_run [OF _ s(1,2), of ds parse_chunk enc parse_error later] assms unfolding s(3) by blast
  then show ?thesis using cut_pieces_prefix [of "[]" ds] by (simp add: streamAgentCompletionOnce_def)
qed


theorem completion_cut_witness:
  "cp_outcome (streamAgentCompletionOnce (\<lambda>s. Inr (Some s)) (\<lambda>_. None) False
     [MessageEvent ''a <agent_tools>'', MessageEvent ''x</agent_tools> b'', MessageEvent ''[DONE]'', ErrorEvent None]) =
   Some (Inr ''a <agent_tools>x</agent_tools>'')"
proof -
  let ?ds = "[''a <agent_tools>'', ''x</agent_tools> b'']"
  have "cp_outcome (streamAgentCompletionOnce (\<lambda>s. Inr (Some s)) (\<lambda>_. None) False
      (map (\<lambda>d. MessageEvent d) ?ds @ [MessageEvent ''[DONE]''] @ [ErrorEvent None])) =
      Some (Inr (cut_pieces [] ?ds))"
    by (rule conjunct1 [OF completion_cut]) auto
  moreover have "cut_pieces [] ?ds = ''a <agent_tools>x</agent_tools>''"
    by (simp add: getCompleteAgentToolBlockEnd_def text_eval to_lower_char_def is_word_char_def FENCE_def)
  ultimately show ?thesis by simp
qed

section \<open>What retrying does\<close>

fun reconnects :: "stream_callback list \<Rightarrow> (nat \<times> nat) list" where
  "reconnects [] = []"
| "reconnects (Visible_Content s # cbs) = reconnects cbs"
| "reconnects (Reconnect e n m delay # cbs) = (n, delay) # reconnects cbs"

lemma agent_reconnects_append [simp]: "reconnects (a @ b) = reconnects a @ reconnects b"
  by (induction a rule: reconnects.induct) simp_all

lemma reconnects_shown [simp]: "reconnects (map Visible_Content xs) = []"
  by (induction xs) simp_all


lemma retry_run_spec:
  assumes "retry_run final c as = (cbs, res)" "c \<le> MAX_STREAM_RETRIES"
  shows "c + length (reconnects cbs) \<le> MAX_STREAM_RETRIES \<and>
    reconnects cbs = map (\<lambda>n. (n, retry_delay n)) [Suc c..<Suc (c + length (reconnects cbs))] \<and>
    (\<forall>r. res = Some r \<longrightarrow> length (reconnects cbs) < length as \<and>
       at_result (as ! length (reconnects cbs)) = Some r) \<and>
    (\<forall>i < length (reconnects cbs). i < length as \<and> (\<exists>e. at_result (as ! i) = Some (Inl e) \<and> \<not> final e)) \<and>
    (res = None \<longrightarrow> length as \<le> MAX_STREAM_RETRIES - c \<or>
       (\<exists>a \<in> set as. at_result a = None \<or> at_stop_waiting a))"
  using assms
proof (induction as arbitrary: c cbs res)
  case (Cons a as)
  show ?case
  proof (cases "\<exists>e. at_result a = Some (Inl e) \<and> \<not> (at_stopped a \<or> final e \<or> c \<ge> MAX_STREAM_RETRIES) \<and>
      \<not> at_stop_waiting a")
    case True
    then obtain e where e: "at_result a = Some (Inl e)" "\<not> (at_stopped a \<or> final e \<or> c \<ge> MAX_STREAM_RETRIES)"
      "\<not> at_stop_waiting a" by blast
    obtain cbs' res' where r: "retry_run final (c + 1) as = (cbs', res')" by fastforce
    let ?n = "length (reconnects cbs')"
    have res: "res = res'" and cbs: "reconnects cbs = (c + 1, retry_delay (c + 1)) # reconnects cbs'"
      using Cons.prems(1) e r by (auto simp: Let_def)
    note IH = Cons.IH [OF r]
    have up: "[Suc c..<Suc (c + Suc ?n)] = Suc c # [Suc (Suc c)..<Suc (Suc c + ?n)]"
      by (subst upt_conv_Cons) simp_all
    have all: "(\<forall>i < Suc ?n. i < length (a # as) \<and> (\<exists>e. at_result ((a # as) ! i) = Some (Inl e) \<and> \<not> final e))"
      using IH e by (auto simp: less_Suc_eq_0_disj)
    show ?thesis
      using IH e res cbs up all by (auto simp del: upt_Suc)
  next
    case False
    with Cons.prems show ?thesis
      by (auto simp: Let_def split: option.splits sum.splits if_splits)
  qed
qed simp

text \<open>retrying is bounded. A request is repeated at most five times, after 5, 20, 45, 90 and 120
  seconds, and the user is told the number of each attempt; the result is that of the last attempt
  made, every earlier one failed with an error that may be retried, and with six attempts that all
  come to an end and no stop in between there is a result.\<close>

theorem retries_bounded:
  assumes "streamAgentResponsesCompletion attempts = (cbs, res)"
  shows "length (reconnects cbs) \<le> 5 \<and>
    reconnects cbs = take (length (reconnects cbs)) [(1, 5000), (2, 20000), (3, 45000), (4, 90000), (5, 120000)] \<and>
    (\<forall>r. res = Some r \<longrightarrow> at_result (attempts ! length (reconnects cbs)) = Some r) \<and>
    (\<forall>i < length (reconnects cbs). \<exists>e. at_result (attempts ! i) = Some (Inl e) \<and>
       \<not> isNonRetryableAgentStreamError e) \<and>
    (6 \<le> length attempts \<and> (\<forall>a \<in> set attempts. at_result a \<noteq> None \<and> \<not> at_stop_waiting a) \<longrightarrow> res \<noteq> None)"
proof -
  let ?n = "length (reconnects cbs)"
  note spec = retry_run_spec [OF assms [unfolded streamAgentResponsesCompletion_def], unfolded MAX_STREAM_RETRIES_def, simplified]
  have n: "?n \<le> 5" using spec by blast
  have "reconnects cbs = map (\<lambda>n. (n, retry_delay n)) [1..<Suc ?n]" using spec by simp
  also have "\<dots> = take ?n (map (\<lambda>n. (n, retry_delay n)) [1..<6])" using n by (simp add: take_map del: upt_Suc)
  also have "map (\<lambda>n. (n, retry_delay n)) [1..<6] = [(1, 5000), (2, 20000), (3, 45000), (4, 90000), (5, 120000)]"
  proof -
    have "[1..<6] = [1, 2, 3, 4, 5 :: nat]" by (simp add: upt_conv_Cons)
    then show ?thesis by (simp add: retry_delay_def STREAM_RETRY_DELAYS_def)
  qed
  finally have "reconnects cbs = take ?n [(1, 5000), (2, 20000), (3, 45000), (4, 90000), (5, 120000)]" .
  then show ?thesis using spec n by auto
qed


definition sample_attempt :: "string + responses_result \<Rightarrow> responses_result attempt" where
  "sample_attempt r = \<lparr>at_shown = [], at_result = Some r, at_stopped = False, at_stop_waiting = False\<rparr>"

theorem retries_bounded_witness:
  "\<exists>cbs. streamAgentResponsesCompletion
       [sample_attempt (Inl ''x''), sample_attempt (Inl ''y''), sample_attempt (Inl ''invalid_request'')] =
       (cbs, Some (Inl ''invalid_request'')) \<and> reconnects cbs = [(1, 5000), (2, 20000)]"
proof -
  let ?as = "[sample_attempt (Inl ''x''), sample_attempt (Inl ''y''), sample_attempt (Inl ''invalid_request'')]"
  obtain cbs res where r: "streamAgentResponsesCompletion ?as = (cbs, res)" by fastforce
  have nr: "\<not> isNonRetryableAgentStreamError ''x''" "\<not> isNonRetryableAgentStreamError ''y''"
    "isNonRetryableAgentStreamError ''invalid_request''"
    by (simp_all add: isNonRetryableAgentStreamError_def str_includes_def)
  then have "length (reconnects cbs) = 2" "res = Some (Inl ''invalid_request'')"
    using r by (auto simp: streamAgentResponsesCompletion_def sample_attempt_def MAX_STREAM_RETRIES_def Let_def)
  then show ?thesis using retries_bounded [OF r] r by simp
qed

end
