(* ===== verification/Agent_Loop.thy ===== *)
theory Agent_Loop
  imports Agent_Completion
begin

text \<open>
  The agent of the component \<open>Playground\<close>, from \<^verbatim>\<open>features/playground/index.tsx\<close>: one run of
  \<open>runAgentConversation\<close> with the approval of tool calls and the stop button. The run is a state machine whose
  phases are the places where the code awaits something; \<open>agent_step\<close> gives the effect of what may
  happen there: a callback or the end of the answer stream, the end of the review, a decision of
  the user, the end of the tools, and a stop, which may come at any time.

  The texts of the interface come from the function \<open>t\<close> of the translation library, and from three
  Chinese templates; the keys of messages and the ids of approvals come from \<open>nanoid\<close> and
  \<open>crypto.randomUUID\<close>. They are fields of the context, with a counter in the state.
\<close>

section \<open>Context and state\<close>

record agent_texts =
  tx_t :: "string \<Rightarrow> string"
  tx_reconnect :: "string \<Rightarrow> nat \<Rightarrow> nat \<Rightarrow> string"
  tx_malformed :: string
  tx_instructions :: "string \<Rightarrow> bool \<Rightarrow> agent_helper_status option \<Rightarrow> string"

record ('e, 'h) agent_context =
  cx_texts :: agent_texts
  cx_nanoid :: "nat \<Rightarrow> string"
  cx_config :: playground_config
  cx_enabled :: parameter_enabled
  cx_platform :: "('e, 'h) platform"
  cx_fuel :: nat
  cx_runtime :: "'h agent_tool_runtime"
  cx_workspaceName :: string
  cx_conversationId :: "string option"
  cx_helperStatus :: "agent_helper_status option"
  cx_json_calls :: "string \<Rightarrow> agent_tool_call list option"

text \<open>Where a run awaits: the answer of step \<open>n\<close>, the review of calls, the decision on the approval of the
  given id and message key, or the tools (the calls to run, all calls, the results of denied
  calls and the key of the message that shows them). \<open>Finished\<close>: the function has returned.\<close>

datatype phase =
    Idle
  | AwaitAnswer nat
  | AwaitReview nat "agent_tool_call list"
  | AwaitApproval nat "agent_tool_call list" string string
  | AwaitTools nat "agent_tool_call list" "agent_tool_call list" "agent_tool_result list" "string option"
  | Finished

record 'e agent_state =
  ag_messages :: "message list"
  ag_working :: "message list"
  ag_phase :: phase
  ag_env :: 'e
  ag_running :: bool
  ag_stopped :: bool
  ag_approvals :: "string list"
  ag_refreshKey :: nat
  ag_toasts :: "string list"
  ag_ids :: nat
  ag_requests :: "(responses_request + chat_completion_request) list"

abbreviation (input) tr :: "('e, 'h) agent_context \<Rightarrow> string \<Rightarrow> string" where
  "tr cx s \<equiv> tx_t (cx_texts cx) s"

definition use_native :: "('e, 'h) agent_context \<Rightarrow> bool" where
  "use_native cx \<longleftrightarrow>
     isOpenAIReasoningModel (pc_model (cx_config cx)) \<and> \<not> shouldUseOpenAICompatibleMode (cx_config cx)"

section \<open>Messages\<close>

definition set_last :: "(message \<Rightarrow> message) \<Rightarrow> message list \<Rightarrow> message list" where
  "set_last f ms = (if ms = [] then [] else butlast ms @ [f (last ms)])"

text \<open>\<open>versions: [{ ...message.versions[0], content }]\<close>\<close>

definition with_content :: "string \<Rightarrow> message \<Rightarrow> message" where
  "with_content content m =
     m\<lparr>m_versions := [case m_versions m of
          [] \<Rightarrow> \<lparr>mv_id = None, mv_content = content\<rparr> | v # _ \<Rightarrow> v\<lparr>mv_content := content\<rparr>]\<rparr>"

definition updateLastAssistantContent ::
  "string \<Rightarrow> message_status \<Rightarrow> string option \<Rightarrow> message list \<Rightarrow> message list" where
  "updateLastAssistantContent content status errorCode working =
     set_last (\<lambda>m. (with_content content m)\<lparr>m_status := Some status, m_errorCode := errorCode\<rparr>) working"

definition display_result :: "agent_tool_result \<Rightarrow> agent_tool_display_result" where
  "display_result r =
     \<lparr>dr_id = tr_id r, dr_tool = tr_tool r, dr_path = tr_path r, dr_ok = tr_ok r,
       dr_status = Some ToolComplete, dr_requiresApproval = False, dr_summary = tr_summary r,
       dr_output = tr_output r, dr_diff = tr_diff r, dr_error = tr_error r\<rparr>"

text \<open>\<open>createToolMessage\<close> for calls that have no results yet.\<close>

definition display_call ::
  "('e, 'h) agent_context \<Rightarrow> tool_display_status \<Rightarrow> agent_tool_call \<Rightarrow> agent_tool_display_result" where
  "display_call cx status call =
     (let requires = requiresAgentToolApproval call; denied = (status = Denied \<and> requires) in
      \<lparr>dr_id = tc_id call, dr_tool = tc_tool call, dr_path = text_or (tc_path call) ''.'', dr_ok = \<not> denied,
        dr_status = Some (if denied then Denied else status), dr_requiresApproval = requires,
        dr_summary = Some (if denied then tr cx ''Permission denied''
          else if status = Pending
          then (if requires then tr cx ''Waiting for permission'' else tr cx ''Ready to run'')
          else tr cx ''Running''),
        dr_output = None, dr_diff = None, dr_error = (if denied then Some ''permission_denied'' else None)\<rparr>)"

definition tool_message :: "('e, 'h) agent_context \<Rightarrow> nat \<Rightarrow> string \<Rightarrow> agent_tool_display_result list \<Rightarrow> message" where
  "tool_message cx n content results =
     (createUserMessage (cx_nanoid cx n) (cx_nanoid cx (n + 1)) content [])
       \<lparr>m_isAgentToolResult := True, m_agentToolResults := Some results\<rparr>"

definition pending_tool_message ::
  "('e, 'h) agent_context \<Rightarrow> nat \<Rightarrow> tool_display_status \<Rightarrow> agent_tool_call list \<Rightarrow> message" where
  "pending_tool_message cx n status calls = tool_message cx n [] (map (display_call cx status) calls)"

definition complete_tool_message :: "('e, 'h) agent_context \<Rightarrow> nat \<Rightarrow> agent_tool_result list \<Rightarrow> message" where
  "complete_tool_message cx n results =
     tool_message cx n (formatAgentToolResults results) (map display_result results)"

definition with_key :: "string option \<Rightarrow> message \<Rightarrow> message" where
  "with_key key m = (case key of None \<Rightarrow> m | Some k \<Rightarrow> m\<lparr>m_key := k\<rparr>)"

text \<open>The results shown with a request for approval; the review covers the first calls only, and a call
  without review shows its default summary.\<close>

definition approval_result ::
  "('e, 'h) agent_context \<Rightarrow> agent_tool_call \<Rightarrow> agent_tool_result option \<Rightarrow> agent_tool_display_result" where
  "approval_result cx call review =
     \<lparr>dr_id = tc_id call, dr_tool = tc_tool call, dr_path = text_or (tc_path call) ''.'', dr_ok = False,
       dr_status = Some Pending, dr_requiresApproval = requiresAgentToolApproval call,
       dr_summary = Some (text_or (Option.bind review tr_summary)
         (if requiresAgentToolApproval call then tr cx ''Waiting for permission'' else tr cx ''Ready to run'')),
       dr_output = Option.bind review tr_output, dr_diff = Option.bind review tr_diff,
       dr_error = Option.bind review tr_error\<rparr>"

definition approval_results ::
  "('e, 'h) agent_context \<Rightarrow> agent_tool_call list \<Rightarrow> agent_tool_result list \<Rightarrow> agent_tool_display_result list" where
  "approval_results cx calls reviews =
     map (\<lambda>(i, call). approval_result cx call (if i < length reviews then Some (reviews ! i) else None))
       (enumerate 0 calls)"

definition denied_result :: "('e, 'h) agent_context \<Rightarrow> agent_tool_call \<Rightarrow> agent_tool_result" where
  "denied_result cx call =
     \<lparr>tr_id = tc_id call, tr_tool = tc_tool call, tr_path = text_or (tc_path call) ''.'', tr_ok = False,
       tr_summary = Some (tr cx ''Permission denied''), tr_output = None, tr_diff = None,
       tr_error = Some ''permission_denied''\<rparr>"

section \<open>The ends of a run\<close>

text \<open>The \<open>finally\<close> block: nothing is reset once the user has stopped.\<close>

definition leave_run :: "'e agent_state \<Rightarrow> 'e agent_state" where
  "leave_run st =
     (if ag_stopped st then st\<lparr>ag_phase := Finished\<rparr>
      else st\<lparr>ag_phase := Finished, ag_running := False\<rparr>)"

text \<open>The \<open>catch\<close> block and then the \<open>finally\<close> block.\<close>

definition fail_run :: "('e, 'h) agent_context \<Rightarrow> string \<Rightarrow> 'e agent_state \<Rightarrow> 'e agent_state" where
  "fail_run cx message st =
     (if ag_stopped st then leave_run st
      else
        (let working = set_last (\<lambda>m. (with_content (tr cx ''Agent request failed'' @ '': '' @ message) m)
               \<lparr>m_status := Some Error, m_errorCode := Some ''agent_error''\<rparr>) (ag_working st) in
         leave_run (st\<lparr>ag_toasts := ag_toasts st @ [message], ag_working := working, ag_messages := working\<rparr>)))"

text \<open>The text shown when the last allowed step has used tools.\<close>

definition limit_run :: "('e, 'h) agent_context \<Rightarrow> 'e agent_state \<Rightarrow> 'e agent_state" where
  "limit_run cx st =
     (let working = set_last (\<lambda>m. (with_content (tr cx ''Agent stopped after reaching the tool step limit'') m)
            \<lparr>m_status := Some Complete\<rparr>) (ag_working st) in
      leave_run (st\<lparr>ag_working := working, ag_messages := working\<rparr>))"

section \<open>The loop\<close>

definition createAgentSystemMessage ::
  "('e, 'h) agent_context \<Rightarrow> string \<Rightarrow> string \<Rightarrow> agent_helper_status option \<Rightarrow> message" where
  "createAgentSystemMessage cx vid workspaceName helperStatus =
     plain_message ''agent-system'' System
       [createMessageVersion vid (tx_instructions (cx_texts cx) workspaceName False helperStatus)]"

text \<open>The payload of a step, for the Responses interface or for chat completions, or the error thrown.\<close>

definition build_request ::
  "('e, 'h) agent_context \<Rightarrow> string \<Rightarrow> message list \<Rightarrow> string + (responses_request + chat_completion_request)" where
  "build_request cx vid working =
     (let config = (cx_config cx)\<lparr>pc_stream := True\<rparr> in
      if use_native cx
      then (case buildAgentResponsesPayload (tx_instructions (cx_texts cx)) working config (cx_enabled cx)
              (cx_workspaceName cx) (cx_conversationId cx) (cx_helperStatus cx) of
              Inl e \<Rightarrow> Inl e
            | Inr payload \<Rightarrow> if rr_input payload = [] then Inl ''responses_input_empty'' else Inr (Inl payload))
      else Inr (Inr (buildChatCompletionPayload
        (createAgentSystemMessage cx vid (cx_workspaceName cx) (cx_helperStatus cx) # working) config
        (cx_enabled cx) (buildAgentPromptCacheKey (cx_conversationId cx)))))"

text \<open>The start of an iteration: the step limit, the payload and its errors, and the refusal of the stream
  to start once the user has stopped.\<close>

definition begin_step :: "('e, 'h) agent_context \<Rightarrow> nat \<Rightarrow> 'e agent_state \<Rightarrow> 'e agent_state" where
  "begin_step cx n st =
     (if n \<ge> MAX_AGENT_STEPS then limit_run cx st
      else
        (case build_request cx (cx_nanoid cx (ag_ids st)) (ag_working st) of
           Inl e \<Rightarrow> fail_run cx e st
         | Inr request \<Rightarrow>
             if ag_stopped st then fail_run cx ''agent_stopped'' st
             else st\<lparr>ag_phase := AwaitAnswer n, ag_ids := ag_ids st + 1,
               ag_requests := ag_requests st @ [request]\<rparr>))"

definition run_callback :: "('e, 'h) agent_context \<Rightarrow> stream_callback \<Rightarrow> 'e agent_state \<Rightarrow> 'e agent_state" where
  "run_callback cx cb st =
     (let working = (case cb of
            Visible_Content content \<Rightarrow> updateLastAssistantContent content Streaming None (ag_working st)
          | Reconnect e attempt maxAttempts delay \<Rightarrow>
              updateLastAssistantContent (tx_reconnect (cx_texts cx) e attempt maxAttempts) Loading
                (Some ''reconnecting'') (ag_working st))
      in st\<lparr>ag_working := working, ag_messages := working\<rparr>)"

text \<open>\<open>executeToolCallsWithApproval\<close> up to its first \<open>await\<close>.\<close>

definition start_tools :: "('e, 'h) agent_context \<Rightarrow> nat \<Rightarrow> agent_tool_call list \<Rightarrow> 'e agent_state \<Rightarrow> 'e agent_state" where
  "start_tools cx n calls st =
     (if \<exists>call \<in> set calls. requiresAgentToolApproval call
      then st\<lparr>ag_phase := AwaitReview n calls\<rparr>
      else st\<lparr>ag_messages := ag_working st @ [pending_tool_message cx (ag_ids st) Running calls],
              ag_ids := ag_ids st + 2, ag_phase := AwaitTools n calls calls [] None\<rparr>)"

definition complete_answer ::
  "bool \<Rightarrow> string \<Rightarrow> agent_tool_call list \<Rightarrow> responses_output_history_item list \<Rightarrow> message \<Rightarrow> message" where
  "complete_answer native raw calls items m =
     (finalizeMessage ((with_content (stripAgentToolBlocks raw) m)
        \<lparr>m_apiContent := (if calls \<noteq> [] then Some raw else None),
          m_agentResponsesOutputItems := (if native \<and> items \<noteq> [] then Some items else None)\<rparr>) None)
       \<lparr>m_status := Some Complete\<rparr>"

definition handle_answer ::
  "('e, 'h) agent_context \<Rightarrow> nat \<Rightarrow> string + responses_result \<Rightarrow> 'e agent_state \<Rightarrow> 'e agent_state" where
  "handle_answer cx n answer st =
     (case answer of
        Inl e \<Rightarrow> fail_run cx e st
      | Inr result \<Rightarrow>
          if ag_stopped st then leave_run st
          else
            (let raw = rz_rawContent result;
                 calls = (if use_native cx then rz_nativeToolCalls result
                          else parseAgentToolCalls (cx_json_calls cx) raw) in
             if hasAgentToolSyntax raw \<and> calls = []
             then fail_run cx (tx_malformed (cx_texts cx) @ take 600 raw) st
             else
               (let working = set_last (complete_answer (use_native cx) raw calls (rz_nativeOutputItems result))
                      (ag_working st);
                    st' = st\<lparr>ag_working := working, ag_messages := working\<rparr>
                in if calls = [] then leave_run st' else start_tools cx n calls st')))"

text \<open>The end of the review: \<open>requestToolApproval\<close>.\<close>

definition requestToolApproval ::
  "('e, 'h) agent_context \<Rightarrow> nat \<Rightarrow> agent_tool_call list \<Rightarrow> agent_tool_result list \<Rightarrow> 'e agent_state \<Rightarrow> 'e agent_state" where
  "requestToolApproval cx n calls reviews st =
     (let approvalId = cx_nanoid cx (ag_ids st);
          message = (tool_message cx (ag_ids st + 1) [] (approval_results cx calls reviews))
            \<lparr>m_agentToolApprovalId := Some approvalId\<rparr>
      in st\<lparr>ag_messages := ag_working st @ [message], ag_ids := ag_ids st + 3,
            ag_approvals := set_add (ag_approvals st) approvalId,
            ag_phase := AwaitApproval n calls approvalId (m_key message)\<rparr>)"

definition finish_review ::
  "('e, 'h) agent_context \<Rightarrow> nat \<Rightarrow> agent_tool_call list \<Rightarrow> 'e agent_state \<Rightarrow> 'e agent_state" where
  "finish_review cx n calls st =
     (case buildAgentToolReviewResults (cx_platform cx) (cx_runtime cx) calls (ag_env st) of
        (Inl e, env) \<Rightarrow> fail_run cx e (st\<lparr>ag_env := env\<rparr>)
      | (Inr reviews, env) \<Rightarrow> requestToolApproval cx n calls reviews (st\<lparr>ag_env := env\<rparr>))"

text \<open>\<open>executeToolCallsWithApproval\<close> after the decision: all calls run, or only those that need no approval.\<close>

definition after_decision ::
  "('e, 'h) agent_context \<Rightarrow> nat \<Rightarrow> agent_tool_call list \<Rightarrow> string \<Rightarrow> bool \<Rightarrow> 'e agent_state \<Rightarrow> 'e agent_state" where
  "after_decision cx n calls key approved st =
     (let status = (if approved then Running else Denied);
          message = with_key (Some key) (pending_tool_message cx (ag_ids st) status calls);
          safeCalls = (if approved then calls else filter (\<lambda>c. \<not> requiresAgentToolApproval c) calls);
          deniedResults = (if approved then []
            else map (denied_result cx) (filter requiresAgentToolApproval calls))
      in st\<lparr>ag_messages := ag_working st @ [message], ag_ids := ag_ids st + 2,
            ag_phase := AwaitTools n safeCalls calls deniedResults (Some key)\<rparr>)"

text \<open>The end of the tools, the next message of the assistant and the next iteration. The tools are not
  called when no call is left.\<close>

definition finish_tools ::
  "('e, 'h) agent_context \<Rightarrow> nat \<Rightarrow> agent_tool_call list \<Rightarrow> agent_tool_result list \<Rightarrow> string option \<Rightarrow>
   'e agent_state \<Rightarrow> 'e agent_state" where
  "finish_tools cx n calls denied key st =
     (case (if calls = [] then ret [] else executeAgentToolCalls (cx_fuel cx) (cx_platform cx) (cx_runtime cx) calls)
         (ag_env st) of
        (Inl e, env) \<Rightarrow> fail_run cx e (st\<lparr>ag_env := env\<rparr>)
      | (Inr results, env) \<Rightarrow>
          (let message = with_key key (complete_tool_message cx (ag_ids st) (results @ denied));
               next = createLoadingAssistantMessage (cx_nanoid cx (ag_ids st + 2)) (cx_nanoid cx (ag_ids st + 3));
               working = ag_working st @ [message, next]
           in begin_step cx (n + 1) (st\<lparr>ag_env := env, ag_working := working, ag_messages := working,
                ag_ids := ag_ids st + 4,
                ag_refreshKey := ag_refreshKey st +
                  (if \<exists>c \<in> set calls. isWorkspaceMutatingToolCall c then 1 else 0)\<rparr>)))"

section \<open>The user\<close>

definition decide_result ::
  "('e, 'h) agent_context \<Rightarrow> bool \<Rightarrow> agent_tool_display_result \<Rightarrow> agent_tool_display_result" where
  "decide_result cx approved r =
     (let granted = approved \<or> \<not> dr_requiresApproval r in
      r\<lparr>dr_status := Some (if granted then Running else Denied), dr_ok := granted,
         dr_summary := Some (if granted then tr cx ''Running'' else tr cx ''Permission denied''),
         dr_error := (if granted then None else Some ''permission_denied'')\<rparr>)"

text \<open>The click on approve or deny; the run then goes on.\<close>

definition handleApproveAgentToolCalls ::
  "('e, 'h) agent_context \<Rightarrow> string \<Rightarrow> bool \<Rightarrow> 'e agent_state \<Rightarrow> 'e agent_state" where
  "handleApproveAgentToolCalls cx approvalId approved st =
     (if approvalId \<notin> set (ag_approvals st) then st
      else
        (let st' = st\<lparr>ag_approvals := removeAll approvalId (ag_approvals st),
               ag_messages := map (\<lambda>m. if m_agentToolApprovalId m = Some approvalId
                 then m\<lparr>m_agentToolApprovalId := None,
                   m_agentToolResults := Some (map (decide_result cx approved)
                     (case m_agentToolResults m of None \<Rightarrow> [] | Some rs \<Rightarrow> rs))\<rparr>
                 else m) (ag_messages st)\<rparr>
         in case ag_phase st of
              AwaitApproval n calls i key \<Rightarrow>
                if i = approvalId then after_decision cx n calls key approved st' else st'
            | _ \<Rightarrow> st'))"

definition stop_message :: "('e, 'h) agent_context \<Rightarrow> message \<Rightarrow> message" where
  "stop_message cx m =
     (let content = trim (case m_versions m of [] \<Rightarrow> [] | v # _ \<Rightarrow> mv_content v) in
      (finalizeMessage (with_content (if content = [] then tr cx ''Generation was interrupted'' else content) m)
        None)\<lparr>m_status := Some Complete, m_errorCode := None\<rparr>)"

definition stopped_messages :: "('e, 'h) agent_context \<Rightarrow> message list \<Rightarrow> message list" where
  "stopped_messages cx prev =
     (if prev = [] then prev
      else if m_from (last prev) \<noteq> Assistant then prev
      else if m_status (last prev) \<noteq> Some Loading \<and> m_status (last prev) \<noteq> Some Streaming then prev
      else set_last (stop_message cx) prev)"

text \<open>The stop button: all pending approvals are refused, and the run that waits for one goes on.\<close>

definition stopAgentGeneration :: "('e, 'h) agent_context \<Rightarrow> 'e agent_state \<Rightarrow> 'e agent_state" where
  "stopAgentGeneration cx st =
     (let st' = st\<lparr>ag_stopped := True, ag_approvals := [], ag_running := False,
            ag_messages := stopped_messages cx (ag_messages st)\<rparr>
      in case ag_phase st of
           AwaitApproval n calls i key \<Rightarrow>
             if i \<in> set (ag_approvals st) then after_decision cx n calls key False st' else st'
         | _ \<Rightarrow> st')"

text \<open>Sending a message in agent mode, with a workspace at hand, and the start of \<open>runAgentConversation\<close>.\<close>

definition runAgentConversation :: "('e, 'h) agent_context \<Rightarrow> message list \<Rightarrow> 'e agent_state \<Rightarrow> 'e agent_state" where
  "runAgentConversation cx initialMessages st =
     begin_step cx 0 (st\<lparr>ag_stopped := False, ag_running := True, ag_working := initialMessages\<rparr>)"

definition handleSendMessage ::
  "('e, 'h) agent_context \<Rightarrow> string \<Rightarrow> playground_attachment list \<Rightarrow> 'e agent_state \<Rightarrow> 'e agent_state" where
  "handleSendMessage cx text attachments st =
     (if ag_running st then st
      else
        (let n = ag_ids st;
             userMessage = createUserMessage (cx_nanoid cx n) (cx_nanoid cx (n + 1)) text attachments;
             assistantMessage = createLoadingAssistantMessage (cx_nanoid cx (n + 2)) (cx_nanoid cx (n + 3));
             newMessages = ag_messages st @ [userMessage, assistantMessage]
         in runAgentConversation cx newMessages (st\<lparr>ag_ids := n + 4, ag_messages := newMessages\<rparr>)))"

section \<open>Steps\<close>

datatype agent_event =
    Send string "playground_attachment list"
  | StreamCallback stream_callback
  | Answer "string + responses_result"
  | ReviewDone
  | Decide string bool
  | ToolsDone
  | Stop

text \<open>A new run starts only when no run awaits anything that can still happen: before any run, after the end
  of one, or when a stop has left the answer of one unsettled for good. The stream gives neither
  callbacks nor an answer after a stop. An event that does not fit the phase has no effect.\<close>

fun agent_step :: "('e, 'h) agent_context \<Rightarrow> 'e agent_state \<Rightarrow> agent_event \<Rightarrow> 'e agent_state" where
  "agent_step cx st (Send text attachments) =
     (if ag_phase st = Idle \<or> ag_phase st = Finished \<or> (ag_stopped st \<and> (\<exists>n. ag_phase st = AwaitAnswer n))
      then handleSendMessage cx text attachments st else st)"
| "agent_step cx st (StreamCallback cb) =
     (case ag_phase st of AwaitAnswer n \<Rightarrow> if ag_stopped st then st else run_callback cx cb st | _ \<Rightarrow> st)"
| "agent_step cx st (Answer answer) =
     (case ag_phase st of AwaitAnswer n \<Rightarrow> if ag_stopped st then st else handle_answer cx n answer st | _ \<Rightarrow> st)"
| "agent_step cx st ReviewDone =
     (case ag_phase st of AwaitReview n calls \<Rightarrow> finish_review cx n calls st | _ \<Rightarrow> st)"
| "agent_step cx st (Decide approvalId approved) = handleApproveAgentToolCalls cx approvalId approved st"
| "agent_step cx st ToolsDone =
     (case ag_phase st of AwaitTools n calls allCalls denied key \<Rightarrow> finish_tools cx n calls denied key st | _ \<Rightarrow> st)"
| "agent_step cx st Stop = stopAgentGeneration cx st"

definition agent_start :: "message list \<Rightarrow> 'e \<Rightarrow> 'e agent_state" where
  "agent_start messages env =
     \<lparr>ag_messages = messages, ag_working = [], ag_phase = Idle, ag_env = env, ag_running = False,
       ag_stopped = False, ag_approvals = [], ag_refreshKey = 0, ag_toasts = [], ag_ids = 0, ag_requests = []\<rparr>"

definition agent_run :: "('e, 'h) agent_context \<Rightarrow> 'e agent_state \<Rightarrow> agent_event list \<Rightarrow> 'e agent_state" where
  "agent_run cx st events = foldl (agent_step cx) st events"


section \<open>The invariant of a run\<close>

fun phase_step :: "phase \<Rightarrow> nat option" where
  "phase_step (AwaitAnswer n) = Some n"
| "phase_step (AwaitReview n calls) = Some n"
| "phase_step (AwaitApproval n calls i key) = Some n"
| "phase_step (AwaitTools n calls allCalls denied key) = Some n"
| "phase_step _ = None"

text \<open>While a run awaits something its step is below the limit and it has messages; the agent counts as
  running exactly then, unless it was stopped; and a run that ended by itself has left no message
  that still loads.\<close>

definition run_inv :: "'e agent_state \<Rightarrow> bool" where
  "run_inv st \<longleftrightarrow>
     (\<forall>n. phase_step (ag_phase st) = Some n \<longrightarrow> n < MAX_AGENT_STEPS \<and> ag_working st \<noteq> []) \<and>
     (ag_running st \<longleftrightarrow> phase_step (ag_phase st) \<noteq> None \<and> \<not> ag_stopped st) \<and>
     (ag_phase st = Finished \<and> \<not> ag_stopped st \<longrightarrow> ag_messages st \<noteq> [] \<and> \<not> is_stuck (last (ag_messages st)))"

text \<open>Inside a run, between two phases.\<close>

definition in_run :: "'e agent_state \<Rightarrow> bool" where
  "in_run st \<longleftrightarrow> ag_working st \<noteq> [] \<and> (ag_running st \<longleftrightarrow> \<not> ag_stopped st)"

lemma in_runI: "run_inv st \<Longrightarrow> phase_step (ag_phase st) = Some n \<Longrightarrow> in_run st \<and> n < MAX_AGENT_STEPS"
  by (simp add: run_inv_def in_run_def)

lemma set_last_simps [simp]:
  "set_last f ms = [] \<longleftrightarrow> ms = []" "ms \<noteq> [] \<Longrightarrow> last (set_last f ms) = f (last ms)"
  "length (set_last f ms) = length ms"
  by (simp_all add: set_last_def)

lemma with_content_simps [simp]:
  "m_from (with_content c m) = m_from m" "m_status (with_content c m) = m_status m"
  by (simp_all add: with_content_def)

lemma leave_run_inv:
  "ag_messages st \<noteq> [] \<Longrightarrow> (\<not> ag_stopped st \<Longrightarrow> \<not> is_stuck (last (ag_messages st))) \<Longrightarrow>
   (ag_running st \<longleftrightarrow> \<not> ag_stopped st) \<Longrightarrow> run_inv (leave_run st)"
  by (simp add: run_inv_def leave_run_def)

lemma leave_stopped: "in_run st \<Longrightarrow> ag_stopped st \<Longrightarrow> run_inv (leave_run st)"
  by (simp add: run_inv_def leave_run_def in_run_def)

lemma fail_run_inv: "in_run st \<Longrightarrow> run_inv (fail_run cx e st)"
  by (simp add: fail_run_def leave_stopped Let_def)
    (auto intro!: leave_run_inv simp: in_run_def is_stuck_def)

lemma limit_run_inv: "in_run st \<Longrightarrow> run_inv (limit_run cx st)"
  unfolding limit_run_def Let_def by (rule leave_run_inv) (auto simp: in_run_def is_stuck_def)

lemma begin_step_inv: "in_run st \<Longrightarrow> run_inv (begin_step cx n st)"
  unfolding begin_step_def
  by (auto simp: limit_run_inv fail_run_inv split: sum.split) (simp add: run_inv_def in_run_def)

lemma callback_inv:
  assumes "run_inv st" "ag_phase st = AwaitAnswer n"
  shows "run_inv (run_callback cx cb st)"
  using assms
  by (cases cb) (auto simp: run_inv_def run_callback_def updateLastAssistantContent_def Let_def)

lemma start_tools_inv: "in_run st \<Longrightarrow> n < MAX_AGENT_STEPS \<Longrightarrow> run_inv (start_tools cx n calls st)"
  by (auto simp: start_tools_def run_inv_def in_run_def)

lemma complete_answer_inv:
  assumes "in_run st"
  shows "in_run (st\<lparr>ag_working := set_last (complete_answer b raw calls items) (ag_working st), ag_messages := ms\<rparr>)"
    and "run_inv (leave_run (st\<lparr>ag_working := set_last (complete_answer b raw calls items) (ag_working st),
      ag_messages := set_last (complete_answer b raw calls items) (ag_working st)\<rparr>))"
proof -
  show "in_run (st\<lparr>ag_working := set_last (complete_answer b raw calls items) (ag_working st), ag_messages := ms\<rparr>)"
    using assms by (simp add: in_run_def)
  show "run_inv (leave_run (st\<lparr>ag_working := set_last (complete_answer b raw calls items) (ag_working st),
      ag_messages := set_last (complete_answer b raw calls items) (ag_working st)\<rparr>))"
    using assms by (intro leave_run_inv) (auto simp: in_run_def is_stuck_def complete_answer_def)
qed

lemma answer_inv: "in_run st \<Longrightarrow> n < MAX_AGENT_STEPS \<Longrightarrow> run_inv (handle_answer cx n answer st)"
  by (cases answer) (simp_all add: handle_answer_def Let_def fail_run_inv leave_stopped start_tools_inv
      complete_answer_inv)

lemma request_inv: "in_run st \<Longrightarrow> n < MAX_AGENT_STEPS \<Longrightarrow> run_inv (requestToolApproval cx n calls reviews st)"
  by (auto simp: requestToolApproval_def run_inv_def in_run_def Let_def)

lemma in_run_env [simp]: "in_run (st\<lparr>ag_env := env\<rparr>) \<longleftrightarrow> in_run st"
  by (simp add: in_run_def)

lemma review_inv: "in_run st \<Longrightarrow> n < MAX_AGENT_STEPS \<Longrightarrow> run_inv (finish_review cx n calls st)"
  by (simp add: finish_review_def fail_run_inv request_inv split: prod.split sum.split)

lemma decision_inv: "in_run st \<Longrightarrow> n < MAX_AGENT_STEPS \<Longrightarrow> run_inv (after_decision cx n calls key b st)"
  by (auto simp: after_decision_def run_inv_def in_run_def Let_def)

lemma tools_inv: "in_run st \<Longrightarrow> run_inv (finish_tools cx n calls denied key st)"
  unfolding finish_tools_def Let_def
  by (auto simp: in_run_def split: prod.split sum.split intro!: fail_run_inv begin_step_inv)

lemma approve_inv: "run_inv st \<Longrightarrow> run_inv (handleApproveAgentToolCalls cx i b st)"
proof -
  assume inv: "run_inv st"
  let ?f = "\<lambda>m. if m_agentToolApprovalId m = Some i then m\<lparr>m_agentToolApprovalId := None,
      m_agentToolResults := Some (map (decide_result cx b) (case m_agentToolResults m of None \<Rightarrow> [] | Some rs \<Rightarrow> rs))\<rparr>
      else m"
  let ?st = "st\<lparr>ag_approvals := removeAll i (ag_approvals st), ag_messages := map ?f (ag_messages st)\<rparr>"
  have stuck: "is_stuck (?f m) \<longleftrightarrow> is_stuck m" for m by (simp add: is_stuck_def)
  have inv': "run_inv ?st" using inv stuck by (auto simp: run_inv_def last_map)
  moreover have "run_inv (after_decision cx n calls key b ?st)" if "ag_phase st = AwaitApproval n calls j key" for n calls j key
    using inv that by (intro decision_inv) (auto simp: run_inv_def in_run_def)
  ultimately show ?thesis
    using inv by (simp add: handleApproveAgentToolCalls_def Let_def split: phase.split)
qed

lemma stop_inv: "run_inv st \<Longrightarrow> run_inv (stopAgentGeneration cx st)"
proof -
  assume inv: "run_inv st"
  have "run_inv (st\<lparr>ag_stopped := True, ag_approvals := [], ag_running := False, ag_messages := ms\<rparr>)" for ms
    using inv by (simp add: run_inv_def)
  moreover have "run_inv (after_decision cx n calls key False
      (st\<lparr>ag_stopped := True, ag_approvals := [], ag_running := False, ag_messages := ms\<rparr>))"
    if "ag_phase st = AwaitApproval n calls j key" for n calls j key ms
    using inv that by (intro decision_inv) (auto simp: run_inv_def in_run_def)
  ultimately show ?thesis by (simp add: stopAgentGeneration_def Let_def split: phase.split)
qed

lemma send_inv: "run_inv st \<Longrightarrow> run_inv (handleSendMessage cx s as st)"
  by (simp add: handleSendMessage_def runAgentConversation_def Let_def) (auto intro!: begin_step_inv simp: in_run_def)

lemma step_inv: "run_inv st \<Longrightarrow> run_inv (agent_step cx st ev)"
proof (cases ev)
  case (Answer a)
  assume inv: "run_inv st"
  then show ?thesis using Answer answer_inv in_runI [OF inv] by (auto split: phase.split)
next
  case ReviewDone
  assume inv: "run_inv st"
  then show ?thesis using ReviewDone review_inv in_runI [OF inv] by (auto split: phase.split)
next
  case ToolsDone
  assume inv: "run_inv st"
  then show ?thesis using ToolsDone tools_inv in_runI [OF inv] by (auto split: phase.split)
qed (auto simp: send_inv stop_inv approve_inv callback_inv split: phase.split)

lemma start_inv: "run_inv (agent_start ms env)"
  by (simp add: run_inv_def agent_start_def)

lemma run_invariant: "run_inv (agent_run cx (agent_start ms env) evs)"
  unfolding agent_run_def by (induction evs rule: rev_induct) (simp_all add: start_inv step_inv)


section \<open>Consent\<close>

text \<open>The calls that a phase may still run: those that await a review or a decision are of supported tools,
  and those that run without a decision need none.\<close>

definition supported :: "agent_tool_call list \<Rightarrow> bool" where
  "supported calls \<longleftrightarrow> (\<forall>call \<in> set calls. tc_tool call \<in> set SUPPORTED_TOOLS)"

definition harmless :: "agent_tool_call list \<Rightarrow> bool" where
  "harmless calls \<longleftrightarrow> supported calls \<and> (\<forall>call \<in> set calls. \<not> requiresAgentToolApproval call)"

fun phase_safe :: "phase \<Rightarrow> bool" where
  "phase_safe (AwaitReview n calls) \<longleftrightarrow> supported calls"
| "phase_safe (AwaitApproval n calls i key) \<longleftrightarrow> supported calls"
| "phase_safe (AwaitTools n calls allCalls denied key) \<longleftrightarrow> harmless calls"
| "phase_safe _ \<longleftrightarrow> True"

definition untouched :: "('e \<Rightarrow> 'w) \<Rightarrow> 'w \<Rightarrow> 'e agent_state \<Rightarrow> bool" where
  "untouched ws w st \<longleftrightarrow> ws (ag_env st) = w \<and> phase_safe (ag_phase st)"

text \<open>An event that the user did not use to approve anything, whose answer has only calls that the stream
  parsed from items of the response.\<close>

fun without_approval :: "agent_event \<Rightarrow> bool" where
  "without_approval (Answer (Inr result)) \<longleftrightarrow>
     (\<forall>call \<in> set (rz_nativeToolCalls result). \<exists>fc. call_of_item fc = Some call)"
| "without_approval (Decide i approved) \<longleftrightarrow> \<not> approved"
| "without_approval _ \<longleftrightarrow> True"

lemma ends_simps [simp]:
  "ag_env (leave_run st) = ag_env st" "ag_phase (leave_run st) = Finished"
  "ag_env (fail_run cx e st) = ag_env st" "ag_phase (fail_run cx e st) = Finished"
  "ag_env (limit_run cx st) = ag_env st" "ag_phase (limit_run cx st) = Finished"
  by (simp_all add: leave_run_def fail_run_def limit_run_def Let_def)

lemma begin_step_env [simp]: "ag_env (begin_step cx n st) = ag_env st"
  by (simp add: begin_step_def split: sum.split)

lemma begin_step_phase: "ag_phase (begin_step cx n st) \<in> {Finished, AwaitAnswer n}"
  by (simp add: begin_step_def split: sum.split)

lemma begin_step_safe [simp]: "phase_safe (ag_phase (begin_step cx n st))"
  using begin_step_phase [of cx n st] by auto

lemma item_supported: "call_of_item fc = Some call \<Longrightarrow> tc_tool call \<in> set SUPPORTED_TOOLS"
  by (cases "fc_name fc \<in> set AGENT_TOOL_NAMES")
    (auto simp: call_of_item_def parseResponsesToolCallItem_def Let_def AGENT_TOOL_NAMES_def SUPPORTED_TOOLS_def)

lemma calls_supported:
  assumes "without_approval (Answer (Inr r))"
  shows "supported (rz_nativeToolCalls r)" "supported (parseAgentToolCalls js raw)"
proof -
  show "supported (rz_nativeToolCalls r)"
    using assms item_supported by (fastforce simp: supported_def)
  show "supported (parseAgentToolCalls js raw)"
    using parse_calls_facts [of js raw] by (simp add: supported_def list_all_iff)
qed

lemma start_tools_safe:
  "supported calls \<Longrightarrow> ag_env (start_tools cx n calls st) = ag_env st \<and> phase_safe (ag_phase (start_tools cx n calls st))"
  by (auto simp: start_tools_def harmless_def)

lemma answer_safe:
  assumes "without_approval (Answer a)" "phase_safe (ag_phase st)"
  shows "ag_env (handle_answer cx n a st) = ag_env st \<and> phase_safe (ag_phase (handle_answer cx n a st))"
proof (cases a)
  case (Inr r)
  note sup = calls_supported [OF assms(1) [unfolded Inr]]
  show ?thesis by (simp add: Inr handle_answer_def Let_def sup start_tools_safe)
qed (simp add: handle_answer_def)

lemma review_safe:
  assumes "reads_keep (cx_platform cx) ws" "supported calls"
  shows "ws (ag_env (finish_review cx n calls st)) = ws (ag_env st) \<and> phase_safe (ag_phase (finish_review cx n calls st))"
proof -
  obtain r env where e: "buildAgentToolReviewResults (cx_platform cx) (cx_runtime cx) calls (ag_env st) = (r, env)"
    by (cases "buildAgentToolReviewResults (cx_platform cx) (cx_runtime cx) calls (ag_env st)")
  from keepsD [OF review_reads [OF assms(1)] e] assms(2) show ?thesis
    by (cases r) (simp_all add: finish_review_def e requestToolApproval_def Let_def)
qed

lemma tools_safe:
  assumes "reads_keep (cx_platform cx) ws" "harmless calls"
  shows "ws (ag_env (finish_tools cx n calls denied key st)) = ws (ag_env st) \<and>
    phase_safe (ag_phase (finish_tools cx n calls denied key st))"
proof -
  let ?m = "if calls = [] then ret [] else executeAgentToolCalls (cx_fuel cx) (cx_platform cx) (cx_runtime cx) calls"
  have k: "keeps ws ?m"
    using safe_calls_keep [OF assms(1), of calls] assms(2) by (simp add: harmless_def supported_def keeps_ret)
  obtain r env where e: "?m (ag_env st) = (r, env)" by (cases "?m (ag_env st)")
  from keepsD [OF k e] show ?thesis
    by (cases r) (simp_all add: finish_tools_def e Let_def)
qed

lemma denial_safe:
  "supported calls \<Longrightarrow> ag_env (after_decision cx n calls key False st) = ag_env st \<and>
   phase_safe (ag_phase (after_decision cx n calls key False st))"
  by (simp add: after_decision_def Let_def harmless_def supported_def)

lemma step_untouched:
  assumes reads: "reads_keep (cx_platform cx) ws" and ev: "without_approval ev" and inv: "untouched ws w st"
  shows "untouched ws w (agent_step cx st ev)"
proof (cases ev)
  case (Send s as)
  then show ?thesis using inv
    by (simp add: untouched_def handleSendMessage_def runAgentConversation_def Let_def)
next
  case (StreamCallback cb)
  then show ?thesis using inv by (auto simp: untouched_def run_callback_def Let_def split: phase.split)
next
  case (Answer a)
  then show ?thesis using inv answer_safe ev by (auto simp: untouched_def split: phase.split)
next
  case ReviewDone
  then show ?thesis using inv review_safe [OF reads] by (auto simp: untouched_def split: phase.split)
next
  case (Decide i b)
  then show ?thesis using inv ev
    by (auto simp: denial_safe untouched_def handleApproveAgentToolCalls_def Let_def split: phase.split)
next
  case ToolsDone
  then show ?thesis using inv tools_safe [OF reads] by (auto simp: untouched_def split: phase.split)
next
  case Stop
  then show ?thesis using inv
    by (auto simp: denial_safe untouched_def stopAgentGeneration_def Let_def split: phase.split)
qed

lemma start_untouched: "untouched ws (ws env) (agent_start ms env)"
  by (simp add: untouched_def agent_start_def)

lemma run_untouched:
  assumes "reads_keep (cx_platform cx) ws" "\<And>ev. ev \<in> set evs \<Longrightarrow> without_approval ev"
  shows "untouched ws (ws env) (agent_run cx (agent_start ms env) evs)"
  unfolding agent_run_def using assms(2)
  by (induction evs rule: rev_induct) (simp_all add: step_untouched [OF assms(1)] start_untouched)

text \<open>The calls of a response stream are parsed from its items.\<close>

lemma map_filter_members: "y \<in> set (List.map_filter f xs) \<Longrightarrow> \<exists>x. f x = Some y"
  by (induction xs) (auto simp: List.map_filter_simps split: option.splits)

lemma finished_calls:
  "sr_outcome st = None \<Longrightarrow> sr_outcome (finish_stream b st) = Some (Inr r) \<Longrightarrow> without_approval (Answer (Inr r))"
  using map_filter_members by (fastforce simp: finish_stream_def getCompletedResponsesToolCalls_def)

text \<open>C9: nothing changes without consent. On a platform whose reading operations do not change the
  workspace, a whole session of the agent leaves the workspace as it was as long as the user has
  approved no request: whatever messages are sent, whatever the model answers, natively or in
  text, whatever is denied or stopped, and in any order.\<close>

theorem no_change_without_consent:
  assumes "reads_keep (cx_platform cx) ws" "\<And>ev. ev \<in> set evs \<Longrightarrow> without_approval ev"
  shows "ws (ag_env (agent_run cx (agent_start ms env) evs)) = ws env"
  using run_untouched [OF assms] by (simp add: untouched_def)

section \<open>Termination\<close>

text \<open>What a phase awaits: the answer that the model gives, the decision of the user, or work of the agent's
  own. A session is served by giving it what it awaits, at most \<open>k\<close> times.\<close>

fun awaited ::
  "('e agent_state \<Rightarrow> string + responses_result) \<Rightarrow> ('e agent_state \<Rightarrow> bool) \<Rightarrow> 'e agent_state \<Rightarrow> phase \<Rightarrow>
   agent_event option" where
  "awaited answer decide st (AwaitAnswer n) = Some (Answer (answer st))"
| "awaited answer decide st (AwaitReview n calls) = Some ReviewDone"
| "awaited answer decide st (AwaitApproval n calls i key) = Some (Decide i (decide st))"
| "awaited answer decide st (AwaitTools n calls allCalls denied key) = Some ToolsDone"
| "awaited answer decide st _ = None"

fun serve ::
  "('e, 'h) agent_context \<Rightarrow> ('e agent_state \<Rightarrow> string + responses_result) \<Rightarrow> ('e agent_state \<Rightarrow> bool) \<Rightarrow>
   nat \<Rightarrow> 'e agent_state \<Rightarrow> 'e agent_state" where
  "serve cx answer decide 0 st = st"
| "serve cx answer decide (Suc k) st =
     (case awaited answer decide st (ag_phase st) of
        None \<Rightarrow> st
      | Some ev \<Rightarrow> serve cx answer decide k (agent_step cx st ev))"

fun remaining :: "phase \<Rightarrow> nat" where
  "remaining (AwaitAnswer n) = 4 * (MAX_AGENT_STEPS - n)"
| "remaining (AwaitReview n calls) = 4 * (MAX_AGENT_STEPS - n) - 1"
| "remaining (AwaitApproval n calls i key) = 4 * (MAX_AGENT_STEPS - n) - 2"
| "remaining (AwaitTools n calls allCalls denied key) = 4 * (MAX_AGENT_STEPS - n) - 3"
| "remaining _ = 0"

text \<open>A decision that is awaited can be given.\<close>

definition decidable :: "'e agent_state \<Rightarrow> bool" where
  "decidable st \<longleftrightarrow> (\<forall>n calls i key. ag_phase st = AwaitApproval n calls i key \<longrightarrow> i \<in> set (ag_approvals st))"

lemma begin_step_remaining: "remaining (ag_phase (begin_step cx n st)) \<le> 4 * (MAX_AGENT_STEPS - n)"
  using begin_step_phase [of cx n st] by auto

lemma begin_step_decidable [simp]: "decidable (begin_step cx n st)"
  using begin_step_phase [of cx n st] by (auto simp: decidable_def)

lemma set_add_member [simp]: "x \<in> set (set_add xs x)"
  by (simp add: set_add_def)

lemma answer_remaining:
  assumes "n < MAX_AGENT_STEPS"
  shows "remaining (ag_phase (handle_answer cx n a st)) < 4 * (MAX_AGENT_STEPS - n) \<and> decidable (handle_answer cx n a st)"
  using assms by (cases a) (auto simp: handle_answer_def start_tools_def Let_def decidable_def)

lemma review_remaining:
  assumes "n < MAX_AGENT_STEPS"
  shows "remaining (ag_phase (finish_review cx n calls st)) < 4 * (MAX_AGENT_STEPS - n) - 1 \<and>
    decidable (finish_review cx n calls st)"
  using assms
  by (auto simp: finish_review_def requestToolApproval_def Let_def decidable_def split: prod.split sum.split)

lemma tools_remaining:
  assumes "n < MAX_AGENT_STEPS"
  shows "remaining (ag_phase (finish_tools cx n calls denied key st)) < 4 * (MAX_AGENT_STEPS - n) - 3 \<and>
    decidable (finish_tools cx n calls denied key st)"
proof -
  have "4 * (MAX_AGENT_STEPS - (n + 1)) < 4 * (MAX_AGENT_STEPS - n) - 3" using assms by simp
  with le_less_trans [OF begin_step_remaining] assms show ?thesis
    by (auto simp: finish_tools_def Let_def decidable_def [of "fail_run _ _ _"] split: prod.split sum.split)
qed

lemma decision_remaining:
  assumes "n < MAX_AGENT_STEPS"
  shows "remaining (ag_phase (after_decision cx n calls key b st)) < 4 * (MAX_AGENT_STEPS - n) - 2 \<and>
    decidable (after_decision cx n calls key b st)"
  using assms by (simp add: after_decision_def Let_def decidable_def)

lemma step_decidable:
  assumes "run_inv st" "decidable st"
  shows "decidable (agent_step cx st ev)"
proof -
  have limit: "n < MAX_AGENT_STEPS" if "phase_step (ag_phase st) = Some n" for n
    using in_runI [OF assms(1) that] by simp
  show ?thesis
  proof (cases ev)
    case (Send s as)
    then show ?thesis using assms(2)
      by (simp add: handleSendMessage_def runAgentConversation_def Let_def)
  next
    case (StreamCallback cb)
    then show ?thesis using assms(2) by (auto simp: run_callback_def Let_def decidable_def split: phase.split)
  next
    case (Answer a)
    then show ?thesis using assms(2) limit by (auto simp: answer_remaining split: phase.split)
  next
    case ReviewDone
    then show ?thesis using assms(2) limit by (auto simp: review_remaining split: phase.split)
  next
    case (Decide i b)
    then show ?thesis using assms(2)
      by (auto simp: handleApproveAgentToolCalls_def after_decision_def Let_def decidable_def split: phase.split)
  next
    case ToolsDone
    then show ?thesis using assms(2) limit by (auto simp: tools_remaining split: phase.split)
  next
    case Stop
    then show ?thesis using assms(2)
      by (auto simp: stopAgentGeneration_def after_decision_def Let_def decidable_def split: phase.split)
  qed
qed

lemma run_decidable: "decidable (agent_run cx (agent_start ms env) evs)"
  unfolding agent_run_def
proof (induction evs rule: rev_induct)
  case (snoc ev evs)
  then show ?case
    using step_decidable run_invariant [of cx ms env evs, unfolded agent_run_def] by simp
qed (simp add: agent_start_def decidable_def)

lemma stopped_simps [simp]:
  "ag_stopped (leave_run st) = ag_stopped st" "ag_stopped (fail_run cx e st) = ag_stopped st"
  "ag_stopped (limit_run cx st) = ag_stopped st"
  by (simp_all add: leave_run_def fail_run_def limit_run_def Let_def)

lemma begin_step_stopped [simp]: "ag_stopped (begin_step cx n st) = ag_stopped st"
  by (simp add: begin_step_def split: sum.split)

lemma answer_stopped: "ag_stopped (handle_answer cx n a st) = ag_stopped st"
  by (cases a) (simp_all add: handle_answer_def start_tools_def Let_def)

lemma review_stopped: "ag_stopped (finish_review cx n calls st) = ag_stopped st"
  by (simp add: finish_review_def requestToolApproval_def Let_def split: sum.split prod.split)

lemma tools_stopped: "ag_stopped (finish_tools cx n calls denied key st) = ag_stopped st"
  by (simp add: finish_tools_def Let_def split: sum.split prod.split)

lemma decide_stopped: "ag_stopped (handleApproveAgentToolCalls cx i b st) = ag_stopped st"
  by (simp add: handleApproveAgentToolCalls_def after_decision_def Let_def split: phase.split)

lemma awaited_step:
  assumes inv: "run_inv st" "decidable st" "\<not> ag_stopped st"
    and ev: "awaited answer decide st (ag_phase st) = Some ev"
  shows "\<not> ag_stopped (agent_step cx st ev)"
    "remaining (ag_phase (agent_step cx st ev)) < remaining (ag_phase st)"
proof -
  have limit: "n < MAX_AGENT_STEPS" if "phase_step (ag_phase st) = Some n" for n
    using in_runI [OF inv(1) that] by simp
  show "\<not> ag_stopped (agent_step cx st ev)" using inv(3) ev
    by (cases "ag_phase st")
      (auto simp: answer_stopped review_stopped tools_stopped decide_stopped)
  show "remaining (ag_phase (agent_step cx st ev)) < remaining (ag_phase st)"
    using inv(2,3) ev limit
    by (cases "ag_phase st")
      (auto simp: answer_remaining review_remaining [simplified] tools_remaining decision_remaining decidable_def
        handleApproveAgentToolCalls_def Let_def)
qed

lemma serve_ends:
  assumes "run_inv st" "decidable st" "\<not> ag_stopped st" "remaining (ag_phase st) \<le> k"
  shows "phase_step (ag_phase (serve cx answer decide k st)) = None"
  using assms
proof (induction k arbitrary: st)
  case 0
  then show ?case using in_runI [OF 0(1)] by (cases "ag_phase st") auto
next
  case (Suc k)
  show ?case
  proof (cases "awaited answer decide st (ag_phase st)")
    case None
    then show ?thesis by (cases "ag_phase st") simp_all
  next
    case (Some ev)
    note step = awaited_step [OF Suc.prems(1-3) Some, of cx]
    have "phase_step (ag_phase (serve cx answer decide k (agent_step cx st ev))) = None"
      using step Suc.prems by (intro Suc.IH step_inv step_decidable) simp_all
    then show ?thesis by (simp add: Some)
  qed
qed

lemma remaining_limit: "remaining ph \<le> 120"
  by (cases ph) (simp_all add: MAX_AGENT_STEPS_def)

text \<open>C11: every run ends. From any state that the agent can reach and that the user has not stopped, the run
  returns once it has been given at most 120 times what it awaits: an answer of the model, the end
  of a review, a decision of the user, or the end of the tools, whatever the answers, the errors
  and the decisions are.\<close>

theorem run_ends:
  assumes "\<not> ag_stopped (agent_run cx (agent_start ms env) evs)"
  shows "phase_step (ag_phase (serve cx answer decide 120 (agent_run cx (agent_start ms env) evs))) = None"
  by (rule serve_ends [OF run_invariant run_decidable assms remaining_limit])

section \<open>Decisions\<close>

lemma tools_result:
  "\<exists>results env. (if calls = [] then ret [] else executeAgentToolCalls fuel p runtime calls) e = (Inr results, env) \<and>
     map tr_id results = map tc_id (take 30 calls)"
  using calls_total [of fuel p runtime calls e] by (auto simp: ret_def)

lemma begin_step_messages:
  "ag_messages st = ag_working st \<Longrightarrow>
   butlast (ag_messages (begin_step cx n st)) = butlast (ag_messages st)"
  by (auto simp: begin_step_def limit_run_def fail_run_def leave_run_def Let_def set_last_def split: sum.split)

lemma display_ids: "map dr_id (map display_result rs) = map tr_id rs"
  by (simp add: display_result_def)

lemma tool_message_results: "m_agentToolResults (with_key key (complete_tool_message cx n rs)) = Some (map display_result rs)"
  by (simp add: with_key_def complete_tool_message_def tool_message_def split: option.split)

lemma finish_tools_results:
  "\<exists>rs. m_agentToolResults (last (butlast (ag_messages (finish_tools cx n calls denied key st)))) =
     Some (map display_result (rs @ denied)) \<and> map tr_id rs = map tc_id (take 30 calls)"
proof -
  obtain rs env where r: "(if calls = [] then ret []
      else executeAgentToolCalls (cx_fuel cx) (cx_platform cx) (cx_runtime cx) calls) (ag_env st) = (Inr rs, env)"
    "map tr_id rs = map tc_id (take 30 calls)"
    using tools_result [of calls "cx_fuel cx" "cx_platform cx" "cx_runtime cx" "ag_env st"] by blast
  then show ?thesis
    by (intro exI [of _ rs]) (simp add: finish_tools_def Let_def begin_step_messages tool_message_results butlast_append)
qed

text \<open>a decision answers every call. When the user decides on a request and the tools have run, the
  message after the one that asked shows a result for each call. Approved calls have their results
  in order. After a denial the calls that need no approval have theirs first, and each of the
  others a result that is not ok, with the error \<open>permission_denied\<close>. As everywhere, at most
  thirty calls are run at once.\<close>

theorem decision_answers_all:
  assumes "ag_phase st = AwaitApproval n calls i key" "i \<in> set (ag_approvals st)"
  shows "\<exists>rs denied. m_agentToolResults (last (butlast (ag_messages
      (agent_run cx st [Decide i approved, ToolsDone])))) = Some (rs @ denied) \<and>
    map dr_id rs = map tc_id (take 30 (filter (\<lambda>c. approved \<or> \<not> requiresAgentToolApproval c) calls)) \<and>
    map dr_id denied = map tc_id (filter (\<lambda>c. \<not> approved \<and> requiresAgentToolApproval c) calls) \<and>
    (\<forall>r \<in> set denied. \<not> dr_ok r \<and> dr_error r = Some ''permission_denied'')"
proof -
  let ?run = "filter (\<lambda>c. approved \<or> \<not> requiresAgentToolApproval c) calls"
  let ?denied = "map (denied_result cx) (filter (\<lambda>c. \<not> approved \<and> requiresAgentToolApproval c) calls)"
  let ?st = "agent_step cx st (Decide i approved)"
  have ph: "ag_phase ?st = AwaitTools n ?run calls ?denied (Some key)"
    using assms by (simp add: handleApproveAgentToolCalls_def after_decision_def Let_def)
  obtain rs where rs: "m_agentToolResults (last (butlast (ag_messages (finish_tools cx n ?run ?denied (Some key) ?st)))) =
      Some (map display_result (rs @ ?denied))" "map tr_id rs = map tc_id (take 30 ?run)"
    using finish_tools_results [of cx n ?run ?denied "Some key" ?st] by blast
  have run: "agent_run cx st [Decide i approved, ToolsDone] = finish_tools cx n ?run ?denied (Some key) ?st"
    using ph by (simp add: agent_run_def)
  show ?thesis
    by (rule exI [of _ "map display_result rs"], rule exI [of _ "map display_result ?denied"])
      (use rs in \<open>simp_all only: run display_ids\<close>, auto simp: display_result_def denied_result_def)
qed

lemma begin_step_after_stop:
  "ag_stopped st \<Longrightarrow> n < MAX_AGENT_STEPS \<Longrightarrow> begin_step cx n st = st\<lparr>ag_phase := Finished\<rparr>"
  by (simp add: begin_step_def fail_run_def leave_run_def split: sum.split)

text \<open>a stop at a request for approval leaves a message that loads for ever. The stop refuses the request
  and looks only at the message that is last at that time; the run then still adds the results and
  a new loading message before it notices the stop and returns, so that it has ended, does not
  count as running, and its last message is still loading.\<close>

theorem stop_at_approval_sticks:
  assumes "ag_phase st = AwaitApproval n calls i key" "i \<in> set (ag_approvals st)" "n + 1 < 30"
  shows "let st' = agent_run cx st [Stop, ToolsDone] in
    ag_phase st' = Finished \<and> \<not> ag_running st' \<and> is_stuck (last (ag_messages st'))"
proof -
  let ?run = "filter (\<lambda>c. \<not> requiresAgentToolApproval c) calls"
  let ?denied = "map (denied_result cx) (filter requiresAgentToolApproval calls)"
  let ?st = "agent_step cx st Stop"
  have ph: "ag_phase ?st = AwaitTools n ?run calls ?denied (Some key)" "ag_stopped ?st" "\<not> ag_running ?st"
    using assms by (simp_all add: stopAgentGeneration_def after_decision_def Let_def)
  obtain rs env where r: "(if ?run = [] then ret []
      else executeAgentToolCalls (cx_fuel cx) (cx_platform cx) (cx_runtime cx) ?run) (ag_env ?st) = (Inr rs, env)"
    using tools_result [of ?run "cx_fuel cx" "cx_platform cx" "cx_runtime cx" "ag_env ?st"] by blast
  have "agent_run cx st [Stop, ToolsDone] = finish_tools cx n ?run ?denied (Some key) ?st"
    using ph(1) by (simp add: agent_run_def)
  then show ?thesis
    using ph r assms(3) unfolding finish_tools_def
    by (simp add: begin_step_after_stop MAX_AGENT_STEPS_def Let_def is_stuck_def createLoadingAssistantMessage_def
        plain_message_def)
qed

section \<open>An instance\<close>

definition sample_context :: "string \<Rightarrow> (string list \<Rightarrow> string option, string list) agent_context" where
  "sample_context model =
     \<lparr>cx_texts = \<lparr>tx_t = (\<lambda>s. s), tx_reconnect = (\<lambda>e k m. e), tx_malformed = ''malformed: '',
         tx_instructions = (\<lambda>w b h. w)\<rparr>,
       cx_nanoid = show_nat, cx_config = DEFAULT_CONFIG\<lparr>pc_model := model\<rparr>, cx_enabled = DEFAULT_PARAMETER_ENABLED,
       cx_platform = memory_platform, cx_fuel = 9, cx_runtime = memory_runtime, cx_workspaceName = ''d'',
       cx_conversationId = None, cx_helperStatus = None, cx_json_calls = (\<lambda>s. None)\<rparr>"

definition sample_write :: responses_function_call_item where
  "sample_write = \<lparr>fc_id = None, fc_call_id = ''c'', fc_name = ''write_file'',
     fc_arguments = ''{}'', fc_status = None\<rparr>"

definition sample_pending :: "(string list \<Rightarrow> string option) agent_state" where
  "sample_pending = (agent_start [] Map.empty)
     \<lparr>ag_phase := AwaitApproval 0 [sample_call ''write_file'' ''f'' ''x''] ''a'' ''k'', ag_approvals := [''a''],
       ag_running := True\<rparr>"

lemma sample_not_native: "\<not> use_native (sample_context [])"
  by (simp add: use_native_def sample_context_def isOpenAIReasoningModel_def toLowerCase_def trim_def trim_by_def Let_def)


theorem no_change_without_consent_witness:
  "ag_env (agent_run (sample_context ''o1'') (agent_start [] [[''d'', ''f''] \<mapsto> ''a''])
     [Send ''hi'' [], Answer (Inr \<lparr>rz_rawContent = [], rz_nativeToolCalls = List.map_filter call_of_item [sample_write],
        rz_nativeOutputItems = [FunctionCall sample_write]\<rparr>), ReviewDone, Decide ''5'' False, ToolsDone, Stop]) =
   [[''d'', ''f''] \<mapsto> ''a'']"
  by (rule no_change_without_consent [where ws = "\<lambda>e. e"])
    (use memory_reads in \<open>auto simp: sample_context_def List.map_filter_simps split: option.splits\<close>)

theorem run_ends_witness:
  "phase_step (ag_phase (serve (sample_context ''o1'') (\<lambda>st. Inr \<lparr>rz_rawContent = [],
       rz_nativeToolCalls = List.map_filter call_of_item [sample_write],
       rz_nativeOutputItems = [FunctionCall sample_write]\<rparr>) (\<lambda>st. True) 120
     (agent_run (sample_context ''o1'') (agent_start [] Map.empty) [Send ''hi'' []]))) = None"
  by (rule run_ends)
    (simp add: agent_run_def agent_start_def handleSendMessage_def runAgentConversation_def Let_def)

theorem decision_answers_all_witness:
  "\<exists>denied. m_agentToolResults (last (butlast (ag_messages
     (agent_run (sample_context []) sample_pending [Decide ''a'' False, ToolsDone])))) = Some denied \<and>
     denied \<noteq> [] \<and> (\<forall>r \<in> set denied. dr_error r = Some ''permission_denied'')"
proof -
  obtain rs denied where "m_agentToolResults (last (butlast (ag_messages
     (agent_run (sample_context []) sample_pending [Decide ''a'' False, ToolsDone])))) = Some (rs @ denied)"
    "map dr_id rs = map tc_id (take 30 (filter (\<lambda>c. False \<or> \<not> requiresAgentToolApproval c)
       [sample_call ''write_file'' ''f'' ''x'']))"
    "map dr_id denied = map tc_id (filter (\<lambda>c. \<not> False \<and> requiresAgentToolApproval c)
       [sample_call ''write_file'' ''f'' ''x''])"
    "\<forall>r \<in> set denied. \<not> dr_ok r \<and> dr_error r = Some ''permission_denied''"
    using decision_answers_all [of sample_pending 0 "[sample_call ''write_file'' ''f'' ''x'']" "''a''" "''k''"
        "sample_context []" False]
    by (auto simp: sample_pending_def)
  then show ?thesis by (auto simp: sample_call_def requiresAgentToolApproval_def)
qed

theorem stop_at_approval_sticks_witness:
  "let st = agent_run (sample_context []) sample_pending [Stop, ToolsDone] in
     ag_phase st = Finished \<and> \<not> ag_running st \<and> is_stuck (last (ag_messages st))"
  by (rule stop_at_approval_sticks [of _ 0 "[sample_call ''write_file'' ''f'' ''x'']" "''a''" "''k''"])
    (simp_all add: sample_pending_def)

end
