(* ===== verification/Billing_Rules.thy ===== *)
theory Billing_Rules
  imports Js_Data
begin

text \<open>
  Request rules of dynamic pricing, from \<^verbatim>\<open>features/pricing/lib/billing-expr.ts\<close>. A billing expression is a
  price expression times factors that depend on the request (a parameter, a header or the time).
  The editor shows the factors as groups of conditions: \<open>buildRequestRuleExpr\<close> prints groups as an
  expression and \<open>tryParseRequestRuleExpr\<close> reads them back; \<open>combineBillingExpr\<close> and
  \<open>splitBillingExprAndRequestRules\<close> do the same for the whole expression.

  The regular expressions are written out as functions that consume the text from the left; none
  of them needs backtracking, because every repeated class is followed by a character outside of
  it. \<open>JSON.parse\<close> on a text that is not JSON throws, which is the value \<open>Inl\<close>.
\<close>

section \<open>Conditions\<close>

record param_header_condition =
  ph_source :: string
  ph_path :: string
  ph_mode :: string
  ph_value :: string

record time_condition =
  tm_timeFunc :: string
  tm_timezone :: string
  tm_mode :: string
  tm_value :: string
  tm_rangeStart :: string
  tm_rangeEnd :: string

datatype request_condition = TimeCondition time_condition | ParamHeaderCondition param_header_condition

record request_rule_group =
  rg_conditions :: "request_condition list"
  rg_multiplier :: string

text \<open>\<open>Partial<RequestCondition>\<close>: what the editor may hold of either kind.\<close>

record partial_condition =
  cd_source :: "string option"
  cd_path :: "string option"
  cd_mode :: "string option"
  cd_value :: "string option"
  cd_timeFunc :: "string option"
  cd_timezone :: "string option"
  cd_rangeStart :: "string option"
  cd_rangeEnd :: "string option"

fun partial_of :: "request_condition \<Rightarrow> partial_condition" where
  "partial_of (TimeCondition c) =
     \<lparr>cd_source = Some ''time'', cd_path = None, cd_mode = Some (tm_mode c), cd_value = Some (tm_value c),
       cd_timeFunc = Some (tm_timeFunc c), cd_timezone = Some (tm_timezone c),
       cd_rangeStart = Some (tm_rangeStart c), cd_rangeEnd = Some (tm_rangeEnd c)\<rparr>"
| "partial_of (ParamHeaderCondition c) =
     \<lparr>cd_source = Some (ph_source c), cd_path = Some (ph_path c), cd_mode = Some (ph_mode c),
       cd_value = Some (ph_value c), cd_timeFunc = None, cd_timezone = None, cd_rangeStart = None,
       cd_rangeEnd = None\<rparr>"

definition TIME_FUNCS :: "string list" where
  "TIME_FUNCS = [''hour'', ''minute'', ''weekday'', ''month'', ''day'']"

definition createEmptyCondition :: param_header_condition where
  "createEmptyCondition = \<lparr>ph_source = ''param'', ph_path = [], ph_mode = ''eq'', ph_value = []\<rparr>"

definition createEmptyTimeCondition :: time_condition where
  "createEmptyTimeCondition =
     \<lparr>tm_timeFunc = ''hour'', tm_timezone = ''Asia/Shanghai'', tm_mode = ''gte'', tm_value = [],
       tm_rangeStart = [], tm_rangeEnd = []\<rparr>"

definition createEmptyRuleGroup :: request_rule_group where
  "createEmptyRuleGroup = \<lparr>rg_conditions = [ParamHeaderCondition createEmptyCondition], rg_multiplier = []\<rparr>"

definition createEmptyTimeRuleGroup :: request_rule_group where
  "createEmptyTimeRuleGroup = \<lparr>rg_conditions = [TimeCondition createEmptyTimeCondition], rg_multiplier = []\<rparr>"

text \<open>The values of the match options; their labels are display text.\<close>

definition getRequestRuleMatchOptions :: "string \<Rightarrow> string list" where
  "getRequestRuleMatchOptions source =
     (if source = ''time'' then [''eq'', ''gte'', ''lt'', ''range'']
      else if source = ''header'' then [''eq'', ''contains'', ''exists'']
      else [''eq'', ''contains'', ''exists'', ''gt'', ''gte'', ''lt'', ''lte''])"

definition string_or :: "string option \<Rightarrow> string \<Rightarrow> string" where
  "string_or x d = (case x of None \<Rightarrow> d | Some s \<Rightarrow> if s = [] then d else s)"

definition string_of :: "string option \<Rightarrow> string" where
  "string_of x = (case x of None \<Rightarrow> [] | Some s \<Rightarrow> s)"

definition offered_mode :: "string \<Rightarrow> string option \<Rightarrow> string \<Rightarrow> string" where
  "offered_mode source mode d =
     (case mode of None \<Rightarrow> d | Some m \<Rightarrow> if m \<in> set (getRequestRuleMatchOptions source) then m else d)"

definition normalizeTimeCondition :: "partial_condition \<Rightarrow> time_condition" where
  "normalizeTimeCondition cond =
     \<lparr>tm_timeFunc = (case cd_timeFunc cond of
          None \<Rightarrow> ''hour'' | Some f \<Rightarrow> if f \<in> set TIME_FUNCS then f else ''hour''),
       tm_timezone = string_or (cd_timezone cond) ''Asia/Shanghai'',
       tm_mode = offered_mode ''time'' (cd_mode cond) ''gte'',
       tm_value = string_of (cd_value cond), tm_rangeStart = string_of (cd_rangeStart cond),
       tm_rangeEnd = string_of (cd_rangeEnd cond)\<rparr>"

definition normalizeParamHeaderCondition :: "string \<Rightarrow> partial_condition \<Rightarrow> param_header_condition" where
  "normalizeParamHeaderCondition source cond =
     \<lparr>ph_source = source, ph_path = string_or (cd_path cond) [],
       ph_mode = offered_mode source (cd_mode cond) ''eq'', ph_value = string_of (cd_value cond)\<rparr>"

definition normalizeCondition :: "partial_condition option \<Rightarrow> request_condition" where
  "normalizeCondition optCond =
     (let cond = (case optCond of Some c \<Rightarrow> c | None \<Rightarrow>
            \<lparr>cd_source = None, cd_path = None, cd_mode = None, cd_value = None, cd_timeFunc = None,
              cd_timezone = None, cd_rangeStart = None, cd_rangeEnd = None\<rparr>)
      in if cd_source cond = Some ''time'' then TimeCondition (normalizeTimeCondition cond)
         else if cd_source cond = Some ''header''
         then ParamHeaderCondition (normalizeParamHeaderCondition ''header'' cond)
         else ParamHeaderCondition (normalizeParamHeaderCondition ''param'' cond))"

section \<open>Numeric literals\<close>

text \<open>\<open>^-?(?:\d+\.?\d*|\.\d+)(?:[eE][+-]?\d+)?$\<close>\<close>

definition is_exponent :: "string \<Rightarrow> bool" where
  "is_exponent s =
     (case s of
        [] \<Rightarrow> True
      | c # s' \<Rightarrow>
          (c = CHR ''e'' \<or> c = CHR ''E'') \<and>
          (let ds = (case s' of d # t \<Rightarrow> if d = CHR ''+'' \<or> d = CHR ''-'' then t else s' | [] \<Rightarrow> [])
           in ds \<noteq> [] \<and> list_all is_digit ds))"

definition is_unsigned_literal :: "string \<Rightarrow> bool" where
  "is_unsigned_literal s =
     (case take_digits s of (whole, rest) \<Rightarrow>
        if whole \<noteq> []
        then is_exponent (case rest of c # t \<Rightarrow> if c = CHR ''.'' then snd (take_digits t) else rest | [] \<Rightarrow> [])
        else (case rest of
                c # t \<Rightarrow> c = CHR ''.'' \<and> fst (take_digits t) \<noteq> [] \<and> is_exponent (snd (take_digits t))
              | [] \<Rightarrow> False))"

definition is_numeric_literal :: "string \<Rightarrow> bool" where
  "is_numeric_literal s =
     is_unsigned_literal (case s of c # t \<Rightarrow> if c = CHR ''-'' then t else s | [] \<Rightarrow> [])"

section \<open>Building expressions\<close>

definition buildExprLiteral :: "string \<Rightarrow> string \<Rightarrow> string" where
  "buildExprLiteral mode value =
     (let text = trim value in
      if mode = ''contains'' then json_quote text
      else if text = ''true'' \<or> text = ''false'' then text
      else if is_numeric_literal text then text
      else json_quote text)"

definition buildTimeConditionExpr :: "time_condition \<Rightarrow> string" where
  "buildTimeConditionExpr cond =
     (let normalized = normalizeTimeCondition (partial_of (TimeCondition cond));
          fn = tm_timeFunc normalized @ ''('' @ json_quote (tm_timezone normalized) @ '')'' in
      if tm_mode normalized = ''range'' then
        (let s = trim (tm_rangeStart normalized); e = trim (tm_rangeEnd normalized) in
         if \<not> is_numeric_literal s \<or> \<not> is_numeric_literal e then []
         else fn @ '' >= '' @ s @ '' || '' @ fn @ '' < '' @ e)
      else
        (let v = trim (tm_value normalized) in
         if \<not> is_numeric_literal v then []
         else fn @ '' '' @ (if tm_mode normalized = ''gte'' then ''>='' else if tm_mode normalized = ''lt'' then ''<'' else ''=='')
           @ '' '' @ v))"

definition compare_op :: "string \<Rightarrow> string" where
  "compare_op mode =
     (if mode = ''gt'' then ''>'' else if mode = ''gte'' then ''>='' else if mode = ''lt'' then ''<'' else ''<='')"

definition buildParamHeaderExpr :: "param_header_condition \<Rightarrow> string" where
  "buildParamHeaderExpr normalized =
     (let path = trim (ph_path normalized) in
      if path = [] then []
      else
        (let header = (ph_source normalized = ''header'');
             sourceExpr = (if header then ''header('' else ''param('') @ json_quote path @ '')'';
             mode = ph_mode normalized in
         if mode = ''exists'' then (if header then sourceExpr @ '' != '' @ [QUOTE, QUOTE] else sourceExpr @ '' != nil'')
         else if mode = ''contains'' then
           (if header then ''has('' @ sourceExpr @ '', '' @ buildExprLiteral mode (ph_value normalized) @ '')''
            else sourceExpr @ '' != nil && has('' @ sourceExpr @ '', '' @
              buildExprLiteral mode (ph_value normalized) @ '')'')
         else if mode \<in> {''gt'', ''gte'', ''lt'', ''lte''} then
           (let numText = trim (ph_value normalized) in
            if \<not> is_numeric_literal numText then []
            else sourceExpr @ '' != nil && '' @ sourceExpr @ '' '' @ compare_op mode @ '' '' @ numText)
         else sourceExpr @ '' == '' @ buildExprLiteral mode (ph_value normalized)))"

fun buildRequestConditionExpr :: "request_condition \<Rightarrow> string" where
  "buildRequestConditionExpr (TimeCondition c) = buildTimeConditionExpr c"
| "buildRequestConditionExpr (ParamHeaderCondition c) =
     buildParamHeaderExpr (normalizeParamHeaderCondition
       (if ph_source c = ''header'' then ''header'' else ''param'') (partial_of (ParamHeaderCondition c)))"

definition combine_conditions :: "string list \<Rightarrow> string" where
  "combine_conditions condExprs =
     (if length condExprs = 1 then hd condExprs
      else join '' && '' (map (\<lambda>e. if str_includes e '' || '' then ''('' @ e @ '')'' else e) condExprs))"

definition buildRuleGroupFactor :: "request_rule_group \<Rightarrow> string" where
  "buildRuleGroupFactor grp =
     (let multiplier = trim (rg_multiplier grp) in
      if \<not> is_numeric_literal multiplier then []
      else
        (let condExprs = filter (\<lambda>e. e \<noteq> []) (map buildRequestConditionExpr (rg_conditions grp)) in
         if condExprs = [] then []
         else ''('' @ combine_conditions condExprs @ '' ? '' @ multiplier @ '' : 1)''))"

definition buildRequestRuleExpr :: "request_rule_group list \<Rightarrow> string" where
  "buildRequestRuleExpr groups = join '' * '' (filter (\<lambda>f. f \<noteq> []) (map buildRuleGroupFactor groups))"

section \<open>Splitting at the top level\<close>

text \<open>The loop of \<open>splitTopLevelMultiply\<close> and \<open>splitTopLevelAnd\<close>: \<open>cur\<close> is the part since \<open>start\<close>. Quotes are not
  looked at.\<close>

definition depth_step :: "char \<Rightarrow> int \<Rightarrow> int" where
  "depth_step c depth = (if c = CHR ''('' then depth + 1 else if c = CHR '')'' then depth - 1 else depth)"

function split_top :: "string \<Rightarrow> string \<Rightarrow> int \<Rightarrow> string \<Rightarrow> string list" where
  "split_top sep cur depth [] = [cur]"
| "split_top sep cur depth (c # s) =
     (let depth' = depth_step c depth in
      if depth' = 0 \<and> sep \<noteq> [] \<and> starts_with sep (c # s)
      then cur # split_top sep [] depth' (drop (length sep) (c # s))
      else split_top sep (cur @ [c]) depth' s)"
  by pat_completeness auto

termination
  by (relation "measure (\<lambda>(_, _, _, s). length s)") auto

definition splitTopLevel :: "string \<Rightarrow> string \<Rightarrow> string list" where
  "splitTopLevel sep expr = filter (\<lambda>p. p \<noteq> []) (map trim (split_top sep [] 0 expr))"

definition splitTopLevelMultiply :: "string \<Rightarrow> string list" where
  "splitTopLevelMultiply expr = splitTopLevel '' * '' expr"

definition splitTopLevelAnd :: "string \<Rightarrow> string list" where
  "splitTopLevelAnd expr = splitTopLevel '' && '' expr"

section \<open>Matching\<close>

text \<open>A fixed text, \<open>"([^"]+)"\<close>, \<open>[\d.eE+-]+\<close>, and a string literal \<open>"(?:[^"\\]|\\.)*"\<close>, each with the rest
  of the text after it.\<close>

definition eat :: "string \<Rightarrow> string \<Rightarrow> string option" where
  "eat p s = (if starts_with p s then Some (drop (length p) s) else None)"

definition eat_name :: "string \<Rightarrow> (string \<times> string) option" where
  "eat_name s =
     (case eat [QUOTE] s of
        None \<Rightarrow> None
      | Some t \<Rightarrow>
          (let name = takeWhile (\<lambda>c. c \<noteq> QUOTE) t in
           if name = [] then None
           else map_option (\<lambda>rest. (name, rest)) (eat [QUOTE] (dropWhile (\<lambda>c. c \<noteq> QUOTE) t))))"

definition is_num_char :: "char \<Rightarrow> bool" where
  "is_num_char c \<longleftrightarrow> is_digit c \<or> c \<in> set ''.eE+-''"

definition eat_number :: "string \<Rightarrow> (string \<times> string) option" where
  "eat_number s =
     (if takeWhile is_num_char s = [] then None else Some (takeWhile is_num_char s, dropWhile is_num_char s))"

definition is_line_end :: "char \<Rightarrow> bool" where
  "is_line_end c \<longleftrightarrow> c = CHR 0x0A \<or> c = CHR 0x0D"

fun literal_body :: "string \<Rightarrow> (string \<times> string) option" where
  "literal_body [] = None"
| "literal_body (c # s) =
     (if c = QUOTE then Some ([], s)
      else if c \<noteq> BSLASH then map_option (\<lambda>(t, rest). (c # t, rest)) (literal_body s)
      else
        (case s of
           [] \<Rightarrow> None
         | d # s' \<Rightarrow>
             if is_line_end d then None
             else map_option (\<lambda>(t, rest). (BSLASH # d # t, rest)) (literal_body s')))"

definition eat_literal :: "string \<Rightarrow> (string \<times> string) option" where
  "eat_literal s =
     (case eat [QUOTE] s of
        None \<Rightarrow> None
      | Some t \<Rightarrow> map_option (\<lambda>(body, rest). ([QUOTE] @ body @ [QUOTE], rest)) (literal_body t))"

text \<open>\<open>name("...")\<close>, giving the text between the quotes.\<close>

definition eat_call :: "string \<Rightarrow> string \<Rightarrow> (string \<times> string) option" where
  "eat_call f s =
     (case eat (f @ ''('') s of
        None \<Rightarrow> None
      | Some t \<Rightarrow>
          (case eat_name t of
             None \<Rightarrow> None
           | Some (name, u) \<Rightarrow> map_option (\<lambda>rest. (name, rest)) (eat '')'' u)))"

section \<open>Parsing conditions\<close>

definition eat_time_call :: "string \<Rightarrow> (string \<times> string \<times> string) option" where
  "eat_time_call s =
     (case List.find (\<lambda>f. starts_with (f @ ''('') s) TIME_FUNCS of
        None \<Rightarrow> None
      | Some f \<Rightarrow> map_option (\<lambda>(tz, rest). (f, tz, rest)) (eat_call f s))"

text \<open>\<open>fn("tz") >= a || fn("tz") < b\<close> followed by \<open>final\<close> and the end.\<close>

definition match_time_range :: "string \<Rightarrow> string \<Rightarrow> time_condition option" where
  "match_time_range final s =
     (case eat_time_call s of
        None \<Rightarrow> None
      | Some (f, tz, s1) \<Rightarrow>
          (case Option.bind (eat '' >= '' s1) eat_number of
             None \<Rightarrow> None
           | Some (a, s2) \<Rightarrow>
               (case Option.bind (eat ('' || '' @ f @ ''('' @ [QUOTE] @ tz @ [QUOTE] @ '') < '') s2) eat_number of
                  None \<Rightarrow> None
                | Some (b, s3) \<Rightarrow>
                    if s3 = final
                    then Some \<lparr>tm_timeFunc = f, tm_timezone = tz, tm_mode = ''range'', tm_value = [],
                      tm_rangeStart = a, tm_rangeEnd = b\<rparr>
                    else None)))"

definition match_time_compare :: "string \<Rightarrow> time_condition option" where
  "match_time_compare s =
     (case eat_time_call s of
        None \<Rightarrow> None
      | Some (f, tz, s1) \<Rightarrow>
          (case List.find (\<lambda>(op, mode). starts_with ('' '' @ op @ '' '') s1)
              [(''=='', ''eq''), (''>='', ''gte''), (''<'', ''lt'')] of
             None \<Rightarrow> None
           | Some (op, mode) \<Rightarrow>
               (case Option.bind (eat ('' '' @ op @ '' '') s1) eat_number of
                  None \<Rightarrow> None
                | Some (v, s2) \<Rightarrow>
                    if s2 = []
                    then Some \<lparr>tm_timeFunc = f, tm_timezone = tz, tm_mode = mode, tm_value = v,
                      tm_rangeStart = [], tm_rangeEnd = []\<rparr>
                    else None)))"

definition tryParseTimeCondition :: "string \<Rightarrow> time_condition option" where
  "tryParseTimeCondition expr =
     (case match_time_range [] expr of
        Some c \<Rightarrow> Some c
      | None \<Rightarrow>
          (case Option.bind (eat ''('' expr) (match_time_range '')'') of
             Some c \<Rightarrow> Some c
           | None \<Rightarrow> match_time_compare expr))"

text \<open>\<open>String(v)\<close> of a parsed value that is not null.\<close>

fun string_of_json :: "json \<Rightarrow> string" where
  "string_of_json JNull = ''null''"
| "string_of_json (JBool b) = (if b then ''true'' else ''false'')"
| "string_of_json (JNum r) = show_number r"
| "string_of_json (JStr s) = s"
| "string_of_json (JArr vs) = join '','' (map (\<lambda>v. case v of JNull \<Rightarrow> [] | _ \<Rightarrow> string_of_json v) vs)"
| "string_of_json (JObj ms) = ''[object Object]''"

text \<open>\<open>parseExprLiteral\<close> and the \<open>String\<close> applied to its result; JSON's null counts as no result.\<close>

definition parseExprLiteral :: "string \<Rightarrow> string option" where
  "parseExprLiteral raw =
     (let text = trim raw in
      if text = ''true'' \<or> text = ''false'' then Some text
      else if is_numeric_literal text then Some text
      else (case json_parse text of
              None \<Rightarrow> None
            | Some JNull \<Rightarrow> None
            | Some v \<Rightarrow> Some (string_of_json v)))"

definition ph_condition :: "string \<Rightarrow> string \<Rightarrow> string \<Rightarrow> string \<Rightarrow> request_condition" where
  "ph_condition source path mode value =
     ParamHeaderCondition \<lparr>ph_source = source, ph_path = path, ph_mode = mode, ph_value = value\<rparr>"

text \<open>\<open>JSON.parse(m[2]) as string\<close> of a matched string literal.\<close>

definition parsed_string :: "string \<Rightarrow> string + string" where
  "parsed_string literal =
     (case json_parse literal of
        None \<Rightarrow> Inl ''SyntaxError'' | Some v \<Rightarrow> Inr (string_of_json v))"

definition match_header_exists :: "string \<Rightarrow> string option" where
  "match_header_exists s =
     (case eat_call ''header'' s of
        None \<Rightarrow> None | Some (path, rest) \<Rightarrow> if rest = '' != '' @ [QUOTE, QUOTE] then Some path else None)"

definition match_param_exists :: "string \<Rightarrow> string option" where
  "match_param_exists s =
     (case eat_call ''param'' s of
        None \<Rightarrow> None | Some (path, rest) \<Rightarrow> if rest = '' != nil'' then Some path else None)"

text \<open>\<open>has(f("..."), "...")\<close> up to the end: the path and the literal.\<close>

definition match_has :: "string \<Rightarrow> string \<Rightarrow> (string \<times> string) option" where
  "match_has f s =
     (case Option.bind (eat ''has('' s) (eat_call f) of
        None \<Rightarrow> None
      | Some (path, s1) \<Rightarrow>
          (case Option.bind (eat '', '' s1) eat_literal of
             None \<Rightarrow> None
           | Some (lit, s2) \<Rightarrow> if s2 = '')'' then Some (path, lit) else None))"

definition match_guarded :: "string \<Rightarrow> (string \<times> string) option" where
  "match_guarded s =
     (case eat_call ''param'' s of
        None \<Rightarrow> None | Some (path, s1) \<Rightarrow> map_option (\<lambda>rest. (path, rest)) (eat '' != nil && '' s1))"

definition match_param_compare :: "string \<Rightarrow> (string \<times> string \<times> string) option" where
  "match_param_compare s =
     (case eat_call ''param'' s of
        None \<Rightarrow> None
      | Some (path, s1) \<Rightarrow>
          (case List.find (\<lambda>(op, mode). starts_with ('' '' @ op @ '' '') s1)
              [(''>'', ''gt''), (''>='', ''gte''), (''<'', ''lt''), (''<='', ''lte'')] of
             None \<Rightarrow> None
           | Some (op, mode) \<Rightarrow>
               (case Option.bind (eat ('' '' @ op @ '' '') s1) eat_number of
                  None \<Rightarrow> None
                | Some (v, s2) \<Rightarrow> if s2 = [] then Some (path, mode, v) else None)))"

definition match_equals :: "string \<Rightarrow> (string \<times> string \<times> string) option" where
  "match_equals s =
     (case List.find (\<lambda>f. starts_with (f @ ''('') s) [''param'', ''header''] of
        None \<Rightarrow> None
      | Some f \<Rightarrow>
          (case eat_call f s of
             None \<Rightarrow> None
           | Some (path, s1) \<Rightarrow>
               (case eat '' == '' s1 of
                  None \<Rightarrow> None
                | Some raw \<Rightarrow>
                    if raw \<noteq> [] \<and> list_all (\<lambda>c. \<not> is_line_end c) raw then Some (f, path, raw) else None)))"

definition tryParseRequestCondition :: "string \<Rightarrow> string + request_condition option" where
  "tryParseRequestCondition expr =
     (case tryParseTimeCondition expr of Some tc \<Rightarrow> Inr (Some (TimeCondition tc)) | None \<Rightarrow>
     (case match_header_exists expr of Some path \<Rightarrow> Inr (Some (ph_condition ''header'' path ''exists'' [])) | None \<Rightarrow>
     (case match_param_exists expr of Some path \<Rightarrow> Inr (Some (ph_condition ''param'' path ''exists'' [])) | None \<Rightarrow>
     (case match_has ''header'' expr of
        Some (path, lit) \<Rightarrow> map_sum id (\<lambda>v. Some (ph_condition ''header'' path ''contains'' v)) (parsed_string lit)
      | None \<Rightarrow>
     (case Option.bind (match_guarded expr) (\<lambda>(path, rest). case match_has ''param'' rest of
          Some (path2, lit) \<Rightarrow> if path = path2 then Some (path, lit) else None | None \<Rightarrow> None) of
        Some (path, lit) \<Rightarrow> map_sum id (\<lambda>v. Some (ph_condition ''param'' path ''contains'' v)) (parsed_string lit)
      | None \<Rightarrow>
     (case Option.bind (match_guarded expr) (\<lambda>(path, rest). case match_param_compare rest of
          Some (path2, mode, v) \<Rightarrow> if path = path2 then Some (path, mode, v) else None | None \<Rightarrow> None) of
        Some (path, mode, v) \<Rightarrow> Inr (Some (ph_condition ''param'' path mode v))
      | None \<Rightarrow>
     (case match_equals expr of
        Some (source, path, raw) \<Rightarrow>
          Inr (map_option (\<lambda>v. ph_condition source path ''eq'' v) (parseExprLiteral raw))
      | None \<Rightarrow> Inr None)))))))"

text \<open>\<open>^\((.+) \? ([\d.eE+-]+) : 1\)$\<close>: the number is the longest one before the end.\<close>

definition match_factor :: "string \<Rightarrow> (string \<times> string) option" where
  "match_factor part =
     (if starts_with ''('' part \<and> ends_with '' : 1)'' part then
        (let body = take (length part - 6) (drop 1 part);
             num = rev (takeWhile is_num_char (rev body));
             pre = rev (dropWhile is_num_char (rev body))
         in if num \<noteq> [] \<and> ends_with '' ? '' pre \<and> length pre > 3
            then Some (take (length pre - 3) pre, num) else None)
      else None)"

fun parse_conditions :: "string list \<Rightarrow> string + request_condition list option" where
  "parse_conditions [] = Inr (Some [])"
| "parse_conditions (ap # aps) =
     (case tryParseRequestCondition (trim ap) of
        Inl e \<Rightarrow> Inl e
      | Inr None \<Rightarrow> Inr None
      | Inr (Some cond) \<Rightarrow> map_sum id (map_option (\<lambda>conds. cond # conds)) (parse_conditions aps))"

definition tryParseRuleGroupFactor :: "string \<Rightarrow> string + request_rule_group option" where
  "tryParseRuleGroupFactor part =
     (case match_factor part of
        None \<Rightarrow> Inr None
      | Some (conditionStr, multiplier) \<Rightarrow>
          map_sum id (\<lambda>res. case res of
              None \<Rightarrow> None
            | Some conditions \<Rightarrow>
                if conditions = [] then None
                else Some \<lparr>rg_conditions = conditions, rg_multiplier = multiplier\<rparr>)
            (parse_conditions (splitTopLevelAnd conditionStr)))"

fun parse_groups :: "string list \<Rightarrow> string + request_rule_group list option" where
  "parse_groups [] = Inr (Some [])"
| "parse_groups (part # parts) =
     (case tryParseRuleGroupFactor part of
        Inl e \<Rightarrow> Inl e
      | Inr None \<Rightarrow> Inr None
      | Inr (Some g) \<Rightarrow> map_sum id (map_option (\<lambda>gs. g # gs)) (parse_groups parts))"

definition tryParseRequestRuleExpr :: "string \<Rightarrow> string + request_rule_group list option" where
  "tryParseRequestRuleExpr expr =
     (let trimmed = trim expr in
      if trimmed = [] then Inr (Some []) else parse_groups (splitTopLevelMultiply trimmed))"

section \<open>Combining and splitting\<close>

text \<open>The loop of \<open>hasFullOuterParens\<close>: whether the depth is zero at the end and nowhere before the last
  character.\<close>

fun parens_close_last :: "int \<Rightarrow> string \<Rightarrow> bool" where
  "parens_close_last depth [] \<longleftrightarrow> depth = 0"
| "parens_close_last depth (c # s) \<longleftrightarrow>
     (let depth' = depth_step c depth in \<not> (depth' = 0 \<and> s \<noteq> []) \<and> parens_close_last depth' s)"

definition hasFullOuterParens :: "string \<Rightarrow> bool" where
  "hasFullOuterParens expr \<longleftrightarrow> starts_with ''('' expr \<and> ends_with '')'' expr \<and> parens_close_last 0 expr"

lemma length_trim: "length (trim s) \<le> length s"
  using length_dropWhile_le [of is_ws "rev (dropWhile is_ws s)"] length_dropWhile_le [of is_ws s]
  by (simp add: trim_def trim_by_def)

function unwrap_parens :: "string \<Rightarrow> string" where
  "unwrap_parens current =
     (if hasFullOuterParens current then unwrap_parens (trim (butlast (tl current))) else current)"
  by auto

termination
proof (relation "measure length")
  fix current assume "hasFullOuterParens current"
  then have "current \<noteq> []" by (auto simp: hasFullOuterParens_def)
  then show "(trim (butlast (tl current)), current) \<in> measure length"
    using length_trim [of "butlast (tl current)"] by (cases current) auto
qed simp

definition unwrapOuterParens :: "string \<Rightarrow> string" where
  "unwrapOuterParens expr = unwrap_parens (trim expr)"

fun sort_parts :: "string list \<Rightarrow> string + string list \<times> string list" where
  "sort_parts [] = Inr ([], [])"
| "sort_parts (part # parts) =
     (case tryParseRequestRuleExpr part of
        Inl e \<Rightarrow> Inl e
      | Inr parsed \<Rightarrow>
          map_sum id (\<lambda>(rules, bases).
              case parsed of Some (g # gs) \<Rightarrow> (part # rules, bases) | _ \<Rightarrow> (rules, part # bases))
            (sort_parts parts))"

definition splitBillingExprAndRequestRules :: "string \<Rightarrow> string + string \<times> string" where
  "splitBillingExprAndRequestRules expr =
     (let trimmed = trim expr in
      if trimmed = [] then Inr ([], [])
      else
        (let parts = splitTopLevelMultiply trimmed in
         if length parts \<le> 1 then Inr (trimmed, [])
         else
           map_sum id (\<lambda>(ruleParts, baseParts).
               if ruleParts = [] \<or> length baseParts \<noteq> 1 then (trimmed, [])
               else (unwrapOuterParens (hd baseParts), join '' * '' ruleParts))
             (sort_parts parts)))"

definition combineBillingExpr :: "string \<Rightarrow> string \<Rightarrow> string" where
  "combineBillingExpr baseExpr requestRuleExpr =
     (let base = trim baseExpr; rules = trim requestRuleExpr in
      if base = [] then [] else if rules = [] then base else ''('' @ base @ '') * '' @ rules)"

section \<open>Types of normalized conditions\<close>

text \<open>What the type \<open>RequestCondition\<close> and the options of the editor allow.\<close>

fun well_typed :: "request_condition \<Rightarrow> bool" where
  "well_typed (TimeCondition c) \<longleftrightarrow>
     tm_timeFunc c \<in> set TIME_FUNCS \<and> tm_timezone c \<noteq> [] \<and> tm_mode c \<in> set (getRequestRuleMatchOptions ''time'')"
| "well_typed (ParamHeaderCondition c) \<longleftrightarrow>
     ph_source c \<in> {''param'', ''header''} \<and> ph_mode c \<in> set (getRequestRuleMatchOptions (ph_source c))"

lemma offered_mode_offered:
  "d \<in> set (getRequestRuleMatchOptions source) \<Longrightarrow>
   offered_mode source m d \<in> set (getRequestRuleMatchOptions source)"
  by (simp add: offered_mode_def split: option.split)

lemma normalized_well_typed: "well_typed (normalizeCondition c)"
proof -
  have "well_typed (TimeCondition (normalizeTimeCondition cond))" for cond
    using offered_mode_offered [of "''gte''" "''time''" "cd_mode cond"]
    by (auto simp: normalizeTimeCondition_def string_or_def TIME_FUNCS_def getRequestRuleMatchOptions_def
        split: option.split)
  moreover have "well_typed (ParamHeaderCondition (normalizeParamHeaderCondition source cond))"
    if "source \<in> {''param'', ''header''}" for source cond
    using that offered_mode_offered [of "''eq''" source "cd_mode cond"]
    by (auto simp: normalizeParamHeaderCondition_def getRequestRuleMatchOptions_def)
  ultimately show ?thesis by (simp add: normalizeCondition_def Let_def)
qed

lemma normalize_well_typed_id:
  assumes "well_typed c"
  shows "normalizeCondition (Some (partial_of c)) = c"
proof (cases c)
  case (TimeCondition t)
  with assms show ?thesis
    by (cases t) (simp add: normalizeCondition_def normalizeTimeCondition_def offered_mode_def string_or_def string_of_def)
next
  case (ParamHeaderCondition p)
  with assms show ?thesis
    by (cases p) (auto simp: normalizeCondition_def normalizeParamHeaderCondition_def offered_mode_def string_or_def
        string_of_def)
qed

text \<open>C35: whatever the editor holds becomes a proper condition. A normalized condition has one of the known
  sources, a time function of the list and a mode that its source offers; and a condition that is
  so already is not changed, so normalizing twice is normalizing once.\<close>

theorem normalize_typed:
  "well_typed (normalizeCondition c) \<and>
   normalizeCondition (Some (partial_of (normalizeCondition c))) = normalizeCondition c"
  using normalized_well_typed normalize_well_typed_id by blast

end
