(* ===== verification/Billing_Text.thy ===== *)
theory Billing_Text
  imports Billing_Rules
begin

text \<open>
  Request rules survive their text: what \<open>buildRequestRuleExpr\<close> prints, \<open>tryParseRequestRuleExpr\<close> reads back, and
  a combined billing expression is split into the parts it was made of. The locale \<open>token_reader\<close> is the
  contract between a printed token and its reader, for names, numbers and string literals; the locale
  \<open>top_separator\<close> is the contract of the splitting at the top level, for conjunctions and for products.
\<close>

section \<open>Reading what was printed\<close>

text \<open>A reader gives back the token that was printed in front of a text that cannot continue it.\<close>

locale token_reader =
  fixes print :: "'a \<Rightarrow> string" and read :: "string \<Rightarrow> ('b \<times> string) option" and meaning :: "'a \<Rightarrow> 'b"
    and ok :: "'a \<Rightarrow> bool" and ends :: "string \<Rightarrow> bool"
  assumes read_print: "ok x \<Longrightarrow> ends rest \<Longrightarrow> read (print x @ rest) = Some (meaning x, rest)"
begin

lemma read_after: "ok x \<Longrightarrow> ends rest \<Longrightarrow> Option.bind (eat p (p @ print x @ rest)) read = Some (meaning x, rest)"
  by (simp add: eat_def read_print)

end

lemma eat_append [simp]: "eat p (p @ s) = Some s"
  by (simp add: eat_def)

definition name_ok :: "string \<Rightarrow> bool" where
  "name_ok s \<longleftrightarrow> s \<noteq> [] \<and> QUOTE \<notin> set s"

lemma eat_name_print: "name_ok s \<Longrightarrow> eat_name ([QUOTE] @ s @ [QUOTE] @ rest) = Some (s, rest)"
proof -
  assume "name_ok s"
  then have "takeWhile (\<lambda>c. c \<noteq> QUOTE) (s @ QUOTE # rest) = s" "dropWhile (\<lambda>c. c \<noteq> QUOTE) (s @ QUOTE # rest) = QUOTE # rest"
    by (auto simp: name_ok_def takeWhile_tail dropWhile_append3)
  then show ?thesis using \<open>name_ok s\<close> by (simp add: eat_name_def eat_def name_ok_def Let_def)
qed

interpretation names: token_reader "\<lambda>s. [QUOTE] @ s @ [QUOTE]" eat_name "\<lambda>s. s" name_ok "\<lambda>_. True"
  by unfold_locales (use eat_name_print in simp)

definition number_ok :: "string \<Rightarrow> bool" where
  "number_ok s \<longleftrightarrow> s \<noteq> [] \<and> list_all is_num_char s"

definition number_ends :: "string \<Rightarrow> bool" where
  "number_ends rest \<longleftrightarrow> (case rest of [] \<Rightarrow> True | c # _ \<Rightarrow> \<not> is_num_char c)"

interpretation numbers: token_reader "\<lambda>s. s" eat_number "\<lambda>s. s" number_ok number_ends
proof
  fix s rest assume "number_ok s" "number_ends rest"
  then have "takeWhile is_num_char (s @ rest) = s" "dropWhile is_num_char (s @ rest) = rest" "s \<noteq> []"
    by (auto simp: number_ok_def number_ends_def list_all_iff takeWhile_append dropWhile_append split: list.splits)
  then show "eat_number (s @ rest) = Some (s, rest)" by (simp add: eat_number_def)
qed

lemma control_digits: "(of_char c :: nat) < 32 \<Longrightarrow> of_char c div 16 < (16 :: nat) \<and> of_char c mod 16 < (16 :: nat)"
  by simp

lemma hex_digit_other: "d < 16 \<Longrightarrow> hex_val c = None \<Longrightarrow> hex_digit d \<noteq> c"
  using hex_val_hex_digit by fastforce

lemma quote_char_chars:
  assumes "x \<in> set (quote_char c)" "hex_val x = None" "x \<notin> set (BSLASH # ''nrtu'')"
  shows "x = c \<and> 32 \<le> (of_char x :: nat)"
proof (cases "quote_char c = [c]")
  case True
  then show ?thesis using assms by (auto simp: quote_char_def split: if_splits)
next
  case False
  have "x \<noteq> hex_digit (of_char c div 16)" "x \<noteq> hex_digit (of_char c mod 16)" if "(of_char c :: nat) < 32"
    using hex_digit_other [OF _ assms(2)] control_digits [OF that] by metis+
  moreover have "hex_val (CHR ''b'') \<noteq> None" "hex_val (CHR ''f'') \<noteq> None" "hex_val (CHR ''0'') \<noteq> None"
    by (simp_all add: hex_val_def)
  ultimately show ?thesis using assms False by (auto simp: quote_char_def split: if_splits)
qed

lemma literal_quote_char:
  "literal_body (quote_char c @ s) = map_option (\<lambda>(t, rest). (quote_char c @ t, rest)) (literal_body s)"
proof -
  have q: "hex_val QUOTE = None" "hex_val BSLASH = None" by (simp_all add: hex_val_def)
  have "hex_digit d \<noteq> QUOTE" "hex_digit d \<noteq> BSLASH" if "d < 16" for d
    using hex_digit_other [OF that q(1)] hex_digit_other [OF that q(2)] by simp_all
  then show ?thesis using control_digits [of c]
    by (cases "literal_body s") (simp_all add: quote_char_def is_line_end_def split_beta)
qed

lemma eat_literal_quote: "eat_literal (json_quote s @ rest) = Some (json_quote s, rest)"
proof -
  have "literal_body (concat (map quote_char s) @ QUOTE # rest) = Some (concat (map quote_char s), rest)"
    by (induction s) (simp_all add: literal_quote_char)
  then show ?thesis by (simp add: eat_literal_def json_quote_def eat_def)
qed

interpretation literals: token_reader json_quote eat_literal json_quote "\<lambda>_. True" "\<lambda>_. True"
  by unfold_locales (rule eat_literal_quote)

lemma parse_quoted: "json_parse (json_quote s) = Some (JStr s)"
  using parse_stringify [of "JStr s"] by simp

section \<open>Numeric literals and plain texts\<close>

lemma digits_num: "list_all is_digit s \<Longrightarrow> list_all is_num_char s"
  by (auto simp: list_all_iff is_num_char_def)

lemma exponent_num: "is_exponent s \<Longrightarrow> list_all is_num_char s"
  by (auto simp: is_exponent_def is_num_char_def Let_def list_all_iff split: list.splits if_splits)

lemma digits_rest_num: "list_all is_num_char (snd (take_digits s)) \<Longrightarrow> list_all is_num_char s"
  by (induction s) (auto simp: take_digits_def is_num_char_def split: if_splits)

lemma unsigned_num: "is_unsigned_literal s \<Longrightarrow> number_ok s"
proof -
  assume u: "is_unsigned_literal s"
  have rest: "list_all is_num_char (snd (take_digits s))"
  proof (cases "snd (take_digits s)")
    case (Cons c t)
    have e: "is_exponent (c # t) \<or> c = CHR ''.'' \<and> is_exponent (snd (take_digits t))"
      using u Cons by (cases "take_digits s") (auto simp: is_unsigned_literal_def split: if_splits)
    have "is_num_char (CHR ''.'')" by (simp add: is_num_char_def)
    then show ?thesis using e exponent_num [of "c # t"] exponent_num [of "snd (take_digits t)"] digits_rest_num [of t]
      by (auto simp: Cons)
  qed simp
  moreover have "s \<noteq> []" using u by (auto simp: is_unsigned_literal_def take_digits_def)
  ultimately show ?thesis using digits_rest_num by (simp add: number_ok_def)
qed

lemma numeric_ok: "is_numeric_literal s \<Longrightarrow> number_ok s"
proof (cases s)
  case (Cons c t)
  have "is_num_char (CHR ''-'')" by (simp add: is_num_char_def)
  moreover assume "is_numeric_literal s"
  ultimately show ?thesis using unsigned_num [of s] unsigned_num [of t] Cons
    by (cases "c = CHR ''-''") (simp_all add: is_numeric_literal_def number_ok_def)
qed (simp add: is_numeric_literal_def is_unsigned_literal_def take_digits_def)

lemma num_char_plain: "is_num_char c \<Longrightarrow> \<not> is_ws c \<and> c \<notin> set ''()&|?'' \<and> c \<noteq> QUOTE"
  by (auto simp: is_num_char_def is_ws_def is_digit_def)

lemma number_trim: "number_ok s \<Longrightarrow> trim s = s"
  using num_char_plain by (intro trim_no_ws) (auto simp: number_ok_def list_all_iff)

text \<open>Texts of conditions that the editor reads back: nothing that the splitting takes for structure, and
  in names nothing that JSON would escape.\<close>

definition plain_text :: "string \<Rightarrow> bool" where
  "plain_text s \<longleftrightarrow> trim s = s \<and> set s \<inter> set ''()&|'' = {}"

definition plain_name :: "string \<Rightarrow> bool" where
  "plain_name s \<longleftrightarrow> s \<noteq> [] \<and> plain_text s \<and> (\<forall>c \<in> set s. c \<noteq> QUOTE \<and> c \<noteq> BSLASH \<and> 32 \<le> (of_char c :: nat))"

lemma plain_name_quote: "plain_name s \<Longrightarrow> json_quote s = [QUOTE] @ s @ [QUOTE]"
proof -
  assume s: "plain_name s"
  have "quote_char c = [c]" if "c \<in> set s" for c
  proof -
    have "c \<noteq> QUOTE \<and> c \<noteq> BSLASH \<and> 32 \<le> (of_char c :: nat)" using s that by (simp add: plain_name_def)
    then show ?thesis by (auto simp: quote_char_def)
  qed
  then have "map quote_char s = map (\<lambda>c. [c]) s" by simp
  then have "concat (map quote_char s) = s" by (simp del: map_eq_conv)
  then show ?thesis by (simp add: json_quote_def)
qed

lemma plain_name_ok: "plain_name s \<Longrightarrow> name_ok s"
  by (auto simp: plain_name_def name_ok_def)

lemma eat_call_print:
  "plain_name s \<Longrightarrow> eat_call f (f @ ''('' @ json_quote s @ '')'' @ rest) = Some (s, rest)"
  using eat_append [of "f @ ''(''" "json_quote s @ '')'' @ rest"] eat_name_print [OF plain_name_ok, of s "'')'' @ rest"]
  by (simp add: eat_call_def plain_name_quote eat_def)

lemma starts_with_app: "starts_with (f @ p) (f @ s) \<longleftrightarrow> starts_with p s"
  by (induction f) auto

lemma quoted_plain:
  assumes "plain_text s" "c \<in> set ''()&|''"
  shows "c \<notin> set (json_quote s)"
proof
  assume "c \<in> set (json_quote s)"
  then obtain d where "d \<in> set s" "c \<in> set (quote_char d)"
    using assms(2) by (auto simp: json_quote_def)
  then show False
    using quote_char_chars [of c d] assms by (auto simp: plain_text_def hex_val_def)
qed

lemma quoted_no_line_end: "list_all (\<lambda>c. \<not> is_line_end c) (json_quote s)"
proof -
  have "\<not> is_line_end c" if "c \<in> set (quote_char d)" for c d
  proof
    assume e: "is_line_end c"
    then have "hex_val c = None" "c \<notin> set (BSLASH # ''nrtu'')" by (auto simp: is_line_end_def hex_val_def)
    from quote_char_chars [OF that this] e show False by (auto simp: is_line_end_def)
  qed
  then show ?thesis by (auto simp: json_quote_def list_all_iff is_line_end_def)
qed

section \<open>Conditions are read back\<close>

fun readable :: "request_condition \<Rightarrow> bool" where
  "readable (TimeCondition c) \<longleftrightarrow>
     tm_timeFunc c \<in> set TIME_FUNCS \<and> plain_name (tm_timezone c) \<and>
     (if tm_mode c = ''range''
      then tm_value c = [] \<and> is_numeric_literal (tm_rangeStart c) \<and> is_numeric_literal (tm_rangeEnd c)
      else tm_mode c \<in> {''eq'', ''gte'', ''lt''} \<and> is_numeric_literal (tm_value c) \<and>
        tm_rangeStart c = [] \<and> tm_rangeEnd c = [])"
| "readable (ParamHeaderCondition c) \<longleftrightarrow>
     ph_source c \<in> {''param'', ''header''} \<and> plain_name (ph_path c) \<and>
     (ph_mode c = ''exists'' \<and> ph_value c = [] \<or>
      ph_mode c = ''contains'' \<and> ph_source c = ''header'' \<and> plain_text (ph_value c) \<or>
      ph_mode c = ''eq'' \<and> plain_text (ph_value c))"

definition is_range :: "request_condition \<Rightarrow> bool" where
  "is_range c = (case c of TimeCondition t \<Rightarrow> tm_mode t = ''range'' | _ \<Rightarrow> False)"

lemma time_find:
  assumes "f \<in> set TIME_FUNCS"
  shows "List.find (\<lambda>g. starts_with (g @ ''('') (f @ ''('' @ s)) TIME_FUNCS = Some f"
proof -
  have "f = ''hour'' \<or> f = ''minute'' \<or> f = ''weekday'' \<or> f = ''month'' \<or> f = ''day''"
    using assms by (simp add: TIME_FUNCS_def)
  then show ?thesis by (elim disjE) (simp_all add: TIME_FUNCS_def)
qed

lemma eat_time_call_print:
  assumes "f \<in> set TIME_FUNCS" "plain_name tz"
  shows "eat_time_call (f @ ''('' @ json_quote tz @ '')'' @ rest) = Some (f, tz, rest)"
  using time_find [OF assms(1), of "json_quote tz @ '')'' @ rest"] eat_call_print [OF assms(2), of f rest]
  by (simp add: eat_time_call_def)

lemma number_stop: "number_ends (CHR '' '' # s)" "number_ends []" "number_ends '')''"
  by (simp_all add: number_ends_def is_num_char_def is_digit_def)

lemma match_range_print:
  assumes "f \<in> set TIME_FUNCS" "plain_name tz" "number_ok a" "number_ok b" "final = [] \<or> final = '')''"
  shows "match_time_range final (f @ ''('' @ json_quote tz @ '')'' @ '' >= '' @ a @ '' || '' @
      f @ ''('' @ json_quote tz @ '')'' @ '' < '' @ b @ final) =
    Some \<lparr>tm_timeFunc = f, tm_timezone = tz, tm_mode = ''range'', tm_value = [], tm_rangeStart = a, tm_rangeEnd = b\<rparr>"
proof -
  let ?p = "'' || '' @ f @ ''('' @ [QUOTE] @ tz @ [QUOTE] @ '') < ''"
  have 1: "Option.bind (eat '' >= '' ('' >= '' @ a @ '' || '' @ s)) eat_number = Some (a, '' || '' @ s)" for s
    using numbers.read_after [OF assms(3), of "'' || '' @ s" "'' >= ''"] number_stop by simp
  have 2: "Option.bind (eat ?p (?p @ b @ final)) eat_number = Some (b, final)"
    using assms(5) number_stop by (intro numbers.read_after [OF assms(4)]) auto
  have 3: "'' || '' @ f @ ''('' @ json_quote tz @ '')'' @ '' < '' @ b @ final = ?p @ b @ final"
    using plain_name_quote [OF assms(2)] by simp
  show ?thesis
    unfolding match_time_range_def eat_time_call_print [OF assms(1,2)] option.case prod.case 1
    unfolding 3 2 by simp
qed

lemma match_compare_print:
  assumes "f \<in> set TIME_FUNCS" "plain_name tz" "number_ok v"
    and "(op, mode) \<in> {(''=='', ''eq''), (''>='', ''gte''), (''<'', ''lt'')}"
  shows "match_time_compare (f @ ''('' @ json_quote tz @ '')'' @ '' '' @ op @ '' '' @ v) =
    Some \<lparr>tm_timeFunc = f, tm_timezone = tz, tm_mode = mode, tm_value = v, tm_rangeStart = [], tm_rangeEnd = []\<rparr>"
    "match_time_range [] (f @ ''('' @ json_quote tz @ '')'' @ '' '' @ op @ '' '' @ v) = None"
proof -
  have n: "eat_number v = Some (v, [])" using numbers.read_print [OF assms(3), of "[]"] number_stop by simp
  show "match_time_compare (f @ ''('' @ json_quote tz @ '')'' @ '' '' @ op @ '' '' @ v) =
    Some \<lparr>tm_timeFunc = f, tm_timezone = tz, tm_mode = mode, tm_value = v, tm_rangeStart = [], tm_rangeEnd = []\<rparr>"
    unfolding match_time_compare_def eat_time_call_print [OF assms(1,2)] option.case prod.case
    using assms(4) n by (elim insertE emptyE) (simp_all add: eat_def)
  show "match_time_range [] (f @ ''('' @ json_quote tz @ '')'' @ '' '' @ op @ '' '' @ v) = None"
    unfolding match_time_range_def eat_time_call_print [OF assms(1,2)] option.case prod.case
    using assms(4) n by (elim insertE emptyE) (simp_all add: eat_def)
qed

lemma no_time_call:
  assumes "p \<in> {''('', ''header('', ''param('', ''has(''}"
  shows "match_time_range final (p @ s) = None" "match_time_compare (p @ s) = None"
proof -
  have "eat_time_call (p @ s) = None"
    using assms by (elim insertE emptyE) (simp_all add: eat_time_call_def TIME_FUNCS_def)
  then show "match_time_range final (p @ s) = None" "match_time_compare (p @ s) = None"
    by (simp_all add: match_time_range_def match_time_compare_def)
qed

lemma not_time:
  assumes "p \<in> {''header('', ''param('', ''has(''}"
  shows "tryParseTimeCondition (p @ s) = None"
proof -
  have "eat ''('' (p @ s) = None" using assms by (elim insertE emptyE) (simp_all add: eat_def)
  then show ?thesis using assms by (simp add: no_time_call tryParseTimeCondition_def)
qed

lemma time_no_paren: "f \<in> set TIME_FUNCS \<Longrightarrow> eat ''('' (f @ s) = None"
  by (auto simp: TIME_FUNCS_def eat_def)

definition time_text :: "time_condition \<Rightarrow> string" where
  "time_text c =
     (let fn = tm_timeFunc c @ ''('' @ json_quote (tm_timezone c) @ '')'' in
      if tm_mode c = ''range'' then fn @ '' >= '' @ tm_rangeStart c @ '' || '' @ fn @ '' < '' @ tm_rangeEnd c
      else fn @ '' '' @ (if tm_mode c = ''gte'' then ''>='' else if tm_mode c = ''lt'' then ''<'' else ''=='') @
        '' '' @ tm_value c)"

lemma options_simps:
  "getRequestRuleMatchOptions ''time'' = [''eq'', ''gte'', ''lt'', ''range'']"
  "getRequestRuleMatchOptions ''header'' = [''eq'', ''contains'', ''exists'']"
  "getRequestRuleMatchOptions ''param'' = [''eq'', ''contains'', ''exists'', ''gt'', ''gte'', ''lt'', ''lte'']"
  by (simp_all add: getRequestRuleMatchOptions_def)

lemma readable_typed: "readable c \<Longrightarrow> well_typed c"
proof (cases c)
  case (TimeCondition t)
  moreover assume "readable c"
  ultimately have "tm_timeFunc t \<in> set TIME_FUNCS" "tm_timezone t \<noteq> []" "tm_mode t \<in> {''range'', ''eq'', ''gte'', ''lt''}"
    by (simp_all add: plain_name_def split: if_split_asm)
  then show ?thesis by (simp add: TimeCondition options_simps) blast
next
  case (ParamHeaderCondition p)
  moreover assume "readable c"
  ultimately have "ph_source p \<in> {''param'', ''header''}" "ph_mode p \<in> {''exists'', ''contains'', ''eq''}"
    by simp_all blast
  then show ?thesis unfolding ParamHeaderCondition well_typed.simps
    by (elim insertE emptyE) (simp_all add: options_simps)
qed

lemma build_time:
  assumes "readable (TimeCondition c)"
  shows "buildRequestConditionExpr (TimeCondition c) = time_text c"
proof -
  have n: "normalizeTimeCondition (partial_of (TimeCondition c)) = c"
    using normalize_well_typed_id [OF readable_typed [OF assms]] by (simp add: normalizeCondition_def)
  show ?thesis
    using assms number_trim [OF numeric_ok]
    by (auto simp: buildTimeConditionExpr_def n time_text_def Let_def simp del: partial_of.simps)
qed

lemma parse_time:
  assumes "readable (TimeCondition c)"
  shows "tryParseTimeCondition (time_text c) = Some c"
    "tm_mode c = ''range'' \<Longrightarrow> tryParseTimeCondition (''('' @ time_text c @ '')'') = Some c"
proof -
  obtain f tz m v a b where c: "c = \<lparr>tm_timeFunc = f, tm_timezone = tz, tm_mode = m, tm_value = v,
      tm_rangeStart = a, tm_rangeEnd = b\<rparr>" by (cases c)
  have ft: "f \<in> set TIME_FUNCS" "plain_name tz" using assms by (auto simp: c)
  show wrapped: "tryParseTimeCondition (''('' @ time_text c @ '')'') = Some c" if "tm_mode c = ''range''"
  proof -
    have "number_ok a" "number_ok b" "v = []" "m = ''range''" using assms numeric_ok that by (auto simp: c)
    with match_range_print [OF ft this(1,2), of "'')''"] no_time_call(1) [of "''(''" "[]"] show ?thesis
      by (simp add: tryParseTimeCondition_def time_text_def c Let_def eat_def)
  qed
  show "tryParseTimeCondition (time_text c) = Some c"
  proof (cases "m = ''range''")
    case True
    then have "number_ok a" "number_ok b" "v = []" using assms numeric_ok by (auto simp: c)
    with match_range_print [OF ft this(1,2), of "[]"] True show ?thesis
      by (simp add: tryParseTimeCondition_def time_text_def c Let_def)
  next
    case False
    then have r: "number_ok v" "a = []" "b = []" "m \<in> {''eq'', ''gte'', ''lt''}" using assms numeric_ok by (auto simp: c)
    define op where "op = (if m = ''gte'' then ''>='' else if m = ''lt'' then ''<'' else ''=='')"
    have "(op, m) \<in> {(''=='', ''eq''), (''>='', ''gte''), (''<'', ''lt'')}" using r(4) by (auto simp: op_def)
    note m = match_compare_print [OF ft r(1) this]
    have "time_text c = f @ ''('' @ json_quote tz @ '')'' @ '' '' @ op @ '' '' @ v"
      using False by (simp add: time_text_def c op_def Let_def)
    then show ?thesis
      unfolding tryParseTimeCondition_def by (simp only: m time_no_paren [OF ft(1)]) (simp add: c r(2,3))
  qed
qed

definition ph_text :: "param_header_condition \<Rightarrow> string" where
  "ph_text c =
     (let call = ph_source c @ ''('' @ json_quote (ph_path c) @ '')'' in
      if ph_mode c = ''exists'' then call @ (if ph_source c = ''header'' then '' != '' @ [QUOTE, QUOTE] else '' != nil'')
      else if ph_mode c = ''contains'' then ''has('' @ call @ '', '' @ json_quote (ph_value c) @ '')''
      else call @ '' == '' @ buildExprLiteral ''eq'' (ph_value c))"

lemma build_ph:
  assumes "readable (ParamHeaderCondition c)"
  shows "buildRequestConditionExpr (ParamHeaderCondition c) = ph_text c"
proof -
  have src: "ph_source c \<in> {''param'', ''header''}" and path: "ph_path c \<noteq> []" "trim (ph_path c) = ph_path c"
    using assms by (simp_all add: plain_name_def plain_text_def)
  have n: "normalizeParamHeaderCondition (if ph_source c = ''header'' then ''header'' else ''param'')
      (partial_of (ParamHeaderCondition c)) = c"
    using normalize_well_typed_id [OF readable_typed [OF assms]] src
    by (auto simp: normalizeCondition_def split: if_splits)
  have mode: "ph_mode c = ''exists'' \<or> ph_mode c = ''contains'' \<and> ph_source c = ''header'' \<and> trim (ph_value c) = ph_value c \<or>
      ph_mode c = ''eq''"
    using assms by (auto simp: plain_text_def)
  show ?thesis
    unfolding buildRequestConditionExpr.simps n
    using mode src path
    by (elim disjE conjE insertE emptyE)
      (simp_all add: buildParamHeaderExpr_def ph_text_def Let_def buildExprLiteral_def)
qed

lemma literal_text:
  assumes "trim v = v"
  shows "parseExprLiteral (buildExprLiteral ''eq'' v) = Some v"
    "buildExprLiteral ''eq'' v \<noteq> []" "list_all (\<lambda>c. \<not> is_line_end c) (buildExprLiteral ''eq'' v)"
proof -
  consider (word) "v = ''true'' \<or> v = ''false''" | (number) "is_numeric_literal v" "v \<noteq> ''true''" "v \<noteq> ''false''"
    | (other) "\<not> is_numeric_literal v" "v \<noteq> ''true''" "v \<noteq> ''false''" by blast
  then have "parseExprLiteral (buildExprLiteral ''eq'' v) = Some v \<and> buildExprLiteral ''eq'' v \<noteq> [] \<and>
    list_all (\<lambda>c. \<not> is_line_end c) (buildExprLiteral ''eq'' v)"
  proof cases
    case word
    then show ?thesis using assms
      by (elim disjE) (simp_all add: buildExprLiteral_def parseExprLiteral_def is_line_end_def)
  next
    case number
    have "\<not> is_line_end c" if "c \<in> set v" for c
      using that num_char_plain [of c] numeric_ok [OF number(1)]
      by (auto simp: number_ok_def list_all_iff is_line_end_def is_ws_def)
    with number numeric_ok [OF number(1)] assms show ?thesis
      by (simp add: buildExprLiteral_def parseExprLiteral_def number_ok_def list_all_iff)
  next
    case other
    have "trim (json_quote v) = json_quote v"
      unfolding trim_def by (rule trim_by_id) (simp add: json_quote_def is_ws_def)
    moreover have "json_quote v \<noteq> ''true''" "json_quote v \<noteq> ''false''" "json_quote v \<noteq> []" by (simp_all add: json_quote_def)
    moreover have "\<not> is_numeric_literal (json_quote v)"
      using numeric_ok [of "json_quote v"] by (auto simp: number_ok_def json_quote_def is_num_char_def is_digit_def)
    ultimately show ?thesis using other assms quoted_no_line_end [of v]
      by (simp add: buildExprLiteral_def parseExprLiteral_def parse_quoted Let_def)
  qed
  then show "parseExprLiteral (buildExprLiteral ''eq'' v) = Some v"
    "buildExprLiteral ''eq'' v \<noteq> []" "list_all (\<lambda>c. \<not> is_line_end c) (buildExprLiteral ''eq'' v)" by simp_all
qed

lemma no_call: "eat_call ''param'' (''header('' @ s) = None" "eat_call ''header'' (''param('' @ s) = None"
  "eat_call ''param'' (''has('' @ s) = None" "eat_call ''header'' (''has('' @ s) = None"
  "eat ''has('' (''header('' @ s) = None" "eat ''has('' (''param('' @ s) = None"
  by (simp_all add: eat_call_def eat_def)

lemma call_text:
  assumes "plain_name p"
  shows "eat_call ''header'' (''header('' @ json_quote p @ '')'' @ s) = Some (p, s)"
    "eat_call ''param'' (''param('' @ json_quote p @ '')'' @ s) = Some (p, s)"
  using eat_call_print [OF assms, of "''header''" s] eat_call_print [OF assms, of "''param''" s] by simp_all

lemma find_call_text:
  "List.find (\<lambda>f. starts_with (f @ ''('') (''header('' @ s)) [''param'', ''header''] = Some ''header''"
  "List.find (\<lambda>f. starts_with (f @ ''('') (''param('' @ s)) [''param'', ''header''] = Some ''param''"
  "List.find (\<lambda>f. starts_with (f @ ''('') (''has('' @ s)) [''param'', ''header''] = None"
  by simp_all

lemmas match_defs = match_header_exists_def match_param_exists_def match_has_def match_guarded_def match_equals_def

lemma header_text:
  assumes "plain_name p" and t: "t = ''header('' @ json_quote p @ '')'' @ s"
  shows "tryParseTimeCondition t = None"
    "match_header_exists t = (if s = '' != '' @ [QUOTE, QUOTE] then Some p else None)"
    "match_param_exists t = None" "match_has f t = None" "match_guarded t = None"
    "match_equals t = (case eat '' == '' s of
        None \<Rightarrow> None
      | Some raw \<Rightarrow> if raw \<noteq> [] \<and> list_all (\<lambda>c. \<not> is_line_end c) raw then Some (''header'', p, raw) else None)"
  unfolding match_defs t
  by (simp_all only: call_text [OF assms(1)] no_call find_call_text not_time insertI1 option.case prod.case
      Option.bind.simps)

lemma param_text:
  assumes "plain_name p" and t: "t = ''param('' @ json_quote p @ '')'' @ s"
  shows "tryParseTimeCondition t = None" "match_header_exists t = None"
    "match_param_exists t = (if s = '' != nil'' then Some p else None)" "match_has f t = None"
    "match_guarded t = map_option (\<lambda>rest. (p, rest)) (eat '' != nil && '' s)"
    "match_equals t = (case eat '' == '' s of
        None \<Rightarrow> None
      | Some raw \<Rightarrow> if raw \<noteq> [] \<and> list_all (\<lambda>c. \<not> is_line_end c) raw then Some (''param'', p, raw) else None)"
  unfolding match_defs t
  by (simp_all only: call_text [OF assms(1)] no_call find_call_text not_time insertI1 insertI2 option.case prod.case
      Option.bind.simps)

lemma has_text:
  assumes t: "t = ''has('' @ s"
  shows "tryParseTimeCondition t = None" "match_header_exists t = None" "match_param_exists t = None"
    "match_guarded t = None" "match_equals t = None"
    "match_has f t = (case eat_call f s of
        None \<Rightarrow> None
      | Some (path, s1) \<Rightarrow>
          (case Option.bind (eat '', '' s1) eat_literal of
             None \<Rightarrow> None | Some (lit, s2) \<Rightarrow> if s2 = '')'' then Some (path, lit) else None))"
  unfolding match_defs t
  by (simp_all only: no_call find_call_text not_time insertI1 insertI2 option.case prod.case eat_append
      Option.bind.simps)

lemma parse_ph:
  assumes "readable (ParamHeaderCondition c)"
  shows "tryParseRequestCondition (ph_text c) = Inr (Some (ParamHeaderCondition c))"
proof -
  obtain src p m v where c: "c = \<lparr>ph_source = src, ph_path = p, ph_mode = m, ph_value = v\<rparr>" by (cases c)
  have p: "plain_name p" and src: "src = ''param'' \<or> src = ''header''"
    and mode: "m = ''exists'' \<and> v = [] \<or> m = ''contains'' \<and> src = ''header'' \<or> m = ''eq'' \<and> trim v = v"
    using assms by (simp_all add: c plain_text_def) blast
  consider (header) "src = ''header''" "m = ''exists''" "v = []" | (param) "src = ''param''" "m = ''exists''" "v = []"
    | (has) "src = ''header''" "m = ''contains''" | (heq) "src = ''header''" "m = ''eq''" "trim v = v"
    | (peq) "src = ''param''" "m = ''eq''" "trim v = v"
    using src mode by (elim disjE conjE) simp_all
  then show ?thesis
  proof cases
    case header
    note h = header_text [OF p refl, where s = "'' != '' @ [QUOTE, QUOTE]"]
    have "ph_text c = ''header('' @ json_quote p @ '')'' @ '' != '' @ [QUOTE, QUOTE]"
      by (simp add: ph_text_def c header)
    then show ?thesis
      unfolding tryParseRequestCondition_def by (simp only: h) (simp add: ph_condition_def c header)
  next
    case param
    note h = param_text [OF p refl, where s = "'' != nil''"]
    have "ph_text c = ''param('' @ json_quote p @ '')'' @ '' != nil''" by (simp add: ph_text_def c param)
    then show ?thesis
      unfolding tryParseRequestCondition_def by (simp only: h) (simp add: ph_condition_def c param)
  next
    case has
    let ?s = "''header('' @ json_quote p @ '')'' @ '', '' @ json_quote v @ '')''"
    note h = has_text [OF refl, where s = ?s]
    have m: "match_has ''header'' (''has('' @ ?s) = Some (p, json_quote v)"
      unfolding h(6) call_text [OF p] option.case prod.case using literals.read_after [of "'', ''" v "'')''"] by simp
    have "ph_text c = ''has('' @ ?s" by (simp add: ph_text_def c has)
    then show ?thesis
      unfolding tryParseRequestCondition_def
      by (simp only: h(1-5) m) (simp add: ph_condition_def c has parsed_string_def parse_quoted)
  next
    case heq
    let ?s = "'' == '' @ buildExprLiteral ''eq'' v"
    note h = header_text [OF p refl, where s = ?s]
    have "ph_text c = ''header('' @ json_quote p @ '')'' @ ?s" by (simp add: ph_text_def c heq)
    then show ?thesis
      unfolding tryParseRequestCondition_def
      by (simp only: h eat_append) (simp add: ph_condition_def c heq literal_text)
  next
    case peq
    let ?s = "'' == '' @ buildExprLiteral ''eq'' v"
    note h = param_text [OF p refl, where s = ?s]
    have "eat '' != nil && '' ?s = None" by (simp add: eat_def)
    moreover have "ph_text c = ''param('' @ json_quote p @ '')'' @ ?s" by (simp add: ph_text_def c peq)
    ultimately show ?thesis
      unfolding tryParseRequestCondition_def
      by (simp only: h eat_append) (simp add: ph_condition_def c peq literal_text)
  qed
qed

section \<open>Parentheses and splitting\<close>

definition depth_of :: "int \<Rightarrow> string \<Rightarrow> int" where
  "depth_of d s = foldl (\<lambda>d c. depth_step c d) d s"

lemma depth_of_simps [simp]: "depth_of d [] = d" "depth_of d (c # s) = depth_of (depth_step c d) s"
  by (simp_all add: depth_of_def)

lemma depth_of_append [simp]: "depth_of d (s @ t) = depth_of (depth_of d s) t"
  by (simp add: depth_of_def)

lemma depth_of_shift: "depth_of (d + k) s = depth_of d s + k"
  by (induction s arbitrary: d) (simp_all add: depth_step_def algebra_simps, (metis add.assoc add.commute diff_add_eq)+)

text \<open>Texts in which every parenthesis is closed after it was opened.\<close>

definition nested :: "string \<Rightarrow> bool" where
  "nested s \<longleftrightarrow> depth_of 0 s = 0 \<and> (\<forall>k. 0 \<le> depth_of 0 (take k s))"

lemma nested_append: "nested s \<Longrightarrow> nested t \<Longrightarrow> nested (s @ t)"
proof -
  assume "nested s" "nested t"
  moreover have "depth_of (depth_of 0 a) b = depth_of 0 b + depth_of 0 a" for a b
    using depth_of_shift [of 0 "depth_of 0 a" b] by simp
  ultimately show ?thesis by (simp add: nested_def)
qed

lemma depth_plain: "set s \<inter> set ''()'' = {} \<Longrightarrow> depth_of d s = d"
  by (induction s arbitrary: d) (auto simp: depth_step_def)

lemma nested_plain: "set s \<inter> set ''()'' = {} \<Longrightarrow> nested s"
proof -
  assume s: "set s \<inter> set ''()'' = {}"
  have "depth_of 0 (take k s) = 0" for k
    using s set_take_subset [of k s] by (intro depth_plain) blast
  then show ?thesis using depth_plain [OF s] by (simp add: nested_def)
qed

lemma nested_paren: "nested s \<Longrightarrow> nested (''('' @ s @ '')'')"
proof -
  assume s: "nested s"
  then have d: "depth_of 1 s = 1" using depth_of_shift [of 0 1 s] by (simp add: nested_def)
  have "0 \<le> depth_of 0 (take k (''('' @ s @ '')''))" for k
  proof (cases k)
    case (Suc j)
    have "0 \<le> depth_of 1 (take j s)" using s depth_of_shift [of 0 1 "take j s"] by (simp add: nested_def)
    then show ?thesis using d Suc by (cases "j - length s") (auto simp: depth_step_def)
  qed simp
  then show ?thesis using d by (simp add: nested_def depth_step_def)
qed

lemma parens_inside:
  "(\<And>k. 0 \<le> depth_of (d - 1) (take k s)) \<Longrightarrow> rest \<noteq> [] \<Longrightarrow>
   parens_close_last d (s @ rest) \<longleftrightarrow> parens_close_last (depth_of d s) rest"
proof (induction s arbitrary: d)
  case (Cons c s)
  have "0 \<le> depth_of (depth_step c d - 1) (take k s)" for k
    using Cons.prems(1) [of "Suc k"] by (simp add: depth_step_def algebra_simps split: if_splits)
  moreover from this [of 0] have "depth_step c d \<noteq> 0" by simp
  ultimately show ?case using Cons.IH [of "depth_step c d"] Cons.prems(2) by simp
qed simp

lemma nested_outer: "nested s \<Longrightarrow> parens_close_last 0 (''('' @ s @ '')'')"
  using parens_inside [of 1 s "'')''"] depth_of_shift [of 0 1 s] by (simp add: nested_def depth_step_def)

text \<open>The splitting passes over a text in parentheses, and over a text without ampersands.\<close>

lemma split_outer:
  assumes "parens_close_last d s" "s \<noteq> []" "last s \<noteq> CHR '' ''"
  shows "split_top (CHR '' '' # sep) cur d (s @ rest) = split_top (CHR '' '' # sep) (cur @ s) 0 rest"
  using assms
proof (induction s arbitrary: d cur)
  case (Cons c s)
  show ?case
  proof (cases "s = []")
    case True
    then show ?thesis using Cons.prems by (cases rest) (auto simp: Let_def)
  next
    case False
    then show ?thesis using Cons.prems Cons.IH [of "depth_step c d" "cur @ [c]"] by (simp add: Let_def)
  qed
qed simp

lemma split_plain:
  assumes "CHR ''&'' \<notin> set s" "rest = [] \<or> hd rest \<noteq> CHR ''&''"
  shows "split_top '' && '' cur d (s @ rest) = split_top '' && '' (cur @ s) (depth_of d s) rest"
  using assms(1)
proof (induction s arbitrary: d cur)
  case (Cons c s)
  have "\<not> starts_with '' && '' (c # s @ rest)"
    using Cons.prems assms(2) by (cases s; cases rest) auto
  then show ?case using Cons.IH Cons.prems by (simp add: Let_def del: starts_with_Cons)
qed simp

section \<open>The text of a condition\<close>

definition tidy :: "string \<Rightarrow> bool" where
  "tidy e \<longleftrightarrow> e \<noteq> [] \<and> \<not> is_ws (hd e) \<and> \<not> is_ws (last e) \<and> nested e \<and> CHR ''&'' \<notin> set e"

lemma tidy_trim: "tidy e \<Longrightarrow> trim e = e"
  unfolding trim_def by (rule trim_by_id) (simp add: tidy_def)

definition inert :: "string \<Rightarrow> bool" where
  "inert s \<longleftrightarrow> set s \<inter> set ''()&|'' = {}"

lemma inert_nested: "inert s \<Longrightarrow> nested s"
  by (rule nested_plain) (auto simp: inert_def)

lemma inert_append [simp]: "inert (s @ t) \<longleftrightarrow> inert s \<and> inert t"
  by (auto simp: inert_def)

lemma inert_quote: "plain_text s \<Longrightarrow> inert (json_quote s)"
  using quoted_plain by (auto simp: inert_def)

lemma inert_number: "number_ok s \<Longrightarrow> inert s"
  using num_char_plain by (fastforce simp: inert_def number_ok_def list_all_iff)

lemma inert_time: "f \<in> set TIME_FUNCS \<Longrightarrow> inert f \<and> f \<noteq> [] \<and> \<not> is_ws (hd f)"
  by (auto simp: TIME_FUNCS_def inert_def is_ws_def)

lemma number_last: "number_ok s \<Longrightarrow> s \<noteq> [] \<and> \<not> is_ws (hd s) \<and> \<not> is_ws (last s)"
  using num_char_plain by (simp add: number_ok_def list_all_iff)

lemma call_facts:
  assumes "inert f" "inert q"
  shows "nested (f @ ''('' @ q @ '')'')" "set (f @ ''('' @ q @ '')'') \<inter> set ''&|'' = {}"
  using assms nested_append [OF inert_nested nested_paren [OF inert_nested], of f q]
  by (auto simp: inert_def)

lemma no_bar: "CHR ''|'' \<notin> set e \<Longrightarrow> \<not> str_includes e '' || ''"
  by (auto simp: includes_iff)

lemma time_text_facts:
  assumes "readable (TimeCondition c)"
  shows "tidy (time_text c) \<and> (str_includes (time_text c) '' || '' \<longleftrightarrow> tm_mode c = ''range'')"
proof -
  let ?fn = "tm_timeFunc c @ ''('' @ json_quote (tm_timezone c) @ '')''"
  have f: "inert (tm_timeFunc c)" "tm_timeFunc c \<noteq> []" "\<not> is_ws (hd (tm_timeFunc c))" "inert (json_quote (tm_timezone c))"
    using assms inert_time [of "tm_timeFunc c"] inert_quote [of "tm_timezone c"] by (auto simp: plain_name_def)
  note fn = call_facts [OF f(1,4)]
  show ?thesis
  proof (cases "tm_mode c = ''range''")
    case True
    then have n: "number_ok (tm_rangeStart c)" "number_ok (tm_rangeEnd c)" using assms numeric_ok by auto
    have t: "time_text c = ?fn @ ('' >= '' @ tm_rangeStart c) @ '' || '' @ ?fn @ '' < '' @ tm_rangeEnd c"
      using True by (simp add: time_text_def)
    have "nested (time_text c)"
    proof -
      have "nested (tm_rangeStart c)" "nested (tm_rangeEnd c)"
        using n [THEN inert_number] by (simp_all add: inert_nested)
      moreover have "nested '' >= ''" "nested '' || ''" "nested '' < ''" by (rule nested_plain, simp)+
      ultimately show ?thesis
        unfolding t by (intro nested_append [OF fn(1)] nested_append) simp_all
    qed
    moreover have "CHR ''&'' \<notin> set (time_text c)"
      unfolding t using fn(2) n [THEN inert_number] by (auto simp: inert_def)
    moreover have "str_includes (time_text c) '' || ''" unfolding t includes_iff by (metis append.assoc)
    ultimately show ?thesis
      using True f number_last [OF n(2)] by (simp add: tidy_def t)
  next
    case False
    then have n: "number_ok (tm_value c)" using assms numeric_ok by auto
    define op where "op = '' '' @ (if tm_mode c = ''gte'' then ''>='' else if tm_mode c = ''lt'' then ''<'' else ''=='') @ '' ''"
    have op: "inert op" by (auto simp: op_def inert_def)
    have t: "time_text c = ?fn @ op @ tm_value c" using False by (simp add: time_text_def op_def)
    have "nested (time_text c)"
      unfolding t using nested_append [OF fn(1) nested_append [OF inert_nested [OF op] inert_nested [OF inert_number [OF n]]]] .
    moreover have "CHR ''&'' \<notin> set (time_text c)" "CHR ''|'' \<notin> set (time_text c)"
      unfolding t using fn(2) inert_number [OF n] op by (auto simp: inert_def)
    ultimately show ?thesis
      using False f number_last [OF n] no_bar by (simp add: tidy_def t)
  qed
qed

lemma literal_inert:
  assumes "plain_text v"
  shows "inert (buildExprLiteral ''eq'' v) \<and> \<not> is_ws (last (buildExprLiteral ''eq'' v))"
proof -
  have v: "trim v = v" "inert v" using assms by (simp_all add: plain_text_def inert_def)
  have "\<not> is_ws (last v)" if "v \<noteq> []" using trim_by_hd_last [of is_ws v] v(1) that by (simp add: trim_def)
  then show ?thesis using v inert_quote [OF assms] number_last [OF numeric_ok, of v]
    by (auto simp: buildExprLiteral_def Let_def json_quote_def is_ws_def)
qed

lemma ph_text_facts:
  assumes "readable (ParamHeaderCondition c)"
  shows "tidy (ph_text c) \<and> \<not> str_includes (ph_text c) '' || ''"
proof -
  let ?call = "ph_source c @ ''('' @ json_quote (ph_path c) @ '')''"
  have src: "inert (ph_source c)" "ph_source c \<noteq> []" "\<not> is_ws (hd (ph_source c))"
    using assms by (auto simp: inert_def is_ws_def)
  have q: "inert (json_quote (ph_path c))" using assms inert_quote by (simp add: plain_name_def)
  note call = call_facts [OF src(1) q]
  have *: "tidy (?call @ s) \<and> \<not> str_includes (?call @ s) '' || ''" if "inert s" "s \<noteq> []" "\<not> is_ws (last s)" for s
    using nested_append [OF call(1) inert_nested [OF that(1)]] call(2) src that no_bar [of "?call @ s"]
    by (auto simp: tidy_def inert_def)
  consider (exists) "ph_mode c = ''exists''" | (contains) "ph_mode c = ''contains''" "plain_text (ph_value c)"
    | (eq) "ph_mode c = ''eq''" "plain_text (ph_value c)"
    using assms by (simp, blast)
  then show ?thesis
  proof cases
    case exists
    have "inert (if ph_source c = ''header'' then '' != '' @ [QUOTE, QUOTE] else '' != nil'')"
      by (simp add: inert_def)
    with * [OF this] exists show ?thesis by (simp add: ph_text_def is_ws_def split: if_splits)
  next
    case contains
    let ?args = "?call @ '', '' @ json_quote (ph_value c)"
    have v: "inert ('', '' @ json_quote (ph_value c))" using inert_quote [OF contains(2)] by (simp add: inert_def)
    have t: "ph_text c = ''has'' @ (''('' @ ?args @ '')'')" using contains(1) by (simp add: ph_text_def)
    have "nested ''has''" by (rule nested_plain) simp
    then have "nested (ph_text c)"
      unfolding t by (intro nested_append [OF _ nested_paren] nested_append [OF call(1) inert_nested [OF v]])
    moreover have "set (ph_text c) \<inter> set ''&|'' = {}" unfolding t using call(2) v by (auto simp: inert_def)
    ultimately show ?thesis using no_bar [of "ph_text c"] by (auto simp: tidy_def t is_ws_def)
  next
    case eq
    have l: "inert (buildExprLiteral ''eq'' (ph_value c))" "\<not> is_ws (last (buildExprLiteral ''eq'' (ph_value c)))"
      "buildExprLiteral ''eq'' (ph_value c) \<noteq> []"
      using literal_inert [OF eq(2)] literal_text(2) [of "ph_value c"] eq(2) by (auto simp: plain_text_def)
    then have "inert ('' == '' @ buildExprLiteral ''eq'' (ph_value c))" by (simp add: inert_def)
    from * [OF this] l eq(1) show ?thesis by (simp add: ph_text_def)
  qed
qed

lemma condition_facts:
  assumes "readable c"
  shows "tidy (buildRequestConditionExpr c)" "str_includes (buildRequestConditionExpr c) '' || '' \<longleftrightarrow> is_range c"
    "tryParseRequestCondition (buildRequestConditionExpr c) = Inr (Some c)"
    "is_range c \<Longrightarrow> tryParseRequestCondition (''('' @ buildRequestConditionExpr c @ '')'') = Inr (Some c)"
proof -
  have "tidy (buildRequestConditionExpr c) \<and> (str_includes (buildRequestConditionExpr c) '' || '' \<longleftrightarrow> is_range c) \<and>
    tryParseRequestCondition (buildRequestConditionExpr c) = Inr (Some c) \<and>
    (is_range c \<longrightarrow> tryParseRequestCondition (''('' @ buildRequestConditionExpr c @ '')'') = Inr (Some c))"
  proof (cases c)
    case (TimeCondition t)
    note r = assms [unfolded TimeCondition]
    show ?thesis
      unfolding TimeCondition build_time [OF r] tryParseRequestCondition_def
      using time_text_facts [OF r] parse_time [OF r] by (auto simp: is_range_def)
  next
    case (ParamHeaderCondition p)
    note r = assms [unfolded ParamHeaderCondition]
    show ?thesis
      unfolding ParamHeaderCondition build_ph [OF r]
      using ph_text_facts [OF r] parse_ph [OF r] by (auto simp: is_range_def)
  qed
  then show "tidy (buildRequestConditionExpr c)" "str_includes (buildRequestConditionExpr c) '' || '' \<longleftrightarrow> is_range c"
    "tryParseRequestCondition (buildRequestConditionExpr c) = Inr (Some c)"
    "is_range c \<Longrightarrow> tryParseRequestCondition (''('' @ buildRequestConditionExpr c @ '')'') = Inr (Some c)" by simp_all
qed

section \<open>Groups are read back\<close>

text \<open>A separator at the top level gives back the parts that were joined with it.\<close>

locale top_separator =
  fixes sep :: string and part :: "string \<Rightarrow> bool"
  assumes sep_space: "\<exists>t. sep = CHR '' '' # t"
    and pass: "part x \<Longrightarrow> rest = [] \<or> (\<exists>s. rest = sep @ s) \<Longrightarrow> split_top sep [] 0 (x @ rest) = split_top sep x 0 rest"
    and part_trim: "part x \<Longrightarrow> x \<noteq> [] \<and> trim x = x"
begin

lemma at_separator: "split_top sep cur 0 (sep @ s) = cur # split_top sep [] 0 s"
proof -
  obtain t where sep: "sep = CHR '' '' # t" using sep_space by blast
  have "starts_with sep (CHR '' '' # t @ s)" using starts_with_append [of sep s] sep by simp
  then have "split_top sep cur 0 (CHR '' '' # t @ s) = cur # split_top sep [] 0 (drop (length sep) (sep @ s))"
    by (simp add: depth_step_def sep)
  then show ?thesis using sep by simp
qed

lemma split_parts:
  assumes "\<And>x. x \<in> set xs \<Longrightarrow> part x"
  shows "splitTopLevel sep (join sep xs) = xs"
proof -
  have "split_top sep [] 0 (join sep xs) = xs" if "xs \<noteq> []" "\<forall>x \<in> set xs. part x" for xs
    using that
  proof (induction xs rule: induct_list012)
    case (2 x)
    then show ?case using pass [of x "[]"] by simp
  next
    case (3 x y ys)
    then show ?case using pass [of x "sep @ join sep (y # ys)"] at_separator by simp
  qed simp
  then show ?thesis
    using assms part_trim by (cases "xs = []") (simp_all add: splitTopLevel_def map_idI)
qed

end

interpretation conjunction: top_separator "'' && ''" tidy
proof
  fix x rest assume x: "tidy x" and rest: "rest = [] \<or> (\<exists>s. rest = '' && '' @ s)"
  from rest have "rest = [] \<or> hd rest \<noteq> CHR ''&''" by auto
  then show "split_top '' && '' [] 0 (x @ rest) = split_top '' && '' x 0 rest"
    using split_plain [of x rest "[]" 0] x by (simp add: tidy_def nested_def)
qed (use tidy_trim in \<open>auto simp: tidy_def\<close>)

text \<open>Texts in one pair of parentheses.\<close>

definition enclosed :: "string \<Rightarrow> bool" where
  "enclosed f \<longleftrightarrow> (\<exists>s. f = ''('' @ s @ '')'' \<and> nested s)"

lemma enclosed_facts:
  "enclosed f \<Longrightarrow> parens_close_last 0 f \<and> f \<noteq> [] \<and> hd f = CHR ''('' \<and> last f = CHR '')'' \<and> trim f = f"
proof -
  assume "enclosed f"
  then obtain s where f: "f = ''('' @ s @ '')''" "nested s" by (auto simp: enclosed_def)
  have "trim f = f" unfolding trim_def by (rule trim_by_id) (simp add: f is_ws_def)
  then show ?thesis using f nested_outer by simp
qed

interpretation product: top_separator "'' * ''" enclosed
proof
  fix x rest assume "enclosed x"
  then show "split_top '' * '' [] 0 (x @ rest) = split_top '' * '' x 0 rest"
    using enclosed_facts [of x] split_outer [of 0 x "''* ''" "[]" rest] by simp
qed (use enclosed_facts in auto)

definition wrapped :: "request_condition \<Rightarrow> string" where
  "wrapped c =
     (if is_range c then ''('' @ buildRequestConditionExpr c @ '')'' else buildRequestConditionExpr c)"

lemma wrapped_facts:
  assumes "readable c"
  shows "tidy (wrapped c)" "tryParseRequestCondition (wrapped c) = Inr (Some c)"
proof -
  note f = condition_facts [OF assms]
  show "tidy (wrapped c)"
    using f(1) nested_paren [of "buildRequestConditionExpr c"] by (auto simp: wrapped_def tidy_def is_ws_def)
  show "tryParseRequestCondition (wrapped c) = Inr (Some c)" using f(3,4) by (simp add: wrapped_def)
qed

definition readable_group :: "request_rule_group \<Rightarrow> bool" where
  "readable_group g \<longleftrightarrow>
     rg_conditions g \<noteq> [] \<and> list_all readable (rg_conditions g) \<and> is_numeric_literal (rg_multiplier g)"

lemma parse_conditions_parts:
  "list_all2 (\<lambda>e c. tidy e \<and> tryParseRequestCondition e = Inr (Some c)) es cs \<Longrightarrow>
   parse_conditions es = Inr (Some cs)"
  by (induction es cs rule: list_all2_induct) (simp_all add: tidy_trim)

lemma combined_conditions:
  assumes "cs \<noteq> []" "list_all readable cs"
  obtains es where "combine_conditions (map buildRequestConditionExpr cs) = join '' && '' es" "es \<noteq> []"
    "list_all2 (\<lambda>e c. tidy e \<and> tryParseRequestCondition e = Inr (Some c)) es cs"
proof (cases "length cs = 1")
  case True
  then obtain c where c: "cs = [c]" by (auto simp: length_Suc_conv)
  show ?thesis
    by (rule that [of "[buildRequestConditionExpr c]"])
      (use assms condition_facts [of c] in \<open>simp_all add: c combine_conditions_def\<close>)
next
  case False
  have m: "map (\<lambda>e. if str_includes e '' || '' then ''('' @ e @ '')'' else e) (map buildRequestConditionExpr cs) =
      map wrapped cs"
    using assms(2) condition_facts(2) by (simp add: list_all_iff wrapped_def)
  have "combine_conditions (map buildRequestConditionExpr cs) = join '' && '' (map wrapped cs)"
    unfolding combine_conditions_def m using False by simp
  moreover have "list_all2 (\<lambda>e c. tidy e \<and> tryParseRequestCondition e = Inr (Some c)) (map wrapped cs) cs"
    using assms(2) wrapped_facts by (simp add: list_all2_conv_all_nth list_all_length)
  ultimately show ?thesis
    using that [of "map wrapped cs"] assms(1) by simp
qed

lemma nested_join: "nested sep \<Longrightarrow> (\<And>x. x \<in> set xs \<Longrightarrow> nested x) \<Longrightarrow> nested (join sep xs)"
  by (induction sep xs rule: join.induct) (auto intro!: nested_append simp: nested_def [of "[]"])

lemma join_not_Nil: "xs \<noteq> [] \<Longrightarrow> [] \<notin> set xs \<Longrightarrow> join sep xs \<noteq> []"
  by (induction sep xs rule: join.induct) auto

lemma ends_with_append: "ends_with p (s @ p)"
  by (simp add: ends_with_def)

lemma match_factor_body:
  assumes "body = pre @ m" "number_ok m" "pre = s @ '' ? ''" "s \<noteq> []"
  shows "match_factor (''('' @ body @ '' : 1)'') = Some (s, m)"
proof -
  have "ends_with '' : 1)'' (''('' @ body @ '' : 1)'')" using ends_with_append [of _ "''('' @ body"] by simp
  moreover have "list_all is_num_char (rev m)" using assms(2) by (simp add: number_ok_def)
  moreover have "\<not> is_num_char (CHR '' '')" by (simp add: is_num_char_def is_digit_def)
  ultimately have "takeWhile is_num_char (rev body) = rev m" "dropWhile is_num_char (rev body) = rev pre"
    by (simp_all add: assms(1,3) takeWhile_append dropWhile_append list_all_iff)
  moreover have "ends_with '' ? '' pre" unfolding assms(3) by (rule ends_with_append)
  moreover have "m \<noteq> []" "3 < length pre" "take (length pre - 3) pre = s"
    using assms by (simp_all add: number_ok_def)
  ultimately show ?thesis
    using \<open>ends_with '' : 1)'' (''('' @ body @ '' : 1)'')\<close> by (simp add: match_factor_def Let_def)
qed

lemma match_factor_print:
  "number_ok m \<Longrightarrow> s \<noteq> [] \<Longrightarrow> match_factor (''('' @ s @ '' ? '' @ m @ '' : 1)'') = Some (s, m)"
  using match_factor_body [of "(s @ '' ? '') @ m" "s @ '' ? ''" m s] by simp

lemma factor_facts:
  assumes "readable_group g"
  shows "enclosed (buildRuleGroupFactor g)" "tryParseRuleGroupFactor (buildRuleGroupFactor g) = Inr (Some g)"
proof -
  let ?m = "rg_multiplier g"
  have g: "rg_conditions g \<noteq> []" "list_all readable (rg_conditions g)" "is_numeric_literal ?m"
    using assms by (simp_all add: readable_group_def)
  note m = numeric_ok [OF g(3)]
  obtain es where es: "combine_conditions (map buildRequestConditionExpr (rg_conditions g)) = join '' && '' es"
    "es \<noteq> []" "list_all2 (\<lambda>e c. tidy e \<and> tryParseRequestCondition e = Inr (Some c)) es (rg_conditions g)"
    using combined_conditions [OF g(1,2)] .
  have tidy: "tidy e" if "e \<in> set es" for e
    using es(3) that by (auto simp: list_all2_conv_all_nth in_set_conv_nth)
  have "buildRequestConditionExpr c \<noteq> []" if "c \<in> set (rg_conditions g)" for c
    using condition_facts(1) [of c] g(2) that by (auto simp: list_all_iff tidy_def)
  then have "filter (\<lambda>e. e \<noteq> []) (map buildRequestConditionExpr (rg_conditions g)) = map buildRequestConditionExpr (rg_conditions g)"
    by (simp add: filter_id_conv)
  then have t: "buildRuleGroupFactor g = ''('' @ join '' && '' es @ '' ? '' @ ?m @ '' : 1)''"
    using g es(1) number_trim [OF m] by (simp add: buildRuleGroupFactor_def Let_def del: filter_map)
  have "nested '' && ''" "nested '' ? ''" "nested '' : 1''" by (rule nested_plain, simp)+
  then have "nested (join '' && '' es @ '' ? '' @ ?m @ '' : 1'')"
    using tidy inert_nested [OF inert_number [OF m]] by (intro nested_append nested_join) (simp_all add: tidy_def)
  then show "enclosed (buildRuleGroupFactor g)"
    unfolding enclosed_def t by (intro exI [of _ "join '' && '' es @ '' ? '' @ ?m @ '' : 1''"]) simp
  have "join '' && '' es \<noteq> []" using tidy es(2) by (intro join_not_Nil) (auto simp: tidy_def)
  then show "tryParseRuleGroupFactor (buildRuleGroupFactor g) = Inr (Some g)"
    using match_factor_print [OF m] conjunction.split_parts [of es] tidy parse_conditions_parts [OF es(3)] g(1)
    by (simp add: tryParseRuleGroupFactor_def t splitTopLevelAnd_def)
qed

lemma parse_groups_factors:
  "list_all readable_group gs \<Longrightarrow> parse_groups (map buildRuleGroupFactor gs) = Inr (Some gs)"
  by (induction gs) (simp_all add: factor_facts)

lemma rule_expr_factors:
  assumes "list_all readable_group gs"
  shows "buildRequestRuleExpr gs = join '' * '' (map buildRuleGroupFactor gs)"
    "\<And>f. f \<in> set (map buildRuleGroupFactor gs) \<Longrightarrow> enclosed f"
proof -
  show enclosed: "enclosed f" if "f \<in> set (map buildRuleGroupFactor gs)" for f
    using that assms factor_facts(1) by (auto simp: list_all_iff)
  then have "\<forall>f \<in> set (map buildRuleGroupFactor gs). f \<noteq> []" using enclosed_facts by blast
  then show "buildRequestRuleExpr gs = join '' * '' (map buildRuleGroupFactor gs)"
    by (simp add: buildRequestRuleExpr_def filter_id_conv del: filter_map)
qed

lemma join_ends:
  "xs \<noteq> [] \<Longrightarrow> [] \<notin> set xs \<Longrightarrow> hd (join sep xs) = hd (hd xs) \<and> last (join sep xs) = last (last xs)"
  by (induction sep xs rule: join.induct) (auto simp: join_not_Nil)

lemma rule_expr_trim:
  assumes "list_all readable_group gs"
  shows "trim (buildRequestRuleExpr gs) = buildRequestRuleExpr gs"
proof (cases "gs = []")
  case False
  let ?fs = "map buildRuleGroupFactor gs"
  have e: "enclosed (hd ?fs)" "enclosed (last ?fs)" "[] \<notin> set ?fs"
    using False rule_expr_factors(2) [OF assms] enclosed_facts hd_in_set [of ?fs] last_in_set [of ?fs] by auto
  then show ?thesis
    using join_ends [of ?fs "'' * ''"] False enclosed_facts [OF e(1)] enclosed_facts [OF e(2)]
    unfolding trim_def rule_expr_factors(1) [OF assms] by (intro trim_by_id) (simp add: is_ws_def)
qed (simp add: buildRequestRuleExpr_def)

lemma rules_read_back:
  assumes "list_all readable_group gs"
  shows "tryParseRequestRuleExpr (buildRequestRuleExpr gs) = Inr (Some gs)"
proof (cases "gs = []")
  case False
  have "splitTopLevelMultiply (buildRequestRuleExpr gs) = map buildRuleGroupFactor gs"
    unfolding splitTopLevelMultiply_def rule_expr_factors(1) [OF assms]
    by (rule product.split_parts) (rule rule_expr_factors(2) [OF assms])
  moreover have "buildRequestRuleExpr gs \<noteq> []"
    unfolding rule_expr_factors(1) [OF assms]
    using False rule_expr_factors(2) [OF assms] enclosed_facts by (intro join_not_Nil) auto
  ultimately show ?thesis
    using parse_groups_factors [OF assms] rule_expr_trim [OF assms] by (simp add: tryParseRequestRuleExpr_def)
qed (simp add: buildRequestRuleExpr_def tryParseRequestRuleExpr_def)


definition sample_rules :: "request_rule_group list" where
  "sample_rules =
     [\<lparr>rg_conditions = [TimeCondition \<lparr>tm_timeFunc = ''hour'', tm_timezone = ''UTC'', tm_mode = ''range'',
           tm_value = [], tm_rangeStart = ''22'', tm_rangeEnd = ''6''\<rparr>,
         ph_condition ''header'' ''x-tier'' ''contains'' ''fast''], rg_multiplier = ''1.5''\<rparr>,
      \<lparr>rg_conditions = [ph_condition ''param'' ''stream'' ''eq'' ''true''], rg_multiplier = ''2''\<rparr>]"

lemma sample_readable: "list_all readable_group sample_rules"
proof -
  have "is_numeric_literal ''22''" "is_numeric_literal ''6''" "is_numeric_literal ''2''" "is_numeric_literal ''1.5''"
    by (simp_all add: is_numeric_literal_def is_unsigned_literal_def take_digits_def is_digit_def is_exponent_def)
  moreover have "plain_name ''UTC''" "plain_name ''x-tier''" "plain_name ''stream''" "plain_text ''fast''" "plain_text ''true''"
    by (simp_all add: plain_name_def plain_text_def trim_def trim_by_def is_ws_def)
  ultimately show ?thesis
    by (simp add: sample_rules_def readable_group_def ph_condition_def TIME_FUNCS_def)
qed


section \<open>Whole expressions\<close>

lemma factors_sort:
  assumes "list_all readable_group gs"
  shows "sort_parts (map buildRuleGroupFactor gs) = Inr (map buildRuleGroupFactor gs, [])"
  using assms
proof (induction gs)
  case (Cons g gs)
  have "buildRequestRuleExpr [g] = buildRuleGroupFactor g"
    using rule_expr_factors(1) [of "[g]"] Cons.prems by simp
  then have "tryParseRequestRuleExpr (buildRuleGroupFactor g) = Inr (Some [g])"
    using rules_read_back [of "[g]"] Cons.prems by simp
  then show ?case using Cons by simp
qed simp

text \<open>A price expression that the parser cannot take for a rule and that keeps its parentheses to itself.\<close>

definition plain_base :: "string \<Rightarrow> bool" where
  "plain_base base \<longleftrightarrow> base \<noteq> [] \<and> trim base = base \<and> nested base \<and> \<not> hasFullOuterParens base \<and> \<not> ends_with '' : 1'' base"

lemma base_enclosed: "plain_base base \<Longrightarrow> enclosed (''('' @ base @ '')'')"
  by (auto simp: plain_base_def enclosed_def)

lemma ends_with_iff: "ends_with p s \<longleftrightarrow> (\<exists>t. s = t @ p)"
proof
  assume "ends_with p s"
  then have "s = take (length s - length p) s @ p" by (metis append_take_drop_id ends_with_def)
  then show "\<exists>t. s = t @ p" ..
qed (auto simp: ends_with_def)

lemma base_no_rule:
  assumes "plain_base base"
  shows "tryParseRequestRuleExpr (''('' @ base @ '')'') = Inr None"
proof -
  let ?b = "''('' @ base @ '')''"
  note e = base_enclosed [OF assms]
  have "\<not> ends_with '' : 1)'' ?b"
  proof
    assume "ends_with '' : 1)'' ?b"
    then obtain t where "CHR ''('' # base = t @ '' : 1''" by (auto simp: ends_with_iff)
    then have "ends_with '' : 1'' base" by (cases t) (auto simp: ends_with_iff)
    then show False using assms by (simp add: plain_base_def)
  qed
  then have "match_factor ?b = None" by (simp add: match_factor_def)
  moreover have "splitTopLevelMultiply ?b = [?b]"
    using product.split_parts [of "[?b]"] e by (simp add: splitTopLevelMultiply_def)
  ultimately show ?thesis
    using enclosed_facts [OF e] by (simp add: tryParseRequestRuleExpr_def tryParseRuleGroupFactor_def)
qed

lemma base_unwrap:
  assumes "plain_base base"
  shows "unwrapOuterParens (''('' @ base @ '')'') = base"
proof -
  let ?b = "''('' @ base @ '')''"
  note f = enclosed_facts [OF base_enclosed [OF assms]]
  have "ends_with '')'' ?b" using ends_with_append [of "'')''" "''('' @ base"] by simp
  then have "hasFullOuterParens ?b" using f by (simp add: hasFullOuterParens_def)
  moreover have "butlast (tl ?b) = base" "trim base = base" "\<not> hasFullOuterParens base"
    using assms by (simp_all add: plain_base_def)
  ultimately have "unwrap_parens ?b = base"
    by (simp only: unwrap_parens.simps [of ?b] unwrap_parens.simps [of base] if_True if_False)
  then show ?thesis using f by (simp add: unwrapOuterParens_def)
qed

text \<open>a combined expression is split into the parts it was made of. A price expression with balanced
  parentheses that does not end like a rule, combined with the text of at least one group, is split
  again into exactly that price expression and that text.\<close>

theorem split_combined:
  assumes "plain_base base" "gs \<noteq> []" "list_all readable_group gs"
  shows "splitBillingExprAndRequestRules (combineBillingExpr base (buildRequestRuleExpr gs)) =
    Inr (base, buildRequestRuleExpr gs)"
proof -
  let ?b = "''('' @ base @ '')''" and ?fs = "map buildRuleGroupFactor gs"
  have rules: "buildRequestRuleExpr gs = join '' * '' ?fs" by (rule rule_expr_factors(1) [OF assms(3)])
  have e: "enclosed f" if "f \<in> set (?b # ?fs)" for f
    using that base_enclosed [OF assms(1)] rule_expr_factors(2) [OF assms(3)] by auto
  have ne: "join '' * '' ?fs \<noteq> []" using e enclosed_facts assms(2) by (intro join_not_Nil) auto
  have c: "combineBillingExpr base (buildRequestRuleExpr gs) = join '' * '' (?b # ?fs)"
    using assms rule_expr_trim [OF assms(3)] rules ne
    by (simp add: combineBillingExpr_def plain_base_def Let_def join_Cons)
  have ends: "[] \<notin> set (?b # ?fs)" "enclosed (last (?b # ?fs))"
    using e enclosed_facts last_in_set [of "?b # ?fs"] by blast+
  have t: "trim (join '' * '' (?b # ?fs)) = join '' * '' (?b # ?fs)" "join '' * '' (?b # ?fs) \<noteq> []"
    using join_ends [OF _ ends(1), of "'' * ''"] enclosed_facts [OF ends(2)] join_not_Nil [OF _ ends(1), of "'' * ''"]
    unfolding trim_def by (auto intro!: trim_by_id simp: is_ws_def)
  have s: "splitTopLevelMultiply (join '' * '' (?b # ?fs)) = ?b # ?fs"
    unfolding splitTopLevelMultiply_def by (rule product.split_parts) (rule e)
  have "sort_parts (?b # ?fs) = Inr (?fs, [?b])"
    using factors_sort [OF assms(3)] base_no_rule [OF assms(1)] by simp
  then show ?thesis
    unfolding c splitBillingExprAndRequestRules_def Let_def t(1) s
    using t(2) assms(2) base_unwrap [OF assms(1)] rules by simp
qed

theorem split_combined_witness:
  "splitBillingExprAndRequestRules (combineBillingExpr
     (''tier('' @ [QUOTE] @ ''base'' @ [QUOTE] @ '', p * 2 + c * 8)'') (buildRequestRuleExpr sample_rules)) =
   Inr (''tier('' @ [QUOTE] @ ''base'' @ [QUOTE] @ '', p * 2 + c * 8)'', buildRequestRuleExpr sample_rules)"
proof (rule split_combined)
  let ?base = "''tier('' @ [QUOTE] @ ''base'' @ [QUOTE] @ '', p * 2 + c * 8)''"
  let ?args = "[QUOTE] @ ''base'' @ [QUOTE] @ '', p * 2 + c * 8''"
  have "nested ''tier''" "nested ?args" by (rule nested_plain, simp)+
  then have "nested (''tier'' @ ''('' @ ?args @ '')'')" by (metis nested_append nested_paren)
  then have "nested ?base" by simp
  moreover have "last ?base = CHR '')''" "hd ?base = CHR ''t''" by simp_all
  then have "trim ?base = ?base" unfolding trim_def by (intro trim_by_id) (simp add: is_ws_def)
  moreover have "\<not> ends_with '' : 1'' ?base"
    using \<open>last ?base = CHR '')''\<close> by (auto simp only: ends_with_iff last_appendR) (simp add: last_append)
  moreover have "\<not> starts_with ''('' ?base" by simp
  then have "\<not> hasFullOuterParens ?base" unfolding hasFullOuterParens_def by blast
  ultimately show "plain_base ?base" unfolding plain_base_def by blast
qed (use sample_readable in \<open>simp_all add: sample_rules_def\<close>)

section \<open>Guarded conditions are lost\<close>

lemma guard_text:
  assumes "plain_name p"
  shows "tidy (''param('' @ json_quote p @ '')'' @ '' != nil'')"
    "tryParseRequestCondition (''param('' @ json_quote p @ '')'' @ '' != nil'') =
      Inr (Some (ph_condition ''param'' p ''exists'' []))"
proof -
  let ?c = "\<lparr>ph_source = ''param'', ph_path = p, ph_mode = ''exists'', ph_value = []\<rparr>"
  have r: "readable (ParamHeaderCondition ?c)" using assms by simp
  have t: "ph_text ?c = ''param('' @ json_quote p @ '')'' @ '' != nil''" by (simp add: ph_text_def)
  show "tidy (''param('' @ json_quote p @ '')'' @ '' != nil'')" using ph_text_facts [OF r] unfolding t by simp
  show "tryParseRequestCondition (''param('' @ json_quote p @ '')'' @ '' != nil'') =
      Inr (Some (ph_condition ''param'' p ''exists'' []))"
    using parse_ph [OF r] unfolding t ph_condition_def .
qed

lemma guarded_compare:
  assumes "plain_name p" "number_ok v" "op \<in> {''>'', ''>='', ''<'', ''<=''}"
  shows "tidy (''param('' @ json_quote p @ '')'' @ '' '' @ op @ '' '' @ v) \<and>
    tryParseRequestCondition (''param('' @ json_quote p @ '')'' @ '' '' @ op @ '' '' @ v) = Inr None"
proof -
  let ?s = "'' '' @ op @ '' '' @ v"
  note h = param_text [OF assms(1) refl, where s = ?s]
  have "inert op" using assms(3) by (auto simp: inert_def)
  then have s: "inert ?s" using inert_number [OF assms(2)] by (simp add: inert_def)
  have q: "inert (json_quote p)" using assms(1) inert_quote by (simp add: plain_name_def)
  have "inert ''param''" by (simp add: inert_def)
  note call = call_facts [OF this q]
  have "tidy (''param('' @ json_quote p @ '')'' @ ?s)"
    using nested_append [OF call(1) inert_nested [OF s]] call(2) s number_last [OF assms(2)]
    by (auto simp: tidy_def inert_def is_ws_def)
  moreover have "?s \<noteq> '' != nil''" "eat '' != nil && '' ?s = None" "eat '' == '' ?s = None"
    using assms(3) by (auto simp: eat_def)
  then have "tryParseRequestCondition (''param('' @ json_quote p @ '')'' @ ?s) = Inr None"
    unfolding tryParseRequestCondition_def by (simp only: h) simp
  ultimately show ?thesis by simp
qed

lemma guarded_has:
  assumes "plain_name p" "plain_text v"
  shows "tidy (''has(param('' @ json_quote p @ ''), '' @ json_quote v @ '')'') \<and>
    tryParseRequestCondition (''has(param('' @ json_quote p @ ''), '' @ json_quote v @ '')'') = Inr None"
proof -
  let ?s = "''param('' @ json_quote p @ '')'' @ '', '' @ json_quote v @ '')''"
  note h = has_text [OF refl, where s = ?s]
  have m: "match_has ''header'' (''has('' @ ?s) = None" unfolding h(6) no_call by simp
  have q: "inert (json_quote p)" "inert ('', '' @ json_quote v)"
    using assms inert_quote [of p] inert_quote [of v] by (simp_all add: plain_name_def inert_def)
  have "inert ''param''" by (simp add: inert_def)
  note call = call_facts [OF this q(1)]
  have "nested ''has''" by (rule nested_plain) simp
  from nested_append [OF this nested_paren [OF nested_append [OF call(1) inert_nested [OF q(2)]]]] call(2) q(2)
  have "tidy (''has('' @ ?s)" by (auto simp: tidy_def inert_def is_ws_def)
  moreover have "tryParseRequestCondition (''has('' @ ?s) = Inr None"
    unfolding tryParseRequestCondition_def by (simp only: h(1-5) m) simp
  ultimately show ?thesis by simp
qed

text \<open>A factor whose second condition cannot be read.\<close>

lemma factor_refused:
  assumes "number_ok m" "tidy x" "tidy y" "tryParseRequestCondition x = Inr (Some c)" "tryParseRequestCondition y = Inr None"
    and f: "f = ''('' @ (x @ '' && '' @ y) @ '' ? '' @ m @ '' : 1)''"
  shows "tryParseRequestRuleExpr f = Inr None"
proof -
  have j: "x @ '' && '' @ y = join '' && '' [x, y]" by simp
  have "parse_conditions [x, y] = Inr None" using assms tidy_trim by simp
  moreover have "splitTopLevelAnd (join '' && '' [x, y]) = [x, y]"
    unfolding splitTopLevelAnd_def by (rule conjunction.split_parts) (use assms in auto)
  moreover have "match_factor f = Some (join '' && '' [x, y], m)"
    unfolding f j by (rule match_factor_print [OF assms(1)]) simp
  ultimately have "tryParseRuleGroupFactor f = Inr None" by (simp add: tryParseRuleGroupFactor_def)
  moreover have "enclosed f"
  proof -
    have "nested '' && ''" "nested '' ? ''" "nested '' : 1''" by (rule nested_plain, simp)+
    then have "nested ((x @ '' && '' @ y) @ '' ? '' @ m @ '' : 1'')"
      using assms(2,3) inert_nested [OF inert_number [OF assms(1)]] by (intro nested_append) (simp_all add: tidy_def)
    then show ?thesis unfolding enclosed_def f
      by (intro exI [of _ "(x @ '' && '' @ y) @ '' ? '' @ m @ '' : 1''"]) simp
  qed
  ultimately show ?thesis
    using product.split_parts [of "[f]"] enclosed_facts [of f]
    by (simp add: tryParseRequestRuleExpr_def splitTopLevelMultiply_def)
qed

text \<open>C40: guarded conditions on parameters are lost. A condition that compares a parameter or searches in it is
  printed as a conjunction with a test that the parameter is there; the parser splits every
  conjunction first and does not know the second half alone. So the text that the editor prints for
  such a group is never read back, although the parser has branches for exactly that text.\<close>

theorem guarded_rules_lost:
  assumes "plain_name p" "is_numeric_literal m"
    and "mode = ''contains'' \<and> plain_text v \<or> mode \<in> {''gt'', ''gte'', ''lt'', ''lte''} \<and> is_numeric_literal v"
  shows "tryParseRequestRuleExpr (buildRequestRuleExpr
      [\<lparr>rg_conditions = [ph_condition ''param'' p mode v], rg_multiplier = m\<rparr>]) = Inr None"
proof -
  let ?g = "\<lparr>rg_conditions = [ph_condition ''param'' p mode v], rg_multiplier = m\<rparr>"
  let ?x = "''param('' @ json_quote p @ '')'' @ '' != nil''"
  note x = guard_text [OF assms(1)]
  have typed: "well_typed (ph_condition ''param'' p mode v)"
    using assms(3) by (auto simp: ph_condition_def options_simps)
  have p: "p \<noteq> []" "trim p = p" using assms(1) by (simp_all add: plain_name_def plain_text_def)
  have "normalizeParamHeaderCondition ''param'' (partial_of (ph_condition ''param'' p mode v)) =
      \<lparr>ph_source = ''param'', ph_path = p, ph_mode = mode, ph_value = v\<rparr>"
    using normalize_well_typed_id [OF typed] by (simp add: ph_condition_def normalizeCondition_def)
  then have b: "buildRequestConditionExpr (ph_condition ''param'' p mode v) =
      buildParamHeaderExpr \<lparr>ph_source = ''param'', ph_path = p, ph_mode = mode, ph_value = v\<rparr>"
    by (simp add: ph_condition_def)
  obtain y where y: "buildRequestConditionExpr (ph_condition ''param'' p mode v) = ?x @ '' && '' @ y"
    "tidy y" "tryParseRequestCondition y = Inr None"
    using assms(3)
  proof (elim disjE conjE)
    assume c: "mode = ''contains''" "plain_text v"
    have "buildRequestConditionExpr (ph_condition ''param'' p mode v) =
        ?x @ '' && '' @ ''has(param('' @ json_quote p @ ''), '' @ json_quote v @ '')''"
      unfolding b unfolding c(1) using p c(2) by (simp add: buildParamHeaderExpr_def buildExprLiteral_def plain_text_def Let_def)
    with guarded_has [OF assms(1) c(2)] show ?thesis using that by blast
  next
    assume c: "mode \<in> {''gt'', ''gte'', ''lt'', ''lte''}" "is_numeric_literal v"
    note n = numeric_ok [OF c(2)]
    have op: "compare_op mode \<in> {''>'', ''>='', ''<'', ''<=''}" by (simp add: compare_op_def)
    have "buildRequestConditionExpr (ph_condition ''param'' p mode v) =
        ?x @ '' && '' @ ''param('' @ json_quote p @ '')'' @ '' '' @ compare_op mode @ '' '' @ v"
      unfolding b using c p number_trim [OF n]
      by (elim insertE emptyE) (simp_all add: buildParamHeaderExpr_def Let_def)
    with guarded_compare [OF assms(1) n op] show ?thesis using that by blast
  qed
  have m: "trim m = m" "number_ok m" using numeric_ok [OF assms(2)] number_trim by simp_all
  have "buildRequestRuleExpr [?g] = ''('' @ (?x @ '' && '' @ y) @ '' ? '' @ m @ '' : 1)''"
    using y(1) m assms(2) by (simp add: buildRequestRuleExpr_def buildRuleGroupFactor_def combine_conditions_def Let_def)
  from factor_refused [OF m(2) x(1) y(2) x(2) y(3) this] show ?thesis .
qed

theorem guarded_rules_lost_witness:
  "tryParseRequestRuleExpr (buildRequestRuleExpr
      [\<lparr>rg_conditions = [ph_condition ''param'' ''max_tokens'' ''gt'' ''22''], rg_multiplier = ''2''\<rparr>]) = Inr None"
  by (rule guarded_rules_lost)
    (simp_all add: plain_name_def plain_text_def trim_def trim_by_def is_ws_def is_numeric_literal_def
      is_unsigned_literal_def take_digits_def is_digit_def is_exponent_def)

end
