(* ===== verification/Quota_Store.thy ===== *)
theory Quota_Store
  imports Complex_Main Effects
begin

text \<open>
  The tables that billing works on and the functions of \<^verbatim>\<open>model/user.go\<close>, \<^verbatim>\<open>model/token.go\<close>,
  \<^verbatim>\<open>model/channel.go\<close>, \<^verbatim>\<open>model/profit.go\<close> and \<^verbatim>\<open>model/utils.go\<close> that move quota in them.

  A table is a list of rows. A statement may fail: the field \<open>faults\<close> of the store lists what happens to the
  next statements, \<open>True\<close> standing for an error of the database, and a statement beyond its end succeeds. A
  transaction that fails leaves every table as it was. The Redis cache is switched off, so every read goes to the
  database; one clock serves the database and the program. Quotas are 64 bit integers in the code and are far from
  their bounds, so they are unbounded here.
\<close>

section \<open>Rows and the store\<close>

record user_row =
  user_id :: int
  user_quota :: int
  user_used_quota :: int
  user_request_count :: int
  user_role :: int

text \<open>The time of the last access of a token, a column for display, is left out.\<close>

record token_row =
  token_id :: int
  token_key :: string
  remain_quota :: int
  token_used_quota :: int

record channel_row =
  channel_id :: int
  channel_used_quota :: int

text \<open>A lot of the profit accounting; its money columns are snapshots of exchange rates and are left out.\<close>

record wallet_lot =
  lot_user_id :: int
  lot_source_type :: string
  lot_source_note :: string
  lot_quota_total :: int
  lot_quota_remaining :: int

record user_subscription =
  sub_id :: int
  sub_user_id :: int
  amount_total :: int
  amount_used :: int
  amount_five_hour_limit :: int
  amount_daily_limit :: int
  amount_weekly_limit :: int
  start_time :: int
  end_time :: int
  sub_status :: string
  model_limits_enabled :: bool
  model_limits :: string

record usage_ledger =
  led_user_id :: int
  led_sub_id :: int
  led_request_id :: string
  led_delta :: int
  led_action :: string
  led_created_at :: int

record pre_consume_record =
  rec_request_id :: string
  rec_user_id :: int
  rec_sub_id :: int
  rec_pre_consumed :: int
  rec_status :: string
  rec_updated_at :: int

datatype batch_type =
  BatchUpdateTypeUserQuota | BatchUpdateTypeTokenQuota | BatchUpdateTypeUsedQuota
| BatchUpdateTypeChannelUsedQuota | BatchUpdateTypeRequestCount

record store =
  user_rows :: "user_row list"
  token_rows :: "token_row list"
  channel_rows :: "channel_row list"
  lots :: "wallet_lot list"
  subs :: "user_subscription list"
  usage :: "usage_ledger list"
  records :: "pre_consume_record list"
  batch_stores :: "batch_type \<Rightarrow> (int \<times> int) list"
  batch_enabled :: bool
  quota_per_unit :: rat
  clock :: int
  faults :: "bool list"

section \<open>Statements and transactions\<close>

definition db_error :: string where
  "db_error = ''database error''"

definition not_found :: string where
  "not_found = ''record not found''"

definition negative_quota :: string where
  "negative_quota = ''quota must not be negative''"

definition stmt :: "(store, string, 'a) effect \<Rightarrow> (store, string, 'a) effect" where
  "stmt m st =
     (case faults st of
        [] \<Rightarrow> m st
      | fault # rest \<Rightarrow> (if fault then (Inl db_error, st\<lparr>faults := rest\<rparr>) else m (st\<lparr>faults := rest\<rparr>)))"

definition transaction :: "(store, string, 'a) effect \<Rightarrow> (store, string, 'a) effect" where
  "transaction m st =
     (case m st of
        (Inl e, st') \<Rightarrow> (Inl e, st\<lparr>faults := faults st'\<rparr>)
      | (Inr x, st') \<Rightarrow>
          (case stmt (ret ()) st' of
             (Inl e, st'') \<Rightarrow> (Inl e, st\<lparr>faults := faults st''\<rparr>)
           | (Inr _, st'') \<Rightarrow> (Inr x, st'')))"

definition change :: "(store \<Rightarrow> store) \<Rightarrow> (store, string, unit) effect" where
  "change f = stmt (\<lambda>st. (Inr (), f st))"

definition query :: "(store \<Rightarrow> 'a) \<Rightarrow> (store, string, 'a) effect" where
  "query f = stmt (\<lambda>st. (Inr (f st), st))"

definition query_first :: "(store \<Rightarrow> 'a option) \<Rightarrow> (store, string, 'a) effect" where
  "query_first f = stmt (\<lambda>st. (case f st of None \<Rightarrow> (Inl not_found, st) | Some x \<Rightarrow> (Inr x, st)))"

text \<open>The rows of a table that have a given key, and an update of them.\<close>

definition row :: "('r \<Rightarrow> 'k) \<Rightarrow> 'k \<Rightarrow> 'r list \<Rightarrow> 'r option" where
  "row key k rows = List.find (\<lambda>r. key r = k) rows"

definition update_where :: "('r \<Rightarrow> 'k) \<Rightarrow> 'k \<Rightarrow> ('r \<Rightarrow> 'r) \<Rightarrow> 'r list \<Rightarrow> 'r list" where
  "update_where key k f rows = map (\<lambda>r. if key r = k then f r else r) rows"

section \<open>The batch updater\<close>

fun add_value :: "int \<Rightarrow> int \<Rightarrow> (int \<times> int) list \<Rightarrow> (int \<times> int) list" where
  "add_value k v [] = [(k, v)]"
| "add_value k v ((k', v') # entries) = (if k' = k then (k', v' + v) # entries else (k', v') # add_value k v entries)"

definition addNewRecord :: "batch_type \<Rightarrow> int \<Rightarrow> int \<Rightarrow> store \<Rightarrow> store" where
  "addNewRecord t k v st = st\<lparr>batch_stores := (batch_stores st)(t := add_value k v (batch_stores st t))\<rparr>"

definition increaseUserQuota :: "int \<Rightarrow> int \<Rightarrow> (store, string, unit) effect" where
  "increaseUserQuota uid quota =
     change (\<lambda>st. st\<lparr>user_rows := update_where user_id uid (\<lambda>r. r\<lparr>user_quota := user_quota r + quota\<rparr>) (user_rows st)\<rparr>)"

definition decreaseUserQuota :: "int \<Rightarrow> int \<Rightarrow> (store, string, unit) effect" where
  "decreaseUserQuota uid quota =
     change (\<lambda>st. st\<lparr>user_rows := update_where user_id uid (\<lambda>r. r\<lparr>user_quota := user_quota r - quota\<rparr>) (user_rows st)\<rparr>)"

definition increaseTokenQuota :: "int \<Rightarrow> int \<Rightarrow> (store, string, unit) effect" where
  "increaseTokenQuota tid quota =
     change (\<lambda>st. st\<lparr>token_rows := update_where token_id tid
       (\<lambda>r. r\<lparr>remain_quota := remain_quota r + quota, token_used_quota := token_used_quota r - quota\<rparr>) (token_rows st)\<rparr>)"

definition decreaseTokenQuota :: "int \<Rightarrow> int \<Rightarrow> (store, string, unit) effect" where
  "decreaseTokenQuota tid quota =
     change (\<lambda>st. st\<lparr>token_rows := update_where token_id tid
       (\<lambda>r. r\<lparr>remain_quota := remain_quota r - quota, token_used_quota := token_used_quota r + quota\<rparr>) (token_rows st)\<rparr>)"

definition updateUserUsedQuota :: "int \<Rightarrow> int \<Rightarrow> (store, string, unit) effect" where
  "updateUserUsedQuota uid quota =
     change (\<lambda>st. st\<lparr>user_rows := update_where user_id uid
       (\<lambda>r. r\<lparr>user_used_quota := user_used_quota r + quota\<rparr>) (user_rows st)\<rparr>)"

definition updateUserRequestCount :: "int \<Rightarrow> int \<Rightarrow> (store, string, unit) effect" where
  "updateUserRequestCount uid count =
     change (\<lambda>st. st\<lparr>user_rows := update_where user_id uid
       (\<lambda>r. r\<lparr>user_request_count := user_request_count r + count\<rparr>) (user_rows st)\<rparr>)"

definition updateUserUsedQuotaAndRequestCount :: "int \<Rightarrow> int \<Rightarrow> int \<Rightarrow> (store, string, unit) effect" where
  "updateUserUsedQuotaAndRequestCount uid quota count =
     change (\<lambda>st. st\<lparr>user_rows := update_where user_id uid
       (\<lambda>r. r\<lparr>user_used_quota := user_used_quota r + quota,
              user_request_count := user_request_count r + count\<rparr>) (user_rows st)\<rparr>)"

definition updateChannelUsedQuota :: "int \<Rightarrow> int \<Rightarrow> (store, string, unit) effect" where
  "updateChannelUsedQuota cid quota =
     change (\<lambda>st. st\<lparr>channel_rows := update_where channel_id cid
       (\<lambda>r. r\<lparr>channel_used_quota := channel_used_quota r + quota\<rparr>) (channel_rows st)\<rparr>)"

text \<open>The update that one entry of a batch stands for; its error is only logged.\<close>

fun flush_update :: "batch_type \<Rightarrow> int \<Rightarrow> int \<Rightarrow> (store, string, unit) effect" where
  "flush_update BatchUpdateTypeUserQuota k v = increaseUserQuota k v"
| "flush_update BatchUpdateTypeTokenQuota k v = increaseTokenQuota k v"
| "flush_update BatchUpdateTypeUsedQuota k v = updateUserUsedQuota k v"
| "flush_update BatchUpdateTypeRequestCount k v = updateUserRequestCount k v"
| "flush_update BatchUpdateTypeChannelUsedQuota k v = updateChannelUsedQuota k v"

definition flush_entry :: "batch_type \<Rightarrow> int \<times> int \<Rightarrow> store \<Rightarrow> store" where
  "flush_entry t entry st = snd (flush_update t (fst entry) (snd entry) st)"

definition flush_type :: "batch_type \<Rightarrow> store \<Rightarrow> store" where
  "flush_type t st = fold (flush_entry t) (batch_stores st t) (st\<lparr>batch_stores := (batch_stores st)(t := [])\<rparr>)"

definition batch_types :: "batch_type list" where
  "batch_types =
     [BatchUpdateTypeUserQuota, BatchUpdateTypeTokenQuota, BatchUpdateTypeUsedQuota,
      BatchUpdateTypeChannelUsedQuota, BatchUpdateTypeRequestCount]"

definition batchUpdate :: "store \<Rightarrow> store" where
  "batchUpdate st = (if list_all (\<lambda>t. batch_stores st t = []) batch_types then st else fold flush_type batch_types st)"

section \<open>Quota of users, tokens and channels\<close>

definition RoleAdminUser :: int where
  "RoleAdminUser = 10"

definition ProfitLotSourceGift :: string where
  "ProfitLotSourceGift = ''gift''"

definition is_space :: "char \<Rightarrow> bool" where
  "is_space c \<longleftrightarrow> of_char c \<in> {9 :: nat, 10, 11, 12, 13, 32, 133, 160}"

definition TrimSpace :: "string \<Rightarrow> string" where
  "TrimSpace s = trim_by is_space s"

definition isProfitExemptUserTx :: "int \<Rightarrow> (store, string, bool) effect" where
  "isProfitExemptUserTx uid =
     (if uid \<le> 0 then ret False
      else catch
        (query (\<lambda>st. case row user_id uid (user_rows st) of None \<Rightarrow> False | Some r \<Rightarrow> user_role r \<ge> RoleAdminUser))
        (\<lambda>_. ret False))"

definition CreateWalletLotFromQuotaGrantTx :: "int \<Rightarrow> int \<Rightarrow> string \<Rightarrow> string \<Rightarrow> (store, string, unit) effect" where
  "CreateWalletLotFromQuotaGrantTx uid quota sourceType sourceNote =
     (if uid \<le> 0 \<or> quota \<le> 0 then ret ()
      else and_then (isProfitExemptUserTx uid) (\<lambda>exempt.
        if exempt then ret ()
        else change (\<lambda>st. st\<lparr>lots := lots st @
          [\<lparr>lot_user_id = uid,
            lot_source_type = (if TrimSpace sourceType = [] then ProfitLotSourceGift else sourceType),
            lot_source_note = TrimSpace sourceNote, lot_quota_total = quota, lot_quota_remaining = quota\<rparr>]\<rparr>)))"

text \<open>After the guards the quota is positive, so the last lines of the code, which would batch it, are not reached.\<close>

definition IncreaseUserQuotaWithSource :: "int \<Rightarrow> int \<Rightarrow> string \<Rightarrow> string \<Rightarrow> (store, string, unit) effect" where
  "IncreaseUserQuotaWithSource uid quota sourceType sourceNote =
     (if quota < 0 then throw negative_quota
      else if quota = 0 then ret ()
      else transaction (and_then (increaseUserQuota uid quota)
             (\<lambda>_. CreateWalletLotFromQuotaGrantTx uid quota sourceType sourceNote)))"

definition IncreaseUserQuota :: "int \<Rightarrow> int \<Rightarrow> (store, string, unit) effect" where
  "IncreaseUserQuota uid quota = IncreaseUserQuotaWithSource uid quota ProfitLotSourceGift ''direct_quota_credit''"

definition DecreaseUserQuota :: "int \<Rightarrow> int \<Rightarrow> bool \<Rightarrow> (store, string, unit) effect" where
  "DecreaseUserQuota uid quota db st =
     (if quota < 0 then (Inl negative_quota, st)
      else if \<not> db \<and> batch_enabled st then (Inr (), addNewRecord BatchUpdateTypeUserQuota uid (- quota) st)
      else decreaseUserQuota uid quota st)"

definition IncreaseTokenQuota :: "int \<Rightarrow> int \<Rightarrow> (store, string, unit) effect" where
  "IncreaseTokenQuota tid quota st =
     (if quota < 0 then (Inl negative_quota, st)
      else if batch_enabled st then (Inr (), addNewRecord BatchUpdateTypeTokenQuota tid quota st)
      else increaseTokenQuota tid quota st)"

definition DecreaseTokenQuota :: "int \<Rightarrow> int \<Rightarrow> (store, string, unit) effect" where
  "DecreaseTokenQuota tid quota st =
     (if quota < 0 then (Inl negative_quota, st)
      else if batch_enabled st then (Inr (), addNewRecord BatchUpdateTypeTokenQuota tid (- quota) st)
      else decreaseTokenQuota tid quota st)"

definition UpdateUserUsedQuotaAndRequestCount :: "int \<Rightarrow> int \<Rightarrow> store \<Rightarrow> store" where
  "UpdateUserUsedQuotaAndRequestCount uid quota st =
     (if batch_enabled st
      then addNewRecord BatchUpdateTypeRequestCount uid 1 (addNewRecord BatchUpdateTypeUsedQuota uid quota st)
      else snd (updateUserUsedQuotaAndRequestCount uid quota 1 st))"

definition UpdateChannelUsedQuota :: "int \<Rightarrow> int \<Rightarrow> store \<Rightarrow> store" where
  "UpdateChannelUsedQuota cid quota st =
     (if batch_enabled st then addNewRecord BatchUpdateTypeChannelUsedQuota cid quota st
      else snd (updateChannelUsedQuota cid quota st))"

definition DeltaUpdateUserQuota :: "int \<Rightarrow> int \<Rightarrow> (store, string, unit) effect" where
  "DeltaUpdateUserQuota uid delta =
     (if delta = 0 then ret ()
      else if delta > 0 then IncreaseUserQuota uid delta
      else DecreaseUserQuota uid (- delta) False)"

text \<open>A user that does not exist has no quota; a key that does not exist is an error.\<close>

definition GetUserQuota :: "int \<Rightarrow> (store, string, int) effect" where
  "GetUserQuota uid = query (\<lambda>st. case row user_id uid (user_rows st) of None \<Rightarrow> 0 | Some r \<Rightarrow> user_quota r)"

definition GetTokenByKey :: "string \<Rightarrow> (store, string, token_row) effect" where
  "GetTokenByKey key = query_first (\<lambda>st. row token_key key (token_rows st))"

definition IsAdmin :: "int \<Rightarrow> store \<Rightarrow> bool \<times> store" where
  "IsAdmin uid st =
     (if uid = 0 then (False, st)
      else (case query (\<lambda>st. case row user_id uid (user_rows st) of None \<Rightarrow> 0 | Some r \<Rightarrow> user_role r) st of
              (Inl _, st') \<Rightarrow> (False, st')
            | (Inr role, st') \<Rightarrow> (role \<ge> RoleAdminUser, st')))"

definition GetTrustQuota :: "store \<Rightarrow> int" where
  "GetTrustQuota st = \<lfloor>10 * quota_per_unit st\<rfloor>"

section \<open>Tables\<close>

lemma row_update_where [simp]:
  assumes "\<And>r. key (f r) = key r"
  shows "row key k (update_where key k' f rows) = (if k = k' then map_option f (row key k rows) else row key k rows)"
  using assms by (induction rows) (auto simp: row_def update_where_def)

lemma row_update_const [simp]:
  assumes "key v = k"
  shows "row key k' (update_where key k (\<lambda>_. v) rows) =
    (if k' = k then map_option (\<lambda>_. v) (row key k' rows) else row key k' rows)"
  using assms by (induction rows) (auto simp: row_def update_where_def)

lemma set_update_const: "x \<in> set (update_where key k (\<lambda>_. v) rows) \<Longrightarrow> x = v \<or> x \<in> set rows"
  by (auto simp: update_where_def split: if_splits)

lemma map_update_where [simp]:
  assumes "\<And>r. g (f r) = g r"
  shows "map g (update_where key k f rows) = map g rows"
  using assms by (simp add: update_where_def)

lemma row_map:
  assumes "\<And>r. key (f r) = key r"
  shows "row key k (map f rows) = map_option f (row key k rows)"
  using assms by (induction rows) (auto simp: row_def)

lemma row_None_iff: "row key k rows = None \<longleftrightarrow> k \<notin> key ` set rows"
  by (auto simp: row_def find_None_iff)

lemma row_Some: "row key k rows = Some r \<Longrightarrow> r \<in> set rows \<and> key r = k"
  by (auto simp: row_def find_Some_iff)

section \<open>Statements\<close>

text \<open>A store without what is still to fail. Two stores that agree in this have the same tables.\<close>

definition bare :: "store \<Rightarrow> store" where
  "bare st = st\<lparr>faults := []\<rparr>"

definition calm :: "store \<Rightarrow> store \<Rightarrow> bool" where
  "calm st st' \<longleftrightarrow> (faults st = [] \<longrightarrow> faults st' = [])"

lemma bare_faults [simp]: "bare (st\<lparr>faults := fs\<rparr>) = bare st"
  by (simp add: bare_def)

lemma bare_fields [simp]:
  "user_rows (bare st) = user_rows st" "token_rows (bare st) = token_rows st" "channel_rows (bare st) = channel_rows st"
  "lots (bare st) = lots st" "subs (bare st) = subs st" "usage (bare st) = usage st" "records (bare st) = records st"
  "batch_stores (bare st) = batch_stores st" "batch_enabled (bare st) = batch_enabled st"
  "quota_per_unit (bare st) = quota_per_unit st" "clock (bare st) = clock st" "faults (bare st) = []"
  by (simp_all add: bare_def)

lemma bareD:
  assumes "bare st = bare st'"
  shows "user_rows st = user_rows st'" "token_rows st = token_rows st'" "channel_rows st = channel_rows st'"
    "lots st = lots st'" "subs st = subs st'" "usage st = usage st'" "records st = records st'"
    "batch_stores st = batch_stores st'" "batch_enabled st = batch_enabled st'"
    "quota_per_unit st = quota_per_unit st'" "clock st = clock st'"
  using assms by (metis bare_fields)+

lemma calm_refl [simp]: "calm st st"
  by (simp add: calm_def)

lemma calm_trans [trans]: "calm st st' \<Longrightarrow> calm st' st'' \<Longrightarrow> calm st st''"
  by (simp add: calm_def)

lemma stmt_cases:
  assumes "stmt m st = (r, st')"
  obtains (fault) "r = Inl db_error" "bare st' = bare st" "faults st \<noteq> []"
  | (run) st1 where "m st1 = (r, st')" "bare st1 = bare st" "calm st st1"
proof (cases "faults st")
  case Nil
  with assms run [of st] show ?thesis by (simp add: stmt_def)
next
  case (Cons fault rest)
  with assms fault run [of "st\<lparr>faults := rest\<rparr>"] show ?thesis
    by (cases fault) (auto simp: stmt_def calm_def)
qed

lemma change_result:
  assumes "change f st = (r, st')" and "\<And>st fs. f (st\<lparr>faults := fs\<rparr>) = (f st)\<lparr>faults := fs\<rparr>"
  obtains (fault) "r = Inl db_error" "bare st' = bare st" "faults st \<noteq> []"
  | (run) "r = Inr ()" "bare st' = bare (f st)" "calm st st'"
proof -
  have fb: "bare (f s1) = bare (f s2)" if "bare s1 = bare s2" for s1 s2
    using that assms(2) by (metis bare_def bare_faults)
  have ff: "faults (f s) = faults s" for s
  proof -
    have "f (s\<lparr>faults := faults s\<rparr>) = (f s)\<lparr>faults := faults s\<rparr>" by (rule assms(2))
    moreover have "s\<lparr>faults := faults s\<rparr> = s" by simp
    ultimately have "faults (f s) = faults ((f s)\<lparr>faults := faults s\<rparr>)" by (simp only:)
    also have "\<dots> = faults s" by simp
    finally show ?thesis .
  qed
  from assms(1) [unfolded change_def] show ?thesis
  proof (cases rule: stmt_cases)
    case fault
    then show ?thesis by (rule that(1))
  next
    case (run st1)
    then have "r = Inr ()" "st' = f st1" by auto
    with run fb [of st1 st] ff [of st1] show ?thesis by (intro that(2)) (simp_all add: calm_def)
  qed
qed

lemma query_result:
  assumes "query f st = (r, st')" and "\<And>st fs. f (st\<lparr>faults := fs\<rparr>) = f st"
  obtains (fault) "r = Inl db_error" "bare st' = bare st" "faults st \<noteq> []"
  | (run) "r = Inr (f st)" "bare st' = bare st" "calm st st'"
proof -
  have fb: "f s1 = f s2" if "bare s1 = bare s2" for s1 s2 using that assms(2) by (metis bare_def)
  from assms(1) [unfolded query_def] show ?thesis
  proof (cases rule: stmt_cases)
    case fault
    then show ?thesis by (rule that(1))
  next
    case (run st1)
    then have "r = Inr (f st1)" "st' = st1" by auto
    with run fb [of st1 st] show ?thesis by (intro that(2)) simp_all
  qed
qed

lemma query_first_result:
  assumes "query_first f st = (r, st')" and "\<And>st fs. f (st\<lparr>faults := fs\<rparr>) = f st"
  obtains (fault) "r = Inl db_error" "bare st' = bare st" "faults st \<noteq> []"
  | (missing) "f st = None" "r = Inl not_found" "bare st' = bare st" "calm st st'"
  | (found) x where "f st = Some x" "r = Inr x" "bare st' = bare st" "calm st st'"
proof -
  have fb: "f s1 = f s2" if "bare s1 = bare s2" for s1 s2 using that assms(2) by (metis bare_def)
  from assms(1) [unfolded query_first_def] show ?thesis
  proof (cases rule: stmt_cases)
    case fault
    then show ?thesis by (rule that(1))
  next
    case (run st1)
    with fb [of st1 st] that(2,3) show ?thesis by (cases "f st") auto
  qed
qed

lemmas change_cases = change_result [consumes 1, case_names plain fault run]
  and query_cases = query_result [consumes 1, case_names plain fault run]
  and query_first_cases = query_first_result [consumes 1, case_names plain fault missing found]

lemma transaction_cases:
  assumes "transaction m st = (r, st')"
  obtains (fault) e where "r = Inl e" "bare st' = bare st"
      "calm st (snd (m st)) \<Longrightarrow> calm st st'" "faults st = [] \<Longrightarrow> calm st (snd (m st)) \<Longrightarrow> fst (m st) = Inl e"
  | (commit) x st1 where "m st = (Inr x, st1)" "r = Inr x" "bare st' = bare st1"
      "calm st st1 \<Longrightarrow> calm st st'"
proof (cases "m st")
  case (Pair q st1)
  show ?thesis
  proof (cases q)
    case (Inl e)
    with Pair assms have "r = Inl e" "st' = st\<lparr>faults := faults st1\<rparr>" by (simp_all add: transaction_def)
    with Pair Inl show ?thesis by (intro that(1) [of e]) (simp_all add: calm_def)
  next
    case (Inr x)
    obtain c st2 where c: "stmt (ret ()) st1 = (c, st2)" by fastforce
    then show ?thesis
    proof (cases rule: stmt_cases)
      case fault
      with c Pair Inr assms have "r = Inl db_error" "st' = st\<lparr>faults := faults st2\<rparr>"
        by (simp_all add: transaction_def)
      with fault Pair Inr show ?thesis by (intro that(1) [of db_error]) (auto simp: calm_def)
    next
      case (run st3)
      then have "c = Inr ()" "st2 = st3" by (auto simp: ret_def)
      with c Pair Inr assms have "r = Inr x" "st' = st3" by (simp_all add: transaction_def)
      with run Pair Inr show ?thesis by (intro that(2) [of x st1]) (auto simp: calm_def)
    qed
  qed
qed

lemma stmt_reliable [simp]: "faults st = [] \<Longrightarrow> stmt m st = m st"
  by (simp add: stmt_def)

lemma change_reliable [simp]: "faults st = [] \<Longrightarrow> change f st = (Inr (), f st)"
  by (simp add: change_def)

lemma query_reliable [simp]: "faults st = [] \<Longrightarrow> query f st = (Inr (f st), st)"
  by (simp add: query_def)

lemma query_first_reliable [simp]:
  "faults st = [] \<Longrightarrow> query_first f st = (case f st of None \<Rightarrow> (Inl not_found, st) | Some x \<Rightarrow> (Inr x, st))"
  by (simp add: query_first_def)

section \<open>Batched updates are direct updates\<close>

definition total_of :: "int \<Rightarrow> (int \<times> int) list \<Rightarrow> int" where
  "total_of k entries = sum_list (map snd (filter (\<lambda>e. fst e = k) entries))"

definition pending :: "batch_type \<Rightarrow> int \<Rightarrow> store \<Rightarrow> int" where
  "pending t k st = total_of k (batch_stores st t)"

lemma total_of_simps [simp]:
  "total_of k [] = 0" "total_of k (e # entries) = (if fst e = k then snd e else 0) + total_of k entries"
  by (simp_all add: total_of_def)

lemma total_of_add_value [simp]: "total_of k (add_value k' v entries) = total_of k entries + (if k = k' then v else 0)"
  by (induction k' v entries rule: add_value.induct) auto

text \<open>The tables with everything that is still to be flushed.\<close>

definition settled_user :: "store \<Rightarrow> user_row \<Rightarrow> user_row" where
  "settled_user st r =
     r\<lparr>user_quota := user_quota r + pending BatchUpdateTypeUserQuota (user_id r) st,
       user_used_quota := user_used_quota r + pending BatchUpdateTypeUsedQuota (user_id r) st,
       user_request_count := user_request_count r + pending BatchUpdateTypeRequestCount (user_id r) st\<rparr>"

definition settled_token :: "store \<Rightarrow> token_row \<Rightarrow> token_row" where
  "settled_token st r =
     r\<lparr>remain_quota := remain_quota r + pending BatchUpdateTypeTokenQuota (token_id r) st,
       token_used_quota := token_used_quota r - pending BatchUpdateTypeTokenQuota (token_id r) st\<rparr>"

definition settled_channel :: "store \<Rightarrow> channel_row \<Rightarrow> channel_row" where
  "settled_channel st r =
     r\<lparr>channel_used_quota := channel_used_quota r + pending BatchUpdateTypeChannelUsedQuota (channel_id r) st\<rparr>"

definition direct :: "store \<Rightarrow> store" where
  "direct st =
     st\<lparr>user_rows := map (settled_user st) (user_rows st), token_rows := map (settled_token st) (token_rows st),
        channel_rows := map (settled_channel st) (channel_rows st), batch_stores := (\<lambda>_. []), batch_enabled := False\<rparr>"

lemma flush_users:
  assumes "faults st = []"
  shows "fold (flush_entry BatchUpdateTypeUserQuota) entries st =
    st\<lparr>user_rows := map (\<lambda>r. r\<lparr>user_quota := user_quota r + total_of (user_id r) entries\<rparr>) (user_rows st)\<rparr>"
  using assms
  by (induction entries arbitrary: st)
     (auto simp: flush_entry_def increaseUserQuota_def update_where_def intro!: arg_cong [where f = "\<lambda>x. _\<lparr>user_rows := x\<rparr>"])

lemma flush_tokens:
  assumes "faults st = []"
  shows "fold (flush_entry BatchUpdateTypeTokenQuota) entries st =
    st\<lparr>token_rows := map (\<lambda>r. r\<lparr>remain_quota := remain_quota r + total_of (token_id r) entries,
        token_used_quota := token_used_quota r - total_of (token_id r) entries\<rparr>) (token_rows st)\<rparr>"
  using assms
  by (induction entries arbitrary: st)
     (auto simp: flush_entry_def increaseTokenQuota_def update_where_def intro!: arg_cong [where f = "\<lambda>x. _\<lparr>token_rows := x\<rparr>"])

lemma flush_used:
  assumes "faults st = []"
  shows "fold (flush_entry BatchUpdateTypeUsedQuota) entries st =
    st\<lparr>user_rows := map (\<lambda>r. r\<lparr>user_used_quota := user_used_quota r + total_of (user_id r) entries\<rparr>) (user_rows st)\<rparr>"
  using assms
  by (induction entries arbitrary: st)
     (auto simp: flush_entry_def updateUserUsedQuota_def update_where_def intro!: arg_cong [where f = "\<lambda>x. _\<lparr>user_rows := x\<rparr>"])

lemma flush_counts:
  assumes "faults st = []"
  shows "fold (flush_entry BatchUpdateTypeRequestCount) entries st =
    st\<lparr>user_rows := map (\<lambda>r. r\<lparr>user_request_count := user_request_count r + total_of (user_id r) entries\<rparr>) (user_rows st)\<rparr>"
  using assms
  by (induction entries arbitrary: st)
     (auto simp: flush_entry_def updateUserRequestCount_def update_where_def intro!: arg_cong [where f = "\<lambda>x. _\<lparr>user_rows := x\<rparr>"])

lemma flush_channels:
  assumes "faults st = []"
  shows "fold (flush_entry BatchUpdateTypeChannelUsedQuota) entries st =
    st\<lparr>channel_rows := map (\<lambda>r. r\<lparr>channel_used_quota := channel_used_quota r + total_of (channel_id r) entries\<rparr>) (channel_rows st)\<rparr>"
  using assms
  by (induction entries arbitrary: st)
     (auto simp: flush_entry_def updateChannelUsedQuota_def update_where_def intro!: arg_cong [where f = "\<lambda>x. _\<lparr>channel_rows := x\<rparr>"])

lemmas flush_folds = flush_users flush_tokens flush_used flush_counts flush_channels

lemma flush_type_calm: "faults st = [] \<Longrightarrow> faults (flush_type t st) = []"
  by (cases t) (simp_all add: flush_type_def flush_folds)

lemma flush_type_batch: "faults st = [] \<Longrightarrow> batch_stores (flush_type t st) = (batch_stores st)(t := [])"
  by (cases t) (simp_all add: flush_type_def flush_folds)

lemma direct_flush_type: "faults st = [] \<Longrightarrow> direct (flush_type t st) = direct st"
  by (cases t)
     (simp_all add: flush_type_def flush_folds direct_def settled_user_def settled_token_def settled_channel_def pending_def)

lemma flush_all:
  "faults st = [] \<Longrightarrow> faults (fold flush_type ts st) = [] \<and> direct (fold flush_type ts st) = direct st \<and>
    (\<forall>t \<in> set ts. batch_stores (fold flush_type ts st) t = [])"
proof (induction ts arbitrary: st)
  case (Cons t ts)
  have keep: "batch_stores (fold flush_type ts st) t' = []" if "batch_stores st t' = []" "faults st = []" for st t'
    using that by (induction ts arbitrary: st) (simp_all add: flush_type_batch flush_type_calm)
  from Cons show ?case by (auto simp: flush_type_calm direct_flush_type flush_type_batch intro!: keep)
qed simp

lemma batchUpdate_direct:
  assumes "faults st = []"
  shows "faults (batchUpdate st) = []" "direct (batchUpdate st) = direct st" "batch_stores (batchUpdate st) = (\<lambda>_. [])"
proof -
  have types: "set batch_types = UNIV"
    using batch_type.exhaust by (auto simp: batch_types_def)
  with assms flush_all [OF assms, of batch_types]
  show "faults (batchUpdate st) = []" "direct (batchUpdate st) = direct st" "batch_stores (batchUpdate st) = (\<lambda>_. [])"
    by (auto simp: batchUpdate_def list_all_iff)
qed

datatype quota_op =
  IncUser int int | DecUser int int | IncToken int int | DecToken int int | AddUsed int int | AddChannel int int | Flush

fun run_op :: "quota_op \<Rightarrow> store \<Rightarrow> store" where
  "run_op (IncUser k v) st = snd (IncreaseUserQuota k v st)"
| "run_op (DecUser k v) st = snd (DecreaseUserQuota k v False st)"
| "run_op (IncToken k v) st = snd (IncreaseTokenQuota k v st)"
| "run_op (DecToken k v) st = snd (DecreaseTokenQuota k v st)"
| "run_op (AddUsed k v) st = UpdateUserUsedQuotaAndRequestCount k v st"
| "run_op (AddChannel k v) st = UpdateChannelUsedQuota k v st"
| "run_op Flush st = batchUpdate st"

lemma transaction_reliable:
  "faults st = [] \<Longrightarrow> faults (snd (m st)) = [] \<Longrightarrow>
   transaction m st = (case m st of (Inl e, st') \<Rightarrow> (Inl e, st) | (Inr x, st') \<Rightarrow> (Inr x, st'))"
  by (auto simp: transaction_def ret_def split: prod.splits sum.splits)

lemma exempt_reliable:
  "faults st = [] \<Longrightarrow> isProfitExemptUserTx uid st =
     (Inr (uid > 0 \<and> (case row user_id uid (user_rows st) of None \<Rightarrow> False | Some r \<Rightarrow> user_role r \<ge> RoleAdminUser)), st)"
  by (simp add: isProfitExemptUserTx_def catch_def ret_def)

lemma create_lot_reliable:
  "faults st = [] \<Longrightarrow> CreateWalletLotFromQuotaGrantTx uid quota ty note st =
     (Inr (), if uid \<le> 0 \<or> quota \<le> 0 \<or>
                 (case row user_id uid (user_rows st) of None \<Rightarrow> False | Some r \<Rightarrow> user_role r \<ge> RoleAdminUser) then st
              else st\<lparr>lots := lots st @ [\<lparr>lot_user_id = uid,
                lot_source_type = (if TrimSpace ty = [] then ProfitLotSourceGift else ty),
                lot_source_note = TrimSpace note, lot_quota_total = quota, lot_quota_remaining = quota\<rparr>]\<rparr>)"
  by (simp add: CreateWalletLotFromQuotaGrantTx_def and_then_def exempt_reliable ret_def)

lemma increase_user_reliable:
  "faults st = [] \<Longrightarrow> q > 0 \<Longrightarrow> IncreaseUserQuota uid q st =
     CreateWalletLotFromQuotaGrantTx uid q ProfitLotSourceGift ''direct_quota_credit''
       (st\<lparr>user_rows := update_where user_id uid (\<lambda>r. r\<lparr>user_quota := user_quota r + q\<rparr>) (user_rows st)\<rparr>)"
  by (simp add: IncreaseUserQuota_def IncreaseUserQuotaWithSource_def transaction_reliable and_then_def
      increaseUserQuota_def create_lot_reliable)

lemma direct_fields [simp]:
  "faults (direct st) = faults st" "lots (direct st) = lots st" "batch_enabled (direct st) = False"
  "batch_stores (direct st) = (\<lambda>_. [])" "subs (direct st) = subs st" "usage (direct st) = usage st"
  "records (direct st) = records st" "clock (direct st) = clock st"
  by (simp_all add: direct_def)

lemma direct_row [simp]: "row user_id k (user_rows (direct st)) = map_option (settled_user st) (row user_id k (user_rows st))"
  by (simp add: direct_def row_map settled_user_def)

lemma settled_role [simp]: "user_role (settled_user st r) = user_role r"
  by (simp add: settled_user_def)

lemma settled_same [simp]:
  "settled_user (st\<lparr>user_rows := us\<rparr>) = settled_user st" "settled_token (st\<lparr>user_rows := us\<rparr>) = settled_token st"
  "settled_channel (st\<lparr>user_rows := us\<rparr>) = settled_channel st"
  "settled_user (st\<lparr>token_rows := ts\<rparr>) = settled_user st" "settled_token (st\<lparr>token_rows := ts\<rparr>) = settled_token st"
  "settled_channel (st\<lparr>token_rows := ts\<rparr>) = settled_channel st"
  "settled_user (st\<lparr>channel_rows := cs\<rparr>) = settled_user st" "settled_token (st\<lparr>channel_rows := cs\<rparr>) = settled_token st"
  "settled_channel (st\<lparr>channel_rows := cs\<rparr>) = settled_channel st"
  "settled_user (st\<lparr>lots := ls\<rparr>) = settled_user st" "settled_token (st\<lparr>lots := ls\<rparr>) = settled_token st"
  "settled_channel (st\<lparr>lots := ls\<rparr>) = settled_channel st"
  by (rule ext, simp add: settled_user_def settled_token_def settled_channel_def pending_def)+

lemma map_update_commute:
  assumes "\<And>r. key (g r) = key r" "\<And>r. key r = k \<Longrightarrow> g (f r) = f (g r)"
  shows "map g (update_where key k f rows) = update_where key k f (map g rows)"
  using assms by (simp add: update_where_def)

lemma direct_lots: "direct (st\<lparr>lots := ls\<rparr>) = (direct st)\<lparr>lots := ls\<rparr>"
  by (simp add: direct_def)

lemma direct_users:
  assumes "\<And>r. settled_user st (f r) = f (settled_user st r)"
  shows "direct (st\<lparr>user_rows := update_where user_id k f (user_rows st)\<rparr>) =
    (direct st)\<lparr>user_rows := update_where user_id k f (user_rows (direct st))\<rparr>"
  using assms by (simp add: direct_def map_update_commute settled_user_def)

lemma direct_tokens:
  assumes "\<And>r. settled_token st (f r) = f (settled_token st r)"
  shows "direct (st\<lparr>token_rows := update_where token_id k f (token_rows st)\<rparr>) =
    (direct st)\<lparr>token_rows := update_where token_id k f (token_rows (direct st))\<rparr>"
  using assms by (simp add: direct_def map_update_commute settled_token_def)

lemma direct_channels:
  assumes "\<And>r. settled_channel st (f r) = f (settled_channel st r)"
  shows "direct (st\<lparr>channel_rows := update_where channel_id k f (channel_rows st)\<rparr>) =
    (direct st)\<lparr>channel_rows := update_where channel_id k f (channel_rows (direct st))\<rparr>"
  using assms by (simp add: direct_def map_update_commute settled_channel_def)

text \<open>An entry of a batch is the update it stands for.\<close>

lemma pending_add: "pending t k (addNewRecord t' k' v st) = pending t k st + (if t = t' \<and> k = k' then v else 0)"
  by (simp add: pending_def addNewRecord_def)

lemma direct_add:
  "direct (addNewRecord BatchUpdateTypeUserQuota k v st) =
     (direct st)\<lparr>user_rows := update_where user_id k (\<lambda>r. r\<lparr>user_quota := user_quota r + v\<rparr>) (user_rows (direct st))\<rparr>"
  "direct (addNewRecord BatchUpdateTypeUsedQuota k v st) =
     (direct st)\<lparr>user_rows := update_where user_id k (\<lambda>r. r\<lparr>user_used_quota := user_used_quota r + v\<rparr>) (user_rows (direct st))\<rparr>"
  "direct (addNewRecord BatchUpdateTypeRequestCount k v st) =
     (direct st)\<lparr>user_rows := update_where user_id k (\<lambda>r. r\<lparr>user_request_count := user_request_count r + v\<rparr>) (user_rows (direct st))\<rparr>"
  "direct (addNewRecord BatchUpdateTypeTokenQuota k v st) =
     (direct st)\<lparr>token_rows := update_where token_id k
       (\<lambda>r. r\<lparr>remain_quota := remain_quota r + v, token_used_quota := token_used_quota r - v\<rparr>) (token_rows (direct st))\<rparr>"
  "direct (addNewRecord BatchUpdateTypeChannelUsedQuota k v st) =
     (direct st)\<lparr>channel_rows := update_where channel_id k (\<lambda>r. r\<lparr>channel_used_quota := channel_used_quota r + v\<rparr>) (channel_rows (direct st))\<rparr>"
  by (simp_all add: direct_def update_where_def settled_user_def settled_token_def settled_channel_def pending_add
      comp_def addNewRecord_def [of _ _ _ st] cong: map_cong)
     (auto simp: addNewRecord_def pending_def)

lemma direct_increase_user:
  assumes "faults st = []"
  shows "direct (snd (IncreaseUserQuota k v st)) = snd (IncreaseUserQuota k v (direct st))"
proof (cases "v > 0")
  case True
  then show ?thesis using assms
    by (cases "row user_id k (user_rows st)")
       (simp_all add: increase_user_reliable create_lot_reliable direct_lots direct_users settled_user_def)
next
  case False
  then show ?thesis
    by (simp add: IncreaseUserQuota_def IncreaseUserQuotaWithSource_def throw_def ret_def)
qed

lemma direct_decrease_user:
  "faults st = [] \<Longrightarrow> direct (snd (DecreaseUserQuota k v db st)) = snd (DecreaseUserQuota k v False (direct st))"
  by (simp add: DecreaseUserQuota_def decreaseUserQuota_def direct_add direct_users settled_user_def)

lemma direct_tokens_quota:
  assumes "faults st = []"
  shows "direct (snd (IncreaseTokenQuota k v st)) = snd (IncreaseTokenQuota k v (direct st))"
    "direct (snd (DecreaseTokenQuota k v st)) = snd (DecreaseTokenQuota k v (direct st))"
  using assms
  by (simp_all add: IncreaseTokenQuota_def increaseTokenQuota_def DecreaseTokenQuota_def decreaseTokenQuota_def
      direct_add direct_tokens settled_token_def)

lemma update_where_twice:
  assumes "\<And>r. key (f r) = key r"
  shows "update_where key k g (update_where key k f rows) = update_where key k (\<lambda>r. g (f r)) rows"
  using assms by (simp add: update_where_def)

lemma direct_counters:
  assumes "faults st = []"
  shows "direct (UpdateUserUsedQuotaAndRequestCount k v st) = UpdateUserUsedQuotaAndRequestCount k v (direct st)"
    "direct (UpdateChannelUsedQuota k v st) = UpdateChannelUsedQuota k v (direct st)"
  using assms
  by (simp_all add: UpdateUserUsedQuotaAndRequestCount_def updateUserUsedQuotaAndRequestCount_def UpdateChannelUsedQuota_def
      updateChannelUsedQuota_def direct_add direct_users direct_channels settled_user_def settled_channel_def update_where_twice)

lemma run_op_calm: "faults st = [] \<Longrightarrow> faults (run_op op st) = []"
proof (cases op)
  case (IncUser k v)
  assume "faults st = []"
  with IncUser show ?thesis
    by (cases "v > 0", simp add: increase_user_reliable create_lot_reliable)
       (simp add: IncreaseUserQuota_def IncreaseUserQuotaWithSource_def throw_def ret_def)
qed (simp_all add: DecreaseUserQuota_def decreaseUserQuota_def IncreaseTokenQuota_def increaseTokenQuota_def
    DecreaseTokenQuota_def decreaseTokenQuota_def UpdateUserUsedQuotaAndRequestCount_def
    updateUserUsedQuotaAndRequestCount_def UpdateChannelUsedQuota_def updateChannelUsedQuota_def addNewRecord_def
    batchUpdate_direct)

lemma direct_run_op: "faults st = [] \<Longrightarrow> direct (run_op op st) = run_op op (direct st)"
  by (cases op)
     (simp_all add: direct_increase_user direct_decrease_user direct_tokens_quota direct_counters batchUpdate_direct,
      simp add: batchUpdate_def list_all_iff)

lemma direct_run_ops:
  "faults st = [] \<Longrightarrow> faults (fold run_op ops st) = [] \<and> direct (fold run_op ops st) = fold run_op ops (direct st)"
  by (induction ops arbitrary: st) (simp_all add: run_op_calm direct_run_op)

lemma direct_no_batch:
  assumes "batch_stores st = (\<lambda>_. [])"
  shows "direct st = st\<lparr>batch_enabled := False\<rparr>"
proof -
  have "settled_user st = id" "settled_token st = id" "settled_channel st = id"
    using assms by (auto simp: settled_user_def settled_token_def settled_channel_def pending_def)
  with assms show ?thesis by (simp add: direct_def)
qed

text \<open>C6: batching is transparent. Take any sequence of quota changes for users, tokens and channels, with flushes of
  the batches anywhere between them. Run with batching and flushed at its end, it leaves the very tables that the same
  changes leave when each is written to the database at once, and no entry waits in a batch.\<close>

theorem batching_transparent:
  assumes "faults st = []" and "batch_stores st = (\<lambda>_. [])"
  shows "let batched = batchUpdate (fold run_op ops (st\<lparr>batch_enabled := True\<rparr>));
             written = fold run_op ops (st\<lparr>batch_enabled := False\<rparr>)
    in user_rows batched = user_rows written \<and> token_rows batched = token_rows written \<and>
       channel_rows batched = channel_rows written \<and> lots batched = lots written \<and> batch_stores batched = (\<lambda>_. [])"
proof -
  let ?s = "st\<lparr>batch_enabled := True\<rparr>" and ?w = "fold run_op ops (st\<lparr>batch_enabled := False\<rparr>)"
  let ?b = "batchUpdate (fold run_op ops ?s)"
  have calm: "faults ?s = []" using assms(1) by simp
  have "direct ?s = st\<lparr>batch_enabled := False\<rparr>" using assms(2) by (simp add: direct_no_batch)
  with direct_run_ops [OF calm, of ops] have ops: "faults (fold run_op ops ?s) = []" "direct (fold run_op ops ?s) = ?w"
    by simp_all
  from batchUpdate_direct [OF ops(1)] ops(2)
  have "direct ?b = ?w" and empty: "batch_stores ?b = (\<lambda>_. [])" by simp_all
  then have "?w = ?b\<lparr>batch_enabled := False\<rparr>" by (simp add: direct_no_batch)
  with empty show ?thesis by (simp add: Let_def)
qed

definition sample_store :: store where
  "sample_store =
     \<lparr>user_rows = [\<lparr>user_id = 1, user_quota = 500, user_used_quota = 0, user_request_count = 0, user_role = 1\<rparr>],
      token_rows = [\<lparr>token_id = 7, token_key = ''sk'', remain_quota = 300, token_used_quota = 0\<rparr>],
      channel_rows = [\<lparr>channel_id = 3, channel_used_quota = 0\<rparr>], lots = [], subs = [], usage = [], records = [],
      batch_stores = (\<lambda>_. []), batch_enabled = False, quota_per_unit = 10000, clock = 100, faults = []\<rparr>"

theorem batching_transparent_witness:
  "let ops = [DecUser 1 200, DecToken 7 200, Flush, IncUser 1 50, IncToken 7 50, AddUsed 1 150, AddChannel 3 150];
       batched = batchUpdate (fold run_op ops (sample_store\<lparr>batch_enabled := True\<rparr>))
   in faults sample_store = [] \<and> batch_stores sample_store = (\<lambda>_. []) \<and>
      user_rows batched = user_rows (fold run_op ops (sample_store\<lparr>batch_enabled := False\<rparr>)) \<and>
      user_rows batched = [\<lparr>user_id = 1, user_quota = 350, user_used_quota = 150, user_request_count = 1, user_role = 1\<rparr>] \<and>
      map remain_quota (token_rows batched) = [150]"
proof -
  let ?ops = "[DecUser 1 200, DecToken 7 200, Flush, IncUser 1 50, IncToken 7 50, AddUsed 1 150, AddChannel 3 150]"
  have start: "faults sample_store = []" "batch_stores sample_store = (\<lambda>_. [])" by (simp_all add: sample_store_def)
  have "user_rows (fold run_op ?ops (sample_store\<lparr>batch_enabled := False\<rparr>)) =
      [\<lparr>user_id = 1, user_quota = 350, user_used_quota = 150, user_request_count = 1, user_role = 1\<rparr>]"
    "map remain_quota (token_rows (fold run_op ?ops (sample_store\<lparr>batch_enabled := False\<rparr>))) = [150]"
    by code_simp+
  with batching_transparent [OF start, of ?ops] start show ?thesis by (simp add: Let_def)
qed

end
