(* ===== verification/Quota_Books.thy ===== *)
theory Quota_Books
  imports Quota_Store
begin

text \<open>
  The balances that the operations of \<^verbatim>\<open>model/user.go\<close> and \<^verbatim>\<open>model/token.go\<close> change, and what every
  one of them promises when statements of the database may fail: it changes its account by exactly its amount, or it
  reports an error and changes nothing.
\<close>

section \<open>Accounts\<close>

text \<open>The accounts that a request can be charged to: the wallet of a user, the quota of a token and the usage of a
  subscription. The balance of a subscription is the negative of what was used of it, so that a charge lowers every
  kind of balance. Batched changes count at once.\<close>

datatype account = WalletOf int | TokenOf int | UsageOf int

fun books :: "store \<Rightarrow> account \<Rightarrow> int" where
  "books st (WalletOf u) = (case row user_id u (user_rows (direct st)) of None \<Rightarrow> 0 | Some r \<Rightarrow> user_quota r)"
| "books st (TokenOf t) = (case row token_id t (token_rows (direct st)) of None \<Rightarrow> 0 | Some r \<Rightarrow> remain_quota r)"
| "books st (UsageOf i) = (case row sub_id i (subs st) of None \<Rightarrow> 0 | Some s \<Rightarrow> - amount_used s)"

fun has_account :: "store \<Rightarrow> account \<Rightarrow> bool" where
  "has_account st (WalletOf u) \<longleftrightarrow> u \<in> user_id ` set (user_rows st)"
| "has_account st (TokenOf t) \<longleftrightarrow> t \<in> token_id ` set (token_rows st)"
| "has_account st (UsageOf i) \<longleftrightarrow> i \<in> sub_id ` set (subs st)"

definition entry :: "account \<Rightarrow> int \<Rightarrow> account \<Rightarrow> int" where
  "entry a d = (\<lambda>a'. if a' = a then d else 0)"

definition posts :: "(account \<Rightarrow> int) \<Rightarrow> store \<Rightarrow> store \<Rightarrow> bool" where
  "posts c st st' \<longleftrightarrow> (\<forall>a. books st' a = books st a - c a)"

text \<open>What no change of a wallet or of a token touches.\<close>

definition same_plan :: "store \<Rightarrow> store \<Rightarrow> bool" where
  "same_plan st st' \<longleftrightarrow>
     subs st' = subs st \<and> usage st' = usage st \<and> records st' = records st \<and> clock st' = clock st \<and>
     quota_per_unit st' = quota_per_unit st \<and> batch_enabled st' = batch_enabled st \<and>
     map user_id (user_rows st') = map user_id (user_rows st) \<and>
     map (\<lambda>r. (token_id r, token_key r)) (token_rows st') = map (\<lambda>r. (token_id r, token_key r)) (token_rows st)"

definition charges :: "account \<Rightarrow> int \<Rightarrow> (store, string, unit) effect \<Rightarrow> bool" where
  "charges a d m \<longleftrightarrow> (\<forall>st r st'. m st = (r, st') \<longrightarrow> has_account st a \<longrightarrow>
     same_plan st st' \<and> calm st st' \<and>
     (case r of Inl _ \<Rightarrow> faults st \<noteq> [] \<and> posts (\<lambda>_. 0) st st' | Inr _ \<Rightarrow> posts (entry a d) st st'))"

lemma direct_bare: "direct (bare st) = bare (direct st)"
  by (simp add: direct_def bare_def settled_user_def settled_token_def settled_channel_def pending_def cong: map_cong)

lemma books_bare [simp]: "books (bare st) = books st"
proof
  fix a show "books (bare st) a = books st a"
    by (cases a) (simp_all add: direct_bare)
qed

lemma posts_bare: "bare st1 = bare st2 \<Longrightarrow> posts c st st1 \<longleftrightarrow> posts c st st2"
  unfolding posts_def by (metis books_bare)

lemma same_plan_bare: "bare st1 = bare st2 \<Longrightarrow> same_plan st st1 \<longleftrightarrow> same_plan st st2"
  unfolding same_plan_def by (simp only: bareD [of st1 st2])

lemma same_plan_refl [simp]: "same_plan st st"
  by (simp add: same_plan_def)

lemma posts_refl [simp]: "posts (\<lambda>_. 0) st st"
  by (simp add: posts_def)

lemma entry_zero [simp]: "entry a 0 = (\<lambda>_. 0)"
  by (simp add: entry_def fun_eq_iff)

lemma same_plan_trans: "same_plan st st' \<Longrightarrow> same_plan st' st'' \<Longrightarrow> same_plan st st''"
  by (simp add: same_plan_def)

lemma same_plan_account: "same_plan st st' \<Longrightarrow> has_account st' a \<longleftrightarrow> has_account st a"
proof (cases a)
  case (WalletOf u)
  assume "same_plan st st'"
  then have "set (map user_id (user_rows st')) = set (map user_id (user_rows st))" by (simp only: same_plan_def)
  with WalletOf show ?thesis by simp
next
  case (TokenOf t)
  assume "same_plan st st'"
  then have "map fst (map (\<lambda>r. (token_id r, token_key r)) (token_rows st')) =
      map fst (map (\<lambda>r. (token_id r, token_key r)) (token_rows st))" by (simp only: same_plan_def)
  then have "set (map token_id (token_rows st')) = set (map token_id (token_rows st))" by (simp add: comp_def)
  with TokenOf show ?thesis by simp
qed (simp add: same_plan_def)

lemma chargesI:
  assumes "\<And>st r st'. m st = (r, st') \<Longrightarrow> has_account st a \<Longrightarrow>
     (\<exists>e. r = Inl e \<and> bare st' = bare st \<and> faults st \<noteq> []) \<or>
     (\<exists>x st1. r = Inr x \<and> calm st st' \<and> bare st' = bare st1 \<and> same_plan st st1 \<and> posts (entry a d) st st1)"
  shows "charges a d m"
proof -
  have "same_plan st st' \<and> calm st st' \<and>
     (case r of Inl _ \<Rightarrow> faults st \<noteq> [] \<and> posts (\<lambda>_. 0) st st' | Inr _ \<Rightarrow> posts (entry a d) st st')"
    if "m st = (r, st')" "has_account st a" for st r st'
    using assms [OF that]
  proof (elim disjE exE conjE)
    fix e assume "r = Inl e" "bare st' = bare st" "faults st \<noteq> []"
    then show ?thesis using posts_bare [of st' st] same_plan_bare [of st' st] by (simp add: calm_def)
  next
    fix x st1 assume "r = Inr x" "calm st st'" "bare st' = bare st1" "same_plan st st1" "posts (entry a d) st st1"
    then show ?thesis using posts_bare [of st' st1] same_plan_bare [of st' st1] by simp
  qed
  then show ?thesis by (simp add: charges_def)
qed


section \<open>Wallets and tokens\<close>

lemma exempt_cases:
  assumes "isProfitExemptUserTx uid st = (r, st')"
  obtains b where "r = Inr b" "bare st' = bare st" "calm st st'"
proof (cases "uid \<le> 0")
  case True
  with assms that show ?thesis by (auto simp: isProfitExemptUserTx_def ret_def)
next
  case False
  let ?q = "query (\<lambda>st. case row user_id uid (user_rows st) of None \<Rightarrow> False | Some r \<Rightarrow> user_role r \<ge> RoleAdminUser)"
  obtain b st1 where q: "?q st = (b, st1)" by fastforce
  then show ?thesis
  proof (cases rule: query_cases)
    case (plain st fs)
    then show ?case by simp
  next
    case fault
    with q assms False that show ?thesis by (auto simp: isProfitExemptUserTx_def catch_def ret_def calm_def)
  next
    case run
    with q assms False that show ?thesis by (auto simp: isProfitExemptUserTx_def catch_def)
  qed
qed

lemma create_lot_cases:
  assumes "CreateWalletLotFromQuotaGrantTx uid quota ty note st = (r, st')"
  obtains (fault) "r = Inl db_error" "bare st' = bare st" "faults st \<noteq> []"
  | (run) ls where "r = Inr ()" "bare st' = bare (st\<lparr>lots := ls\<rparr>)" "calm st st'"
proof (cases "uid \<le> 0 \<or> quota \<le> 0")
  case True
  with assms that(2) [of "lots st"] show ?thesis by (auto simp: CreateWalletLotFromQuotaGrantTx_def ret_def)
next
  case False
  obtain q st1 where q: "isProfitExemptUserTx uid st = (q, st1)" by fastforce
  then show ?thesis
  proof (cases rule: exempt_cases)
    case (1 exempt)
    show ?thesis
    proof (cases exempt)
      case True
      with q 1 assms False that(2) [of "lots st"] show ?thesis
        by (auto simp: CreateWalletLotFromQuotaGrantTx_def and_then_def ret_def)
    next
      case no: False
      with q 1 assms False have c: "change (\<lambda>st. st\<lparr>lots := lots st @
          [\<lparr>lot_user_id = uid, lot_source_type = (if TrimSpace ty = [] then ProfitLotSourceGift else ty),
            lot_source_note = TrimSpace note, lot_quota_total = quota, lot_quota_remaining = quota\<rparr>]\<rparr>) st1 = (r, st')"
        by (simp add: CreateWalletLotFromQuotaGrantTx_def and_then_def)
      then show ?thesis
      proof (cases rule: change_cases)
        case (plain st fs)
        then show ?case by simp
      next
        case fault
        with 1 show ?thesis by (intro that(1)) (auto simp: calm_def)
      next
        case run
        let ?ls = "lots st1 @ [\<lparr>lot_user_id = uid, lot_source_type = (if TrimSpace ty = [] then ProfitLotSourceGift else ty),
            lot_source_note = TrimSpace note, lot_quota_total = quota, lot_quota_remaining = quota\<rparr>]"
        have "bare (st1\<lparr>lots := ?ls\<rparr>) = (bare st1)\<lparr>lots := ?ls\<rparr>" by (simp add: bare_def)
        also have "\<dots> = bare (st\<lparr>lots := ?ls\<rparr>)" by (simp only: 1) (simp add: bare_def)
        finally show ?thesis using run 1 by (intro that(2) [of ?ls]) (auto intro: calm_trans)
      qed
    qed
  qed
qed

lemma bare_updates:
  "bare (st\<lparr>user_rows := us\<rparr>) = (bare st)\<lparr>user_rows := us\<rparr>" "bare (st\<lparr>token_rows := ts\<rparr>) = (bare st)\<lparr>token_rows := ts\<rparr>"
  "bare (st\<lparr>lots := ls\<rparr>) = (bare st)\<lparr>lots := ls\<rparr>" "bare (st\<lparr>subs := ss\<rparr>) = (bare st)\<lparr>subs := ss\<rparr>"
  "bare (st\<lparr>usage := ul\<rparr>) = (bare st)\<lparr>usage := ul\<rparr>" "bare (st\<lparr>records := rs\<rparr>) = (bare st)\<lparr>records := rs\<rparr>"
  by (simp_all add: bare_def)

lemma increase_user_cases:
  assumes "IncreaseUserQuota u q st = (r, st')" and "0 \<le> q"
  obtains (fault) e where "r = Inl e" "bare st' = bare st" "faults st \<noteq> []"
  | (run) ls where "r = Inr ()" "calm st st'"
      "bare st' = bare (st\<lparr>user_rows := update_where user_id u (\<lambda>r. r\<lparr>user_quota := user_quota r + q\<rparr>) (user_rows st), lots := ls\<rparr>)"
proof (cases "q = 0")
  case True
  then have "update_where user_id u (\<lambda>r. r\<lparr>user_quota := user_quota r + q\<rparr>) (user_rows st) = user_rows st"
    by (simp add: update_where_def)
  with True assms that(2) [of "lots st"] show ?thesis
    by (auto simp: IncreaseUserQuota_def IncreaseUserQuotaWithSource_def)
next
  case False
  let ?m = "and_then (increaseUserQuota u q) (\<lambda>_. CreateWalletLotFromQuotaGrantTx u q ProfitLotSourceGift ''direct_quota_credit'')"
  let ?us = "update_where user_id u (\<lambda>r. r\<lparr>user_quota := user_quota r + q\<rparr>) (user_rows st)"
  have body: "(\<exists>e. x = Inl e \<and> faults st \<noteq> []) \<or>
      (\<exists>ls. x = Inr () \<and> calm st st1 \<and> bare st1 = bare (st\<lparr>user_rows := ?us, lots := ls\<rparr>))" if m: "?m st = (x, st1)" for x st1
    using m
  proof (cases rule: and_then_cases)
    case (error e)
    then show ?thesis unfolding increaseUserQuota_def by (elim change_cases) auto
  next
    case (ok y st2)
    from ok(1) [unfolded increaseUserQuota_def] have up: "bare st2 = bare (st\<lparr>user_rows := ?us\<rparr>)" "calm st st2"
      by (elim change_cases; simp)+
    from ok(2) show ?thesis
    proof (cases rule: create_lot_cases)
      case fault
      with up show ?thesis by (auto simp: calm_def)
    next
      case (run ls)
      have "bare (st2\<lparr>lots := ls\<rparr>) = (bare st2)\<lparr>lots := ls\<rparr>" by (rule bare_updates)
      also have "\<dots> = bare (st\<lparr>user_rows := ?us, lots := ls\<rparr>)" by (simp only: up bare_updates)
      finally show ?thesis using run up by (auto intro: calm_trans)
    qed
  qed
  from False assms have "transaction ?m st = (r, st')"
    by (simp add: IncreaseUserQuota_def IncreaseUserQuotaWithSource_def)
  then show ?thesis
  proof (cases rule: transaction_cases)
    case (fault e)
    have "faults st \<noteq> []"
    proof
      assume none: "faults st = []"
      obtain x st1 where m: "?m st = (x, st1)" by fastforce
      with body [OF m] none fault show False by (auto simp: calm_def)
    qed
    with fault show ?thesis by (intro that(1)) auto
  next
    case (commit x st1)
    with body [OF commit(1)] obtain ls where "calm st st1" "bare st1 = bare (st\<lparr>user_rows := ?us, lots := ls\<rparr>)" by auto
    with commit show ?thesis by (intro that(2) [of ls]) auto
  qed
qed

lemma addNewRecord_fields [simp]:
  "subs (addNewRecord ty k v st) = subs st" "faults (addNewRecord ty k v st) = faults st"
  "same_plan st (addNewRecord ty k v st)"
  by (simp_all add: addNewRecord_def same_plan_def)

lemma direct_token_row [simp]:
  "row token_id k (token_rows (direct st)) = map_option (settled_token st) (row token_id k (token_rows st))"
  by (simp add: direct_def row_map settled_token_def)

lemma has_row:
  "has_account st (WalletOf u) \<longleftrightarrow> (\<exists>r. row user_id u (user_rows st) = Some r)"
  "has_account st (TokenOf t) \<longleftrightarrow> (\<exists>x. row token_id t (token_rows st) = Some x)"
  "has_account st (UsageOf i) \<longleftrightarrow> (\<exists>s. row sub_id i (subs st) = Some s)"
  using row_None_iff [of user_id u "user_rows st"] row_None_iff [of token_id t "token_rows st"] row_None_iff [of sub_id i "subs st"]
  by auto

text \<open>Two stores whose direct tables differ in one updated row differ by one entry of the books.\<close>

lemma posts_wallet:
  assumes "user_rows (direct st') = update_where user_id u (\<lambda>r. r\<lparr>user_quota := user_quota r - d\<rparr>) (user_rows (direct st))"
    and "token_rows (direct st') = token_rows (direct st)" "subs st' = subs st" and "has_account st (WalletOf u)"
  shows "posts (entry (WalletOf u) d) st st'"
proof -
  have "books st' a = books st a - entry (WalletOf u) d a" for a
  proof (cases a)
    case (WalletOf u')
    with assms(1,4) show ?thesis
      unfolding has_row by (auto simp: entry_def simp del: direct_row split: option.splits) (auto simp: row_map)
  next
    case (TokenOf t)
    with assms(2) show ?thesis by (simp add: entry_def del: direct_token_row)
  qed (simp add: assms(3) entry_def)
  then show ?thesis by (simp add: posts_def)
qed

lemma posts_token:
  assumes "token_rows (direct st') = update_where token_id t
      (\<lambda>r. r\<lparr>remain_quota := remain_quota r - d, token_used_quota := token_used_quota r + d\<rparr>) (token_rows (direct st))"
    and "user_rows (direct st') = user_rows (direct st)" "subs st' = subs st" and "has_account st (TokenOf t)"
  shows "posts (entry (TokenOf t) d) st st'"
proof -
  have "books st' a = books st a - entry (TokenOf t) d a" for a
  proof (cases a)
    case (TokenOf t')
    with assms(1,4) show ?thesis
      unfolding has_row by (auto simp: entry_def simp del: direct_token_row split: option.splits) (auto simp: row_map)
  next
    case (WalletOf u)
    with assms(2) show ?thesis by (simp add: entry_def del: direct_row)
  qed (simp add: assms(3) entry_def)
  then show ?thesis by (simp add: posts_def)
qed

lemma increase_user_charges: "0 \<le> q \<Longrightarrow> charges (WalletOf u) (- q) (IncreaseUserQuota u q)"
proof (rule chargesI)
  fix st r st' assume q: "0 \<le> q" and run: "IncreaseUserQuota u q st = (r, st')" and acc: "has_account st (WalletOf u)"
  from run q show "(\<exists>e. r = Inl e \<and> bare st' = bare st \<and> faults st \<noteq> []) \<or>
     (\<exists>x st1. r = Inr x \<and> calm st st' \<and> bare st' = bare st1 \<and> same_plan st st1 \<and> posts (entry (WalletOf u) (- q)) st st1)"
  proof (cases rule: increase_user_cases)
    case (run ls)
    let ?s = "st\<lparr>user_rows := update_where user_id u (\<lambda>r. r\<lparr>user_quota := user_quota r + q\<rparr>) (user_rows st), lots := ls\<rparr>"
    have "posts (entry (WalletOf u) (- q)) st ?s"
      by (rule posts_wallet [OF _ _ _ acc]) (simp_all add: direct_lots direct_users settled_user_def)
    moreover have "same_plan st ?s" by (simp add: same_plan_def)
    ultimately show ?thesis using run by blast
  qed simp
qed

lemma decrease_user_charges: "0 \<le> q \<Longrightarrow> charges (WalletOf u) q (DecreaseUserQuota u q db)"
proof (rule chargesI)
  fix st r st' assume q: "0 \<le> q" and run: "DecreaseUserQuota u q db st = (r, st')" and acc: "has_account st (WalletOf u)"
  show "(\<exists>e. r = Inl e \<and> bare st' = bare st \<and> faults st \<noteq> []) \<or>
     (\<exists>x st1. r = Inr x \<and> calm st st' \<and> bare st' = bare st1 \<and> same_plan st st1 \<and> posts (entry (WalletOf u) q) st st1)"
  proof (cases "\<not> db \<and> batch_enabled st")
    case True
    with run q have st': "r = Inr ()" "st' = addNewRecord BatchUpdateTypeUserQuota u (- q) st"
      by (auto simp: DecreaseUserQuota_def)
    have "posts (entry (WalletOf u) q) st st'"
      by (rule posts_wallet [OF _ _ _ acc]) (simp_all add: st' direct_add)
    moreover have "same_plan st st'" "calm st st'" by (simp_all add: st' same_plan_def calm_def addNewRecord_def)
    ultimately show ?thesis using st' by blast
  next
    case False
    with run q have "change (\<lambda>st. st\<lparr>user_rows := update_where user_id u (\<lambda>r. r\<lparr>user_quota := user_quota r - q\<rparr>) (user_rows st)\<rparr>) st = (r, st')"
      by (auto simp: DecreaseUserQuota_def decreaseUserQuota_def)
    then show ?thesis
    proof (cases rule: change_cases)
      case run
      let ?s = "st\<lparr>user_rows := update_where user_id u (\<lambda>r. r\<lparr>user_quota := user_quota r - q\<rparr>) (user_rows st)\<rparr>"
      have "posts (entry (WalletOf u) q) st ?s"
        by (rule posts_wallet [OF _ _ _ acc]) (simp_all add: direct_users settled_user_def)
      moreover have "same_plan st ?s" by (simp add: same_plan_def)
      ultimately show ?thesis using run by blast
    qed auto
  qed
qed

lemma token_charges:
  assumes "m = (\<lambda>st. if batch_enabled st then (Inr (), addNewRecord BatchUpdateTypeTokenQuota t (- d) st)
      else change (\<lambda>st. st\<lparr>token_rows := update_where token_id t
        (\<lambda>r. r\<lparr>remain_quota := remain_quota r - d, token_used_quota := token_used_quota r + d\<rparr>) (token_rows st)\<rparr>) st)"
  shows "charges (TokenOf t) d m"
proof (rule chargesI)
  fix st r st' assume run: "m st = (r, st')" and acc: "has_account st (TokenOf t)"
  show "(\<exists>e. r = Inl e \<and> bare st' = bare st \<and> faults st \<noteq> []) \<or>
     (\<exists>x st1. r = Inr x \<and> calm st st' \<and> bare st' = bare st1 \<and> same_plan st st1 \<and> posts (entry (TokenOf t) d) st st1)"
  proof (cases "batch_enabled st")
    case True
    with run assms have st': "r = Inr ()" "st' = addNewRecord BatchUpdateTypeTokenQuota t (- d) st" by auto
    have "posts (entry (TokenOf t) d) st st'"
      by (rule posts_token [OF _ _ _ acc]) (simp_all add: st' direct_add)
    moreover have "same_plan st st'" "calm st st'" by (simp_all add: st' calm_def)
    ultimately show ?thesis using st' by blast
  next
    case False
    with run assms have "change (\<lambda>st. st\<lparr>token_rows := update_where token_id t
        (\<lambda>r. r\<lparr>remain_quota := remain_quota r - d, token_used_quota := token_used_quota r + d\<rparr>) (token_rows st)\<rparr>) st = (r, st')"
      by simp
    then show ?thesis
    proof (cases rule: change_cases)
      case run
      let ?s = "st\<lparr>token_rows := update_where token_id t
        (\<lambda>r. r\<lparr>remain_quota := remain_quota r - d, token_used_quota := token_used_quota r + d\<rparr>) (token_rows st)\<rparr>"
      have "posts (entry (TokenOf t) d) st ?s"
        by (rule posts_token [OF _ _ _ acc]) (simp_all add: direct_tokens settled_token_def)
      moreover have "same_plan st ?s" by (simp add: same_plan_def)
      ultimately show ?thesis using run by blast
    qed auto
  qed
qed

text \<open>What the billing code relies on in an account: its two operations change it by their amount or report an
  error. The code raises and lowers an account by a signed difference in several places.\<close>

locale quota_account =
  fixes acct :: account
    and increase decrease :: "int \<Rightarrow> (store, string, unit) effect"
  assumes increase: "0 \<le> q \<Longrightarrow> charges acct (- q) (increase q)"
    and decrease: "0 \<le> q \<Longrightarrow> charges acct q (decrease q)"
begin

lemma adjust: "charges acct d (if d > 0 then decrease d else increase (- d))"
  using increase [of "- d"] decrease [of d] by simp

lemma adjust_succeeds:
  assumes "has_account st acct" "faults st = []"
  obtains st' where "(if d > 0 then decrease d else increase (- d)) st = (Inr (), st')"
    "posts (entry acct d) st st'" "same_plan st st'" "faults st' = []"
proof -
  obtain r st' where run: "(if d > 0 then decrease d else increase (- d)) st = (r, st')" by fastforce
  with adjust [of d, unfolded charges_def, rule_format, OF run assms(1)] assms(2) that [of st']
  show ?thesis by (cases r) (auto simp: calm_def)
qed

lemma adjust_result:
  assumes "(if d > 0 then decrease d else increase (- d)) st = (r, st')" "has_account st acct"
  shows "same_plan st st'" "calm st st'" "posts (entry acct (if isl r then 0 else d)) st st'" "isl r \<Longrightarrow> faults st \<noteq> []"
  using adjust [of d, unfolded charges_def, rule_format, OF assms] by (cases r; simp)+

end

interpretation wallet: quota_account "WalletOf u" "IncreaseUserQuota u" "\<lambda>q. DecreaseUserQuota u q False" for u
  by unfold_locales (simp_all add: increase_user_charges decrease_user_charges)

interpretation token: quota_account "TokenOf t" "IncreaseTokenQuota t" "DecreaseTokenQuota t" for t
  by unfold_locales
     (rule token_charges, simp add: fun_eq_iff IncreaseTokenQuota_def increaseTokenQuota_def DecreaseTokenQuota_def
      decreaseTokenQuota_def)+

end
