(* ===== verification/Subscription_Store.thy ===== *)
theory Subscription_Store
  imports Quota_Books
begin

text \<open>
  The consumption of subscriptions, from \<^verbatim>\<open>model/subscription.go\<close>: the rolling limits, the pre-consumption
  that is remembered under the id of its request, its refund, and later corrections. The functions that lock the
  subscription rows of a transaction run alone on them, as their option FOR UPDATE asks for.
\<close>

section \<open>Model limits\<close>

definition normalizeSubscriptionModelLimits :: "string \<Rightarrow> string" where
  "normalizeSubscriptionModelLimits raw =
     (if TrimSpace raw = [] then []
      else join '','' (js_set (filter (\<lambda>value. value \<noteq> []) (map TrimSpace (split_on (CHR '','') raw)))))"

definition handleThinkingBudgetModel :: "string \<Rightarrow> string \<Rightarrow> string \<Rightarrow> string" where
  "handleThinkingBudgetModel name prefix wildcard =
     (if starts_with prefix name \<and> str_includes name ''-thinking-'' then wildcard else name)"

definition FormatMatchingModelName :: "string \<Rightarrow> string" where
  "FormatMatchingModelName name =
     (let name1 =
            (if starts_with ''gemini-2.5-flash-lite'' name
             then handleThinkingBudgetModel name ''gemini-2.5-flash-lite'' ''gemini-2.5-flash-lite-thinking-*''
             else if starts_with ''gemini-2.5-flash'' name
             then handleThinkingBudgetModel name ''gemini-2.5-flash'' ''gemini-2.5-flash-thinking-*''
             else if starts_with ''gemini-2.5-pro'' name
             then handleThinkingBudgetModel name ''gemini-2.5-pro'' ''gemini-2.5-pro-thinking-*''
             else name);
          name2 = (if starts_with ''gpt-4-gizmo'' name1 then ''gpt-4-gizmo-*'' else name1)
      in if starts_with ''gpt-4o-gizmo'' name2 then ''gpt-4o-gizmo-*'' else name2)"

definition subscriptionModelLimitsToMap :: "string \<Rightarrow> string list" where
  "subscriptionModelLimitsToMap raw =
     (let normalized = normalizeSubscriptionModelLimits raw
      in if normalized = [] then [] else map FormatMatchingModelName (split_on (CHR '','') normalized))"

definition AllowsModel :: "user_subscription \<Rightarrow> string \<Rightarrow> bool" where
  "AllowsModel s modelName \<longleftrightarrow>
     \<not> model_limits_enabled s \<or> TrimSpace (model_limits s) = [] \<or>
     FormatMatchingModelName modelName \<in> set (subscriptionModelLimitsToMap (model_limits s))"

definition NormalizeModelLimits :: "user_subscription \<Rightarrow> user_subscription" where
  "NormalizeModelLimits s =
     (let limits = normalizeSubscriptionModelLimits (model_limits s)
      in s\<lparr>model_limits := limits, model_limits_enabled := limits \<noteq> []\<rparr>)"

section \<open>Rolling limits\<close>

definition SubscriptionWindowFiveHours :: int where
  "SubscriptionWindowFiveHours = 5 * 3600"

definition SubscriptionWindowDaily :: int where
  "SubscriptionWindowDaily = 24 * 3600"

definition SubscriptionWindowWeekly :: int where
  "SubscriptionWindowWeekly = 7 * 24 * 3600"

definition clampSubscriptionUsage :: "int \<Rightarrow> int" where
  "clampSubscriptionUsage s = (if s < 0 then 0 else s)"

text \<open>The sum of the deltas that a window of the ledger of a subscription holds.\<close>

definition window_sum :: "int \<Rightarrow> int \<Rightarrow> usage_ledger list \<Rightarrow> int" where
  "window_sum sid windowStart entries =
     sum_list (map led_delta (filter (\<lambda>l. led_sub_id l = sid \<and> led_created_at l \<ge> windowStart) entries))"

definition getSubscriptionWindowUsageTx :: "int \<Rightarrow> int \<Rightarrow> int \<Rightarrow> int \<Rightarrow> (store, string, int) effect" where
  "getSubscriptionWindowUsageTx sid windowSeconds now startTime =
     (if sid \<le> 0 \<or> windowSeconds \<le> 0 then ret 0
      else query (\<lambda>st. clampSubscriptionUsage (window_sum sid (max startTime (now - windowSeconds)) (usage st))))"

definition quota_insufficient :: "int \<Rightarrow> string" where
  "quota_insufficient amount = ''subscription quota insufficient, need='' @ show_int amount"

definition limit_exceeded :: "string \<Rightarrow> string" where
  "limit_exceeded label = ''subscription '' @ label @ '' limit exceeded''"

definition rolling_limits :: "user_subscription \<Rightarrow> (int \<times> int \<times> string) list" where
  "rolling_limits s =
     [(amount_five_hour_limit s, SubscriptionWindowFiveHours, ''5-hour''),
      (amount_daily_limit s, SubscriptionWindowDaily, ''daily''),
      (amount_weekly_limit s, SubscriptionWindowWeekly, ''weekly'')]"

fun check_limits :: "user_subscription \<Rightarrow> int \<Rightarrow> int \<Rightarrow> (int \<times> int \<times> string) list \<Rightarrow> (store, string, unit) effect" where
  "check_limits s amount now [] = ret ()"
| "check_limits s amount now ((limit, window, label) # items) =
     (if limit \<le> 0 then check_limits s amount now items
      else and_then (getSubscriptionWindowUsageTx (sub_id s) window now (start_time s)) (\<lambda>used.
        if used + amount > limit then throw (limit_exceeded label) else check_limits s amount now items))"

definition checkSubscriptionRollingLimitsTx :: "user_subscription \<Rightarrow> int \<Rightarrow> int \<Rightarrow> (store, string, unit) effect" where
  "checkSubscriptionRollingLimitsTx s amount now =
     (if amount \<le> 0 then ret ()
      else if amount_total s > 0 \<and> amount_used s + amount > amount_total s then throw (quota_insufficient amount)
      else check_limits s amount now (rolling_limits s))"

section \<open>Pre-consumption, correction and refund\<close>

record pre_consume_result =
  res_sub_id :: int
  res_pre_consumed :: int
  res_amount_total :: int
  res_used_before :: int
  res_used_after :: int

text \<open>The time of the database; when that query fails the program uses its own clock.\<close>

definition GetDBTimestamp :: "(store, string, int) effect" where
  "GetDBTimestamp = catch (query clock) (\<lambda>_ st. (Inr (clock st), st))"

definition save_sub :: "user_subscription \<Rightarrow> (store, string, unit) effect" where
  "save_sub s = change (\<lambda>st. st\<lparr>subs := update_where sub_id (sub_id s) (\<lambda>_. s) (subs st)\<rparr>)"

definition createSubscriptionUsageLedgerTx :: "user_subscription \<Rightarrow> string \<Rightarrow> int \<Rightarrow> string \<Rightarrow> (store, string, unit) effect" where
  "createSubscriptionUsageLedgerTx s requestId delta action =
     (if delta = 0 then ret ()
      else change (\<lambda>st. st\<lparr>usage := usage st @
        [\<lparr>led_user_id = sub_user_id s, led_sub_id = sub_id s, led_request_id = TrimSpace requestId,
          led_delta = delta, led_action = action, led_created_at = clock st\<rparr>]\<rparr>))"

definition is_active :: "int \<Rightarrow> int \<Rightarrow> user_subscription \<Rightarrow> bool" where
  "is_active userId now s \<longleftrightarrow> sub_user_id s = userId \<and> sub_status s = ''active'' \<and> end_time s > now"

definition ends_before :: "user_subscription \<Rightarrow> user_subscription \<Rightarrow> bool" where
  "ends_before s s' \<longleftrightarrow> end_time s < end_time s' \<or> end_time s = end_time s' \<and> sub_id s < sub_id s'"

definition already_refunded :: string where
  "already_refunded = ''subscription pre-consume already refunded''"

definition no_active_subscription :: string where
  "no_active_subscription = ''no active subscription''"

text \<open>The row of a request is created unless one with its id exists, which the unique index refuses.\<close>

definition create_record :: "pre_consume_record \<Rightarrow> (store, string, unit) effect" where
  "create_record r =
     stmt (\<lambda>st. if row rec_request_id (rec_request_id r) (records st) \<noteq> None then (Inl ''duplicate key'', st)
                else (Inr (), st\<lparr>records := records st @ [r\<lparr>rec_updated_at := clock st\<rparr>]\<rparr>))"

definition take_from_sub :: "string \<Rightarrow> int \<Rightarrow> int \<Rightarrow> user_subscription \<Rightarrow> (store, string, pre_consume_result) effect" where
  "take_from_sub requestId userId amount s =
     (let s' = s\<lparr>amount_used := amount_used s + amount\<rparr>
      in and_then (save_sub s') (\<lambda>_.
         and_then (createSubscriptionUsageLedgerTx s' requestId amount ''pre_consume'') (\<lambda>_.
         ret \<lparr>res_sub_id = sub_id s, res_pre_consumed = amount, res_amount_total = amount_total s,
              res_used_before = amount_used s, res_used_after = amount_used s + amount\<rparr>)))"

text \<open>What happens with a candidate that passed the checks: its record is created, or the record that another
  transaction created first decides.\<close>

definition consume_candidate ::
  "string \<Rightarrow> int \<Rightarrow> int \<Rightarrow> user_subscription \<Rightarrow> (store, string, pre_consume_result) effect" where
  "consume_candidate requestId userId amount s st =
     (case create_record \<lparr>rec_request_id = requestId, rec_user_id = userId, rec_sub_id = sub_id s,
             rec_pre_consumed = amount, rec_status = ''consumed'', rec_updated_at = 0\<rparr> st of
        (Inl err, st') \<Rightarrow>
          (case query_first (\<lambda>st. row rec_request_id requestId (records st)) st' of
             (Inl _, st'') \<Rightarrow> (Inl err, st'')
           | (Inr dup, st'') \<Rightarrow>
               (if rec_status dup = ''refunded'' then (Inl already_refunded, st'')
                else (Inr \<lparr>res_sub_id = sub_id s, res_pre_consumed = rec_pre_consumed dup,
                           res_amount_total = amount_total s, res_used_before = amount_used s,
                           res_used_after = amount_used s\<rparr>, st'')))
      | (Inr _, st') \<Rightarrow> take_from_sub requestId userId amount s st')"

definition skips_candidate :: "string \<Rightarrow> bool" where
  "skips_candidate err \<longleftrightarrow> str_includes err ''limit exceeded'' \<or> str_includes err ''quota insufficient''"

fun try_candidates ::
  "string \<Rightarrow> int \<Rightarrow> string \<Rightarrow> int \<Rightarrow> int \<Rightarrow> user_subscription list \<Rightarrow> (store, string, pre_consume_result) effect" where
  "try_candidates requestId userId modelName amount now [] st =
     (Inl (''subscription quota insufficient or model not allowed, need='' @ show_int amount @ '', model='' @ modelName), st)"
| "try_candidates requestId userId modelName amount now (s # candidates) st =
     (if \<not> AllowsModel s modelName then try_candidates requestId userId modelName amount now candidates st
      else (case checkSubscriptionRollingLimitsTx s amount now st of
              (Inl err, st') \<Rightarrow>
                (if skips_candidate err then try_candidates requestId userId modelName amount now candidates st'
                 else (Inl err, st'))
            | (Inr _, st') \<Rightarrow> consume_candidate requestId userId amount s st'))"

definition known_request :: "pre_consume_record \<Rightarrow> (store, string, pre_consume_result) effect" where
  "known_request existing =
     (if rec_status existing = ''refunded'' then throw already_refunded
      else and_then (query_first (\<lambda>st. row sub_id (rec_sub_id existing) (subs st))) (\<lambda>s.
        ret \<lparr>res_sub_id = sub_id s, res_pre_consumed = rec_pre_consumed existing, res_amount_total = amount_total s,
             res_used_before = amount_used s, res_used_after = amount_used s\<rparr>))"

definition new_request ::
  "string \<Rightarrow> int \<Rightarrow> string \<Rightarrow> int \<Rightarrow> int \<Rightarrow> (store, string, pre_consume_result) effect" where
  "new_request requestId userId modelName amount now =
     and_then (catch (query (\<lambda>st. js_sort ends_before (filter (is_active userId now) (subs st))))
                (\<lambda>_. throw no_active_subscription)) (\<lambda>candidates.
       if candidates = [] then throw no_active_subscription
       else try_candidates requestId userId modelName amount now candidates)"

definition PreConsumeUserSubscription ::
  "string \<Rightarrow> int \<Rightarrow> string \<Rightarrow> int \<Rightarrow> (store, string, pre_consume_result) effect" where
  "PreConsumeUserSubscription requestId userId modelName amount =
     (if userId \<le> 0 then throw ''invalid userId''
      else if TrimSpace requestId = [] then throw ''requestId is empty''
      else if amount \<le> 0 then throw ''amount must be > 0''
      else and_then GetDBTimestamp (\<lambda>now.
        transaction (and_then (query (\<lambda>st. row rec_request_id requestId (records st))) (\<lambda>found.
          case found of
            Some existing \<Rightarrow> known_request existing
          | None \<Rightarrow> new_request requestId userId modelName amount now))))"

definition postConsumeUserSubscriptionDeltaTx ::
  "int \<Rightarrow> int \<Rightarrow> string \<Rightarrow> string \<Rightarrow> (store, string, unit) effect" where
  "postConsumeUserSubscriptionDeltaTx sid delta requestId action =
     and_then (query_first (\<lambda>st. row sub_id sid (subs st))) (\<lambda>s.
     and_then (if delta > 0
               then and_then GetDBTimestamp (\<lambda>now. checkSubscriptionRollingLimitsTx s delta now)
               else ret ()) (\<lambda>_.
       let newUsed = max 0 (amount_used s + delta)
       in if amount_total s > 0 \<and> newUsed > amount_total s
          then throw (''subscription used exceeds total, used='' @ show_int newUsed @ '' total='' @ show_int (amount_total s))
          else let s' = s\<lparr>amount_used := newUsed\<rparr>
               in and_then (save_sub s') (\<lambda>_. createSubscriptionUsageLedgerTx s' requestId delta action)))"

definition PostConsumeUserSubscriptionDelta :: "int \<Rightarrow> int \<Rightarrow> (store, string, unit) effect" where
  "PostConsumeUserSubscriptionDelta sid delta =
     (if sid \<le> 0 then throw ''invalid userSubscriptionId''
      else if delta = 0 then ret ()
      else transaction (postConsumeUserSubscriptionDeltaTx sid delta [] ''settle''))"

definition save_record :: "pre_consume_record \<Rightarrow> (store, string, unit) effect" where
  "save_record r =
     change (\<lambda>st. st\<lparr>records := update_where rec_request_id (rec_request_id r) (\<lambda>_. r\<lparr>rec_updated_at := clock st\<rparr>) (records st)\<rparr>)"

definition RefundSubscriptionPreConsume :: "string \<Rightarrow> (store, string, unit) effect" where
  "RefundSubscriptionPreConsume requestId =
     (if TrimSpace requestId = [] then throw ''requestId is empty''
      else transaction (and_then (query_first (\<lambda>st. row rec_request_id requestId (records st))) (\<lambda>r.
        if rec_status r = ''refunded'' then ret ()
        else if rec_pre_consumed r \<le> 0 then save_record (r\<lparr>rec_status := ''refunded''\<rparr>)
        else and_then (postConsumeUserSubscriptionDeltaTx (rec_sub_id r) (- rec_pre_consumed r) (rec_request_id r) ''refund'')
               (\<lambda>_. save_record (r\<lparr>rec_status := ''refunded''\<rparr>)))))"

definition CleanupSubscriptionPreConsumeRecords :: "int \<Rightarrow> (store, string, nat) effect" where
  "CleanupSubscriptionPreConsumeRecords olderThanSeconds =
     (let older = (if olderThanSeconds \<le> 0 then 7 * 24 * 3600 else olderThanSeconds)
      in and_then GetDBTimestamp (\<lambda>now.
           stmt (\<lambda>st. (Inr (length (filter (\<lambda>r. rec_updated_at r < now - older) (records st))),
                        st\<lparr>records := filter (\<lambda>r. \<not> rec_updated_at r < now - older) (records st)\<rparr>))))"

definition HasActiveUserSubscription :: "int \<Rightarrow> (store, string, bool) effect" where
  "HasActiveUserSubscription userId =
     (if userId \<le> 0 then throw ''invalid userId''
      else query (\<lambda>st. filter (is_active userId (clock st)) (subs st) \<noteq> []))"

section \<open>Limits\<close>

text \<open>The limits that are checked, as a condition on the ledger.\<close>

definition within_limits :: "user_subscription \<Rightarrow> int \<Rightarrow> int \<Rightarrow> usage_ledger list \<Rightarrow> (int \<times> int \<times> string) list \<Rightarrow> bool" where
  "within_limits s amount now entries items \<longleftrightarrow>
     (\<forall>(limit, window, label) \<in> set items. limit > 0 \<longrightarrow>
        clampSubscriptionUsage (window_sum (sub_id s) (max (start_time s) (now - window)) entries) + amount \<le> limit)"

definition allowed :: "user_subscription \<Rightarrow> int \<Rightarrow> int \<Rightarrow> usage_ledger list \<Rightarrow> bool" where
  "allowed s amount now entries \<longleftrightarrow>
     (amount_total s > 0 \<longrightarrow> amount_used s + amount \<le> amount_total s) \<and> within_limits s amount now entries (rolling_limits s)"

lemma windows_positive: "(limit, window, label) \<in> set (rolling_limits s) \<Longrightarrow> window > 0"
  by (auto simp: rolling_limits_def SubscriptionWindowFiveHours_def SubscriptionWindowDaily_def SubscriptionWindowWeekly_def)

lemma skips_messages [simp]:
  "skips_candidate (limit_exceeded label)" "skips_candidate (quota_insufficient amount)" "\<not> skips_candidate db_error"
proof -
  have "limit_exceeded label = (''subscription '' @ label @ '' '') @ ''limit exceeded'' @ []" by (simp add: limit_exceeded_def)
  then show "skips_candidate (limit_exceeded label)" unfolding skips_candidate_def includes_iff by blast
  have "quota_insufficient amount = ''subscription '' @ ''quota insufficient'' @ '', need='' @ show_int amount"
    by (simp add: quota_insufficient_def)
  then show "skips_candidate (quota_insufficient amount)" unfolding skips_candidate_def includes_iff by blast
  show "\<not> skips_candidate db_error" by code_simp
qed

text \<open>A check reads the store and answers as the condition says unless a statement fails.\<close>

definition answers :: "bool \<Rightarrow> store \<Rightarrow> (string + unit) \<times> store \<Rightarrow> bool" where
  "answers b st res \<longleftrightarrow> bare (snd res) = bare st \<and> calm st (snd res) \<and>
     (case fst res of Inr _ \<Rightarrow> b | Inl e \<Rightarrow> (if skips_candidate e then \<not> b else faults st \<noteq> []))"

lemma check_limits_answers:
  assumes "sub_id s > 0" and "\<forall>(limit, window, label) \<in> set items. window > 0"
  shows "answers (within_limits s amount now (usage st) items) st (check_limits s amount now items st)"
  using assms(2)
proof (induction items arbitrary: st)
  case Nil
  then show ?case by (simp add: answers_def within_limits_def ret_def)
next
  case (Cons item items)
  obtain limit window label where item: "item = (limit, window, label)" by (cases item) auto
  from Cons have IH: "answers (within_limits s amount now (usage st) items) st (check_limits s amount now items st)" for st
    by auto
  show ?case
  proof (cases "limit \<le> 0")
    case True
    with IH item show ?thesis by (simp add: within_limits_def)
  next
    case False
    let ?used = "clampSubscriptionUsage (window_sum (sub_id s) (max (start_time s) (now - window)) (usage st))"
    let ?q = "query (\<lambda>st. clampSubscriptionUsage (window_sum (sub_id s) (max (start_time s) (now - window)) (usage st)))"
    obtain r st' where q: "?q st = (r, st')" by fastforce
    have run: "check_limits s amount now (item # items) st = and_then ?q (\<lambda>used.
        if used + amount > limit then throw (limit_exceeded label) else check_limits s amount now items) st"
      using False item Cons.prems assms(1) by (simp add: getSubscriptionWindowUsageTx_def)
    from q show ?thesis
    proof (cases rule: query_cases)
      case fault
      with run q show ?thesis by (simp add: answers_def and_then_def calm_def)
    next
      case ran: run
      have used: "within_limits s amount now (usage st) (item # items) \<longleftrightarrow> ?used + amount \<le> limit \<and> within_limits s amount now (usage st) items"
        using False item by (auto simp: within_limits_def)
      have "usage st' = usage st" using ran bareD by blast
      with IH [of st'] ran q run used show ?thesis
        by (auto simp: answers_def and_then_def throw_def calm_def split: sum.splits if_splits)
    qed simp
  qed
qed

lemma check_answers:
  assumes "sub_id s > 0" and "amount > 0"
  shows "answers (allowed s amount now (usage st)) st (checkSubscriptionRollingLimitsTx s amount now st)"
proof (cases "amount_total s > 0 \<and> amount_used s + amount > amount_total s")
  case True
  with assms show ?thesis by (auto simp: answers_def checkSubscriptionRollingLimitsTx_def throw_def allowed_def)
next
  case False
  have "\<forall>(limit, window, label) \<in> set (rolling_limits s). window > 0" using windows_positive by auto
  from check_limits_answers [OF assms(1) this] False assms(2) show ?thesis
    by (auto simp: checkSubscriptionRollingLimitsTx_def allowed_def)
qed

section \<open>What the operations do to the tables\<close>

definition ledger_entry :: "user_subscription \<Rightarrow> string \<Rightarrow> int \<Rightarrow> string \<Rightarrow> int \<Rightarrow> usage_ledger" where
  "ledger_entry s requestId delta action now =
     \<lparr>led_user_id = sub_user_id s, led_sub_id = sub_id s, led_request_id = TrimSpace requestId,
      led_delta = delta, led_action = action, led_created_at = now\<rparr>"

text \<open>A subscription with a new amount and the line of the ledger that explains it.\<close>

definition book_usage :: "user_subscription \<Rightarrow> int \<Rightarrow> string \<Rightarrow> int \<Rightarrow> string \<Rightarrow> store \<Rightarrow> store" where
  "book_usage s n requestId delta action st =
     st\<lparr>subs := update_where sub_id (sub_id s) (\<lambda>_. s\<lparr>amount_used := n\<rparr>) (subs st),
        usage := usage st @ [ledger_entry s requestId delta action (clock st)]\<rparr>"

lemma book_usage_bare: "bare st1 = bare st2 \<Longrightarrow> bare (book_usage s n rq d act st1) = bare (book_usage s n rq d act st2)"
  by (simp add: book_usage_def bare_updates bareD [of st1 st2])

lemma timestamp_result:
  assumes "GetDBTimestamp st = (r, st')"
  shows "r = Inr (clock st)" "bare st' = bare st" "calm st st'"
proof -
  have "r = Inr (clock st) \<and> bare st' = bare st \<and> calm st st'"
    using assms unfolding GetDBTimestamp_def
  proof (cases rule: catch_cases)
    case (error msg e1)
    from error(1) have "bare e1 = bare st \<and> faults st \<noteq> []" by (cases rule: query_cases) auto
    with error(2) bareD(11) [of e1 st] show ?thesis by (auto simp: calm_def)
  next
    case (ok x)
    from ok(1) show ?thesis using ok(2) by (cases rule: query_cases) auto
  qed
  then show "r = Inr (clock st)" "bare st' = bare st" "calm st st'" by auto
qed

lemma save_and_book:
  assumes "and_then (save_sub (s\<lparr>amount_used := n\<rparr>))
      (\<lambda>_. createSubscriptionUsageLedgerTx (s\<lparr>amount_used := n\<rparr>) rq d act) st = (r, st')" and "d \<noteq> 0"
  obtains (fault) "r = Inl db_error" "faults st \<noteq> []"
  | (run) "r = Inr ()" "calm st st'" "bare st' = bare (book_usage s n rq d act st)"
  using assms(1)
proof (cases rule: and_then_cases)
  case (error e)
  then show ?thesis unfolding save_sub_def using that by (elim change_cases) auto
next
  case (ok x st1)
  from ok(1) [unfolded save_sub_def]
  have 1: "bare st1 = bare (st\<lparr>subs := update_where sub_id (sub_id s) (\<lambda>_. s\<lparr>amount_used := n\<rparr>) (subs st)\<rparr>)" "calm st st1"
    by (elim change_cases; simp)+
  from ok(2) assms(2) have "change (\<lambda>st. st\<lparr>usage := usage st @ [ledger_entry s rq d act (clock st)]\<rparr>) st1 = (r, st')"
    by (simp add: createSubscriptionUsageLedgerTx_def ledger_entry_def)
  then show ?thesis
  proof (cases rule: change_cases)
    case fault
    with 1 show ?thesis by (intro that(1)) (auto simp: calm_def)
  next
    case run
    have "bare (st1\<lparr>usage := usage st1 @ [ledger_entry s rq d act (clock st1)]\<rparr>) = bare (book_usage s n rq d act st)"
      using 1 bareD(6,11) [OF 1(1)] by (simp add: book_usage_def bare_updates)
    with run 1 show ?thesis by (intro that(2)) (auto intro: calm_trans)
  qed simp
qed

lemma delta_tx_cases:
  assumes "postConsumeUserSubscriptionDeltaTx sid d rq act st = (r, st')" and "0 < d \<longrightarrow> 0 < sid" "d \<noteq> 0"
  obtains (error) e where "r = Inl e"
      "faults st = [] \<Longrightarrow> faults st' = [] \<and> (row sub_id sid (subs st) = None \<or> d > 0 \<or>
         (\<exists>s. row sub_id sid (subs st) = Some s \<and> amount_total s > 0 \<and> max 0 (amount_used s + d) > amount_total s))"
  | (ok) s where "r = Inr ()" "calm st st'" "row sub_id sid (subs st) = Some s"
      "d > 0 \<Longrightarrow> allowed s d (clock st) (usage st)"
      "amount_total s > 0 \<Longrightarrow> max 0 (amount_used s + d) \<le> amount_total s"
      "bare st' = bare (book_usage s (max 0 (amount_used s + d)) rq d act st)"
proof -
  let ?find = "query_first (\<lambda>st. row sub_id sid (subs st))"
  let ?check = "\<lambda>s. if d > 0 then and_then GetDBTimestamp (\<lambda>now. checkSubscriptionRollingLimitsTx s d now) else ret ()"
  let ?n = "\<lambda>s. max 0 (amount_used s + d)"
  from assms(1) show ?thesis unfolding postConsumeUserSubscriptionDeltaTx_def
  proof (cases rule: and_then_cases)
    case (error e)
    from error(1) show ?thesis using error(2) that(1) [of e] by (cases rule: query_first_cases) (auto simp: calm_def)
  next
    case (ok s st1)
    from ok(1) have s: "row sub_id sid (subs st) = Some s" "bare st1 = bare st" "calm st st1"
      by (cases rule: query_first_cases; simp)+
    have id: "sub_id s = sid" using s(1) row_Some by fastforce
    have check: "answers (d > 0 \<longrightarrow> allowed s d (clock st) (usage st)) st1 (?check s st1)"
    proof (cases "d > 0")
      case True
      obtain t st2 where t: "GetDBTimestamp st1 = (t, st2)" by fastforce
      note t' = timestamp_result [OF t]
      have "answers (allowed s d (clock st1) (usage st2)) st2 (checkSubscriptionRollingLimitsTx s d (clock st1) st2)"
        using check_answers True id assms(2) by blast
      then show ?thesis using True t t' bareD(6,11) [OF s(2)] bareD(6) [OF t'(2)]
        by (auto simp: and_then_def answers_def calm_def split: sum.splits if_splits)
    qed (simp add: answers_def ret_def)
    from ok(2) show ?thesis
    proof (cases rule: and_then_cases)
      case (error e)
      with check s have "faults st = [] \<longrightarrow> faults st' = [] \<and> d > 0"
        by (auto simp: answers_def calm_def ret_def split: if_splits)
      with error show ?thesis by (intro that(1) [of e]) auto
    next
      case (ok x st2)
      with check have ck: "d > 0 \<longrightarrow> allowed s d (clock st) (usage st)" "bare st2 = bare st1" "calm st1 st2"
        by (auto simp: answers_def)
      show ?thesis
      proof (cases "amount_total s > 0 \<and> ?n s > amount_total s")
        case True
        with ok(2) s ck show ?thesis by (auto simp: Let_def calm_def intro: that(1))
      next
        case False
        with ok(2) have "and_then (save_sub (s\<lparr>amount_used := ?n s\<rparr>))
            (\<lambda>_. createSubscriptionUsageLedgerTx (s\<lparr>amount_used := ?n s\<rparr>) rq d act) st2 = (r, st')"
          by (simp add: Let_def)
        then show ?thesis using assms(3)
        proof (cases rule: save_and_book)
          case fault
          with s ck show ?thesis by (intro that(1) [of db_error]) (auto simp: calm_def)
        next
          case run
          have "bare st2 = bare st" using ck s by simp
          with book_usage_bare [OF this] run s ck False show ?thesis
            by (intro that(2) [of s]) (auto simp: calm_def)
        qed
      qed
    qed
  qed
qed

text \<open>Why a change of a subscription can be refused although the database works.\<close>

definition refused :: "int \<Rightarrow> int \<Rightarrow> store \<Rightarrow> bool" where
  "refused sid d st \<longleftrightarrow> row sub_id sid (subs st) = None \<or> d > 0 \<or>
     (\<exists>s. row sub_id sid (subs st) = Some s \<and> amount_total s > 0 \<and> max 0 (amount_used s + d) > amount_total s)"

lemma post_delta_cases:
  assumes "PostConsumeUserSubscriptionDelta sid d st = (r, st')" and "sid > 0" "d \<noteq> 0"
  obtains (error) e where "r = Inl e" "bare st' = bare st" "faults st = [] \<Longrightarrow> faults st' = [] \<and> refused sid d st"
  | (ok) s where "r = Inr ()" "calm st st'" "row sub_id sid (subs st) = Some s"
      "d > 0 \<Longrightarrow> allowed s d (clock st) (usage st)"
      "amount_total s > 0 \<Longrightarrow> max 0 (amount_used s + d) \<le> amount_total s"
      "bare st' = bare (book_usage s (max 0 (amount_used s + d)) [] d ''settle'' st)"
proof -
  from assms(2) have pos: "0 < d \<longrightarrow> 0 < sid" by simp
  let ?m = "postConsumeUserSubscriptionDeltaTx sid d [] ''settle''"
  obtain x st1 where m: "?m st = (x, st1)" by fastforce
  from assms have "transaction ?m st = (r, st')" by (simp add: PostConsumeUserSubscriptionDelta_def)
  then show ?thesis
  proof (cases rule: transaction_cases)
    case (fault e)
    from m pos assms(3) show ?thesis
    proof (cases rule: delta_tx_cases)
      case (error e')
      with m fault show ?thesis by (intro that(1) [of e]) (auto simp: calm_def refused_def)
    next
      case (ok s)
      with m fault show ?thesis by (intro that(1) [of e]) (auto simp: calm_def)
    qed
  next
    case (commit y st2)
    from commit(1) pos assms(3) show ?thesis
    proof (cases rule: delta_tx_cases)
      case (ok s)
      with commit show ?thesis by (intro that(2) [of s]) auto
    qed simp
  qed
qed

definition mark_refunded :: "pre_consume_record \<Rightarrow> store \<Rightarrow> store" where
  "mark_refunded r st =
     st\<lparr>records := update_where rec_request_id (rec_request_id r)
       (\<lambda>_. r\<lparr>rec_status := ''refunded'', rec_updated_at := clock st\<rparr>) (records st)\<rparr>"

lemma mark_refunded_bare: "bare st1 = bare st2 \<Longrightarrow> bare (mark_refunded r st1) = bare (mark_refunded r st2)"
  by (simp add: mark_refunded_def bare_updates bareD [of st1 st2])

lemma refund_tx_cases:
  assumes "and_then (postConsumeUserSubscriptionDeltaTx sid d rq ''refund'')
      (\<lambda>_. save_record (rec\<lparr>rec_status := ''refunded''\<rparr>)) st = (r, st')" and "d < 0"
  obtains (error) e where "r = Inl e" "faults st = [] \<Longrightarrow> faults st' = [] \<and> refused sid d st"
  | (ok) s where "r = Inr ()" "calm st st'" "row sub_id sid (subs st) = Some s"
      "amount_total s > 0 \<Longrightarrow> max 0 (amount_used s + d) \<le> amount_total s"
      "bare st' = bare (mark_refunded rec (book_usage s (max 0 (amount_used s + d)) rq d ''refund'' st))"
proof -
  from assms(2) have neg: "0 < d \<longrightarrow> 0 < sid" "d \<noteq> 0" by simp_all
  from assms(1) show ?thesis
  proof (cases rule: and_then_cases)
    case (error e)
    from error(1) neg show ?thesis using error(2) that(1) by (cases rule: delta_tx_cases) (auto simp: refused_def)
  next
    case (ok x st1)
    from ok(1) neg obtain s where s: "calm st st1" "row sub_id sid (subs st) = Some s"
        "amount_total s > 0 \<Longrightarrow> max 0 (amount_used s + d) \<le> amount_total s"
        "bare st1 = bare (book_usage s (max 0 (amount_used s + d)) rq d ''refund'' st)"
      by (cases rule: delta_tx_cases) auto
    from ok(2) [unfolded save_record_def] show ?thesis
    proof (cases rule: change_cases)
      case fault
      with s show ?thesis by (intro that(1)) (auto simp: calm_def)
    next
      case run
      then have "bare st' = bare (mark_refunded rec st1)" by (simp add: mark_refunded_def)
      with run s mark_refunded_bare [OF s(4)] show ?thesis by (intro that(2) [of s]) (auto intro: calm_trans)
    qed simp
  qed
qed

lemma refund_cases:
  assumes "RefundSubscriptionPreConsume rq st = (r, st')" and "row rec_request_id rq (records st) = Some rec"
    and "rec_pre_consumed rec > 0" "TrimSpace rq \<noteq> []"
  obtains (error) e where "r = Inl e" "bare st' = bare st" "rec_status rec \<noteq> ''refunded'' \<or> faults st \<noteq> []"
      "faults st = [] \<Longrightarrow> faults st' = [] \<and> refused (rec_sub_id rec) (- rec_pre_consumed rec) st"
  | (again) "r = Inr ()" "rec_status rec = ''refunded''" "bare st' = bare st" "calm st st'"
  | (ok) s where "r = Inr ()" "rec_status rec \<noteq> ''refunded''" "calm st st'" "row sub_id (rec_sub_id rec) (subs st) = Some s"
      "amount_total s > 0 \<Longrightarrow> max 0 (amount_used s - rec_pre_consumed rec) \<le> amount_total s"
      "bare st' = bare (mark_refunded rec (book_usage s (max 0 (amount_used s - rec_pre_consumed rec)) rq (- rec_pre_consumed rec) ''refund'' st))"
proof -
  let ?m = "and_then (query_first (\<lambda>st. row rec_request_id rq (records st))) (\<lambda>r.
        if rec_status r = ''refunded'' then ret ()
        else if rec_pre_consumed r \<le> 0 then save_record (r\<lparr>rec_status := ''refunded''\<rparr>)
        else and_then (postConsumeUserSubscriptionDeltaTx (rec_sub_id r) (- rec_pre_consumed r) (rec_request_id r) ''refund'')
               (\<lambda>_. save_record (r\<lparr>rec_status := ''refunded''\<rparr>)))"
  have rq: "rec_request_id rec = rq" using assms(2) row_Some by fastforce
  have body: "(\<exists>e. x = Inl e \<and> (rec_status rec \<noteq> ''refunded'' \<or> faults st \<noteq> []) \<and>
        (faults st = [] \<longrightarrow> faults st1 = [] \<and> refused (rec_sub_id rec) (- rec_pre_consumed rec) st)) \<or>
      (x = Inr () \<and> rec_status rec = ''refunded'' \<and> bare st1 = bare st \<and> calm st st1) \<or>
      (x = Inr () \<and> rec_status rec \<noteq> ''refunded'' \<and> calm st st1 \<and> (\<exists>s. row sub_id (rec_sub_id rec) (subs st) = Some s \<and>
        (amount_total s > 0 \<longrightarrow> max 0 (amount_used s - rec_pre_consumed rec) \<le> amount_total s) \<and>
        bare st1 = bare (mark_refunded rec (book_usage s (max 0 (amount_used s - rec_pre_consumed rec)) rq (- rec_pre_consumed rec) ''refund'' st))))"
    if m: "?m st = (x, st1)" for x st1
    using m
  proof (cases rule: and_then_cases)
    case (error e)
    from error(1) show ?thesis using error(2) assms(2) by (cases rule: query_first_cases) auto
  next
    case (ok y st2)
    from ok(1) assms(2) have y: "y = rec" "bare st2 = bare st" "calm st st2" by (cases rule: query_first_cases; simp)+
    show ?thesis
    proof (cases "rec_status rec = ''refunded''")
      case True
      with ok(2) y show ?thesis by simp
    next
      case False
      with ok(2) y assms(3) rq have
        "and_then (postConsumeUserSubscriptionDeltaTx (rec_sub_id rec) (- rec_pre_consumed rec) rq ''refund'')
           (\<lambda>_. save_record (rec\<lparr>rec_status := ''refunded''\<rparr>)) st2 = (x, st1)" by simp
      moreover have "- rec_pre_consumed rec < 0" using assms(3) by simp
      ultimately show ?thesis
      proof (cases rule: refund_tx_cases)
        case (error e)
        then have "faults st = [] \<longrightarrow> faults st1 = [] \<and> refused (rec_sub_id rec) (- rec_pre_consumed rec) st"
          using y bareD(5) [OF y(2)] by (auto simp: calm_def refused_def)
        with error False show ?thesis by auto
      next
        case (ok s)
        with y False bareD(5) [OF y(2)] mark_refunded_bare [OF book_usage_bare [OF y(2)]] show ?thesis
          by (auto intro: calm_trans)
      qed
    qed
  qed
  from assms have "transaction ?m st = (r, st')" by (simp add: RefundSubscriptionPreConsume_def)
  then show ?thesis
  proof (cases rule: transaction_cases)
    case (fault e)
    obtain x st1 where m: "?m st = (x, st1)" by fastforce
    with body [OF m] fault show ?thesis by (intro that(1) [of e]) (auto simp: calm_def)
  next
    case (commit x st1)
    with body [OF commit(1)] that(2,3) show ?thesis by auto
  qed
qed

definition new_record :: "string \<Rightarrow> int \<Rightarrow> int \<Rightarrow> int \<Rightarrow> store \<Rightarrow> store" where
  "new_record rq uid sid amount st =
     st\<lparr>records := records st @ [\<lparr>rec_request_id = rq, rec_user_id = uid, rec_sub_id = sid,
        rec_pre_consumed = amount, rec_status = ''consumed'', rec_updated_at = clock st\<rparr>]\<rparr>"

definition taken :: "string \<Rightarrow> int \<Rightarrow> int \<Rightarrow> user_subscription \<Rightarrow> store \<Rightarrow> store" where
  "taken rq uid amount s st =
     book_usage s (amount_used s + amount) rq amount ''pre_consume'' (new_record rq uid (sub_id s) amount st)"

definition result_of :: "int \<Rightarrow> user_subscription \<Rightarrow> pre_consume_result" where
  "result_of amount s =
     \<lparr>res_sub_id = sub_id s, res_pre_consumed = amount, res_amount_total = amount_total s,
      res_used_before = amount_used s, res_used_after = amount_used s + amount\<rparr>"

lemma taken_bare: "bare st1 = bare st2 \<Longrightarrow> bare (taken rq uid amount s st1) = bare (taken rq uid amount s st2)"
  by (simp add: taken_def book_usage_def new_record_def bare_updates bareD [of st1 st2])

lemma consume_candidate_cases:
  assumes "consume_candidate rq uid amount s st = (r, st')" and "amount \<noteq> 0" "row rec_request_id rq (records st) = None"
  obtains (fault) e where "r = Inl e" "faults st \<noteq> []"
  | (run) "r = Inr (result_of amount s)" "calm st st'" "bare st' = bare (taken rq uid amount s st)"
proof -
  let ?rec = "\<lparr>rec_request_id = rq, rec_user_id = uid, rec_sub_id = sub_id s, rec_pre_consumed = amount,
    rec_status = ''consumed'', rec_updated_at = 0\<rparr>"
  obtain c st1 where c: "create_record ?rec st = (c, st1)" by fastforce
  from c [unfolded create_record_def] show ?thesis
  proof (cases rule: stmt_cases)
    case fault
    have none: "row rec_request_id rq (records st1) = None" using assms(3) bareD(7) [OF fault(2)] by simp
    obtain q st2 where q: "query_first (\<lambda>st. row rec_request_id rq (records st)) st1 = (q, st2)" by fastforce
    then have "\<exists>e. q = Inl e" using none by (cases rule: query_first_cases) auto
    with q fault c assms(1) show ?thesis by (auto simp: consume_candidate_def intro: that(1))
  next
    case (run st2)
    have none: "row rec_request_id rq (records st2) = None" using assms(3) bareD(7) [OF run(2)] by simp
    with run have st1: "c = Inr ()" "bare st1 = bare (new_record rq uid (sub_id s) amount st)" "calm st st1"
      using bareD(7,11) [OF run(2)] by (auto simp: new_record_def bare_updates calm_def)
    with c assms(1) have "take_from_sub rq uid amount s st1 = (r, st')" by (simp add: consume_candidate_def)
    then have run2: "and_then (and_then (save_sub (s\<lparr>amount_used := amount_used s + amount\<rparr>))
        (\<lambda>_. createSubscriptionUsageLedgerTx (s\<lparr>amount_used := amount_used s + amount\<rparr>) rq amount ''pre_consume''))
        (\<lambda>_. ret (result_of amount s)) st1 = (r, st')"
      by (simp add: take_from_sub_def Let_def and_then_def result_of_def split: prod.splits sum.splits)
    then show ?thesis
    proof (cases rule: and_then_cases)
      case (error e)
      from error(1) assms(2) show ?thesis using error(2) st1(3) that(1)
        by (cases rule: save_and_book) (auto simp: calm_def)
    next
      case (ok x st3)
      from ok(1) assms(2) have "calm st1 st3" "bare st3 = bare (book_usage s (amount_used s + amount) rq amount ''pre_consume'' st1)"
        by (cases rule: save_and_book; simp)+
      with ok(2) st1 book_usage_bare [OF st1(2)] show ?thesis
        by (intro that(2)) (auto simp: taken_def intro: calm_trans)
    qed
  qed
qed

definition eligible :: "string \<Rightarrow> int \<Rightarrow> store \<Rightarrow> user_subscription \<Rightarrow> bool" where
  "eligible modelName amount st s \<longleftrightarrow> AllowsModel s modelName \<and> allowed s amount (clock st) (usage st)"

lemma try_candidates_cases:
  assumes "try_candidates rq uid modelName amount (clock st) cs st = (r, st')"
    and "row rec_request_id rq (records st) = None" "amount > 0" "\<forall>s \<in> set cs. sub_id s > 0"
  shows "(\<exists>e. r = Inl e \<and> (faults st = [] \<longrightarrow> faults st' = [] \<and> List.find (eligible modelName amount st) cs = None)) \<or>
    (\<exists>s. List.find (eligible modelName amount st) cs = Some s \<and> r = Inr (result_of amount s) \<and> calm st st' \<and>
       bare st' = bare (taken rq uid amount s st))"
  using assms
proof (induction cs arbitrary: st)
  case Nil
  then show ?case by auto
next
  case (Cons s cs)
  show ?case
  proof (cases "AllowsModel s modelName")
    case False
    with Cons show ?thesis by (simp add: eligible_def)
  next
    case True
    obtain c st1 where c: "checkSubscriptionRollingLimitsTx s amount (clock st) st = (c, st1)" by fastforce
    have ans: "answers (allowed s amount (clock st) (usage st)) st (c, st1)"
      using check_answers [of s amount "clock st" st] Cons.prems(3,4) c by simp
    then have st1: "bare st1 = bare st" "calm st st1" by (simp_all add: answers_def)
    have same: "clock st1 = clock st" "eligible modelName amount st1 = eligible modelName amount st"
      "row rec_request_id rq (records st1) = None"
      using bareD [OF st1(1)] Cons.prems(2) by (simp_all add: eligible_def fun_eq_iff)
    show ?thesis
    proof (cases c)
      case (Inl e)
      show ?thesis
      proof (cases "skips_candidate e")
        case False
        with Inl ans Cons.prems(1) True c show ?thesis by (auto simp: answers_def)
      next
        case skip: True
        with Inl ans have no: "\<not> eligible modelName amount st s" by (simp add: answers_def eligible_def)
        from Inl skip True c Cons.prems(1) same(1) have
          "try_candidates rq uid modelName amount (clock st1) cs st1 = (r, st')" by simp
        from Cons.IH [OF this same(3)] Cons.prems(3,4) same(2) no st1 taken_bare [OF st1(1)]
        show ?thesis by (auto simp: calm_def)
      qed
    next
      case (Inr x)
      with ans True have yes: "eligible modelName amount st s" by (simp add: answers_def eligible_def)
      from Inr True c Cons.prems(1) have "consume_candidate rq uid amount s st1 = (r, st')" by simp
      moreover have "amount \<noteq> 0" using Cons.prems(3) by simp
      ultimately show ?thesis using same(3)
      proof (cases rule: consume_candidate_cases)
        case (fault e)
        with st1 show ?thesis by (auto simp: calm_def)
      next
        case run
        with yes st1 taken_bare [OF st1(1)] show ?thesis by (auto intro: calm_trans)
      qed
    qed
  qed
qed

definition candidates :: "int \<Rightarrow> store \<Rightarrow> user_subscription list" where
  "candidates uid st = js_sort ends_before (filter (is_active uid (clock st)) (subs st))"

lemma set_candidates: "set (candidates uid st) = {s \<in> set (subs st). is_active uid (clock st) s}"
  by (simp add: candidates_def)

lemma new_request_result:
  assumes "new_request rq uid modelName amount (clock st) st = (r, st')"
    and "row rec_request_id rq (records st) = None" "amount > 0" "\<forall>s \<in> set (subs st). sub_id s > 0"
  shows "(\<exists>e. r = Inl e \<and> (faults st = [] \<longrightarrow> faults st' = [] \<and> List.find (eligible modelName amount st) (candidates uid st) = None)) \<or>
    (\<exists>s. List.find (eligible modelName amount st) (candidates uid st) = Some s \<and> r = Inr (result_of amount s) \<and> calm st st' \<and>
       bare st' = bare (taken rq uid amount s st))"
  using assms(1) unfolding new_request_def
proof (cases rule: and_then_cases)
  case (error e)
  from error(1) show ?thesis
  proof (cases rule: catch_cases)
    case (error msg st1)
    from error(1) have "faults st \<noteq> []" by (cases rule: query_cases) auto
    with \<open>r = Inl e\<close> show ?thesis by simp
  qed simp
next
  case (ok cs st1)
  from ok(1) have "cs = candidates uid st \<and> bare st1 = bare st \<and> calm st st1"
  proof (cases rule: catch_cases)
    case (ok x)
    from ok(1) show ?thesis using ok(2) by (cases rule: query_cases) (simp_all add: candidates_def)
  qed simp
  then have st1: "cs = candidates uid st" "bare st1 = bare st" "calm st st1" by blast+
  show ?thesis
  proof (cases "cs = []")
    case True
    with ok(2) st1 show ?thesis by (auto simp: calm_def)
  next
    case False
    have same: "clock st1 = clock st" "eligible modelName amount st1 = eligible modelName amount st"
      "row rec_request_id rq (records st1) = None"
      using bareD [OF st1(2)] assms(2) by (simp_all add: eligible_def fun_eq_iff)
    from False ok(2) have run: "try_candidates rq uid modelName amount (clock st1) cs st1 = (r, st')" by (simp add: same)
    have pos: "\<forall>s \<in> set cs. sub_id s > 0" using assms(4) st1(1) by (simp add: set_candidates)
    from try_candidates_cases [OF run same(3) assms(3) pos] show ?thesis
    proof (elim disjE exE conjE)
      fix e assume "r = Inl e" "faults st1 = [] \<longrightarrow> faults st' = [] \<and> List.find (eligible modelName amount st1) cs = None"
      with st1 same(2) show ?thesis by (intro disjI1) (simp add: calm_def)
    next
      fix s assume "List.find (eligible modelName amount st1) cs = Some s" "r = Inr (result_of amount s)"
        "calm st1 st'" "bare st' = bare (taken rq uid amount s st1)"
      with st1 same(2) taken_bare [OF st1(2), of rq uid amount s] show ?thesis
        by (intro disjI2 exI [of _ s]) (simp add: calm_def)
    qed
  qed
qed

lemma known_request_result:
  assumes "known_request existing st = (r, st')"
  shows "bare st' = bare st" "calm st st'"
  using assms
  by (auto simp: known_request_def calm_def split: if_splits elim!: and_then_cases query_first_cases)

lemma pre_consume_result:
  assumes "PreConsumeUserSubscription rq uid modelName amount st = (r, st')"
    and "row rec_request_id rq (records st) = None" "\<forall>s \<in> set (subs st). sub_id s > 0"
  shows "(\<exists>e. r = Inl e \<and> bare st' = bare st \<and> calm st st' \<and> (faults st = [] \<longrightarrow> uid > 0 \<longrightarrow> TrimSpace rq \<noteq> [] \<longrightarrow> amount > 0 \<longrightarrow>
      List.find (eligible modelName amount st) (candidates uid st) = None)) \<or>
    (\<exists>s. List.find (eligible modelName amount st) (candidates uid st) = Some s \<and> r = Inr (result_of amount s) \<and> calm st st' \<and>
       bare st' = bare (taken rq uid amount s st) \<and> uid > 0 \<and> TrimSpace rq \<noteq> [] \<and> amount > 0)"
proof (cases "uid > 0 \<and> TrimSpace rq \<noteq> [] \<and> amount > 0")
  case False
  with assms(1) show ?thesis by (auto simp: PreConsumeUserSubscription_def split: if_splits)
next
  case True
  obtain t st1 where t: "GetDBTimestamp st = (t, st1)" by fastforce
  note st1 = timestamp_result [OF t]
  let ?m = "and_then (query (\<lambda>st. row rec_request_id rq (records st))) (\<lambda>found.
      case found of Some existing \<Rightarrow> known_request existing | None \<Rightarrow> new_request rq uid modelName amount (clock st))"
  from True t st1 assms(1) have run: "transaction ?m st1 = (r, st')"
    by (auto simp: PreConsumeUserSubscription_def and_then_def)
  have same: "clock st1 = clock st" "eligible modelName amount st1 = eligible modelName amount st"
      "candidates uid st1 = candidates uid st" "row rec_request_id rq (records st1) = None" "subs st1 = subs st"
    using bareD [OF st1(2)] assms(2) by (simp_all add: eligible_def candidates_def fun_eq_iff)
  have body: "(\<exists>e. x = Inl e \<and> (faults st1 = [] \<longrightarrow> faults st2 = [] \<and> List.find (eligible modelName amount st) (candidates uid st) = None)) \<or>
    (\<exists>s. List.find (eligible modelName amount st) (candidates uid st) = Some s \<and> x = Inr (result_of amount s) \<and> calm st1 st2 \<and>
       bare st2 = bare (taken rq uid amount s st1))" if m: "?m st1 = (x, st2)" for x st2
    using m
  proof (cases rule: and_then_cases)
    case (error e)
    from error(1) show ?thesis using error(2) by (cases rule: query_cases) auto
  next
    case (ok y st3)
    from ok(1) have y: "y = None" "bare st3 = bare st1" "calm st1 st3"
      using same(4) by (cases rule: query_cases; simp)+
    have same3: "clock st3 = clock st" "eligible modelName amount st3 = eligible modelName amount st"
      "candidates uid st3 = candidates uid st" "row rec_request_id rq (records st3) = None" "subs st3 = subs st"
      using bareD [OF y(2)] same by (simp_all add: eligible_def candidates_def fun_eq_iff)
    from ok(2) y(1) have "new_request rq uid modelName amount (clock st3) st3 = (x, st2)" by (simp add: same3)
    note run = this
    from True assms(3) have "amount > 0" "\<forall>s \<in> set (subs st3). sub_id s > 0" by (simp_all add: same3)
    from new_request_result [OF run same3(4) this] show ?thesis
    proof (elim disjE exE conjE)
      fix e assume "x = Inl e" "faults st3 = [] \<longrightarrow> faults st2 = [] \<and>
        List.find (eligible modelName amount st3) (candidates uid st3) = None"
      with y same3 show ?thesis by (intro disjI1) (simp add: calm_def)
    next
      fix s assume "List.find (eligible modelName amount st3) (candidates uid st3) = Some s" "x = Inr (result_of amount s)"
        "calm st3 st2" "bare st2 = bare (taken rq uid amount s st3)"
      with y same3 taken_bare [OF y(2), of rq uid amount s] show ?thesis
        by (intro disjI2 exI [of _ s]) (simp add: calm_def)
    qed
  qed
  from run show ?thesis
  proof (cases rule: transaction_cases)
    case (fault e)
    obtain x st2 where m: "?m st1 = (x, st2)" by fastforce
    from fault m st1 have "r = Inl e" "bare st' = bare st" by simp_all
    moreover from body [OF m] fault m st1 have "calm st st'" by (auto simp: calm_def)
    moreover from body [OF m] fault m st1
    have "faults st = [] \<longrightarrow> List.find (eligible modelName amount st) (candidates uid st) = None" by (auto simp: calm_def)
    ultimately show ?thesis by blast
  next
    case (commit x st2)
    with body [OF commit(1)] obtain s where "List.find (eligible modelName amount st) (candidates uid st) = Some s"
      "x = result_of amount s" "calm st1 st2" "bare st2 = bare (taken rq uid amount s st1)" by auto
    with commit True st1 taken_bare [OF st1(2), of rq uid amount s] show ?thesis
      by (intro disjI2 exI [of _ s]) (simp add: calm_def)
  qed
qed

end
