(* ===== verification/Billing_Session.thy ===== *)
theory Billing_Session
  imports Subscription_Store
begin

text \<open>
  The billing of one request, from \<^verbatim>\<open>service/billing_session.go\<close>, \<^verbatim>\<open>service/funding_source.go\<close>,
  \<^verbatim>\<open>service/billing.go\<close>, \<^verbatim>\<open>service/quota.go\<close> and \<^verbatim>\<open>service/pre_consume_quota.go\<close>: quota is taken from
  a funding source and from the token before the request is sent, may be raised while it runs, and is settled or
  refunded at its end. The mutex of a session makes each of its methods one step; the refund is a task that runs
  later. Log lines and notifications do not touch the store and are left out, as are the title and number of the plan
  that a session copies for the log.
\<close>

section \<open>Requests, sessions and errors\<close>

record relay_info =
  ri_user_id :: int
  ri_token_id :: int
  ri_token_key :: string
  ri_token_unlimited :: bool
  ri_is_playground :: bool
  ri_force_pre_consume :: bool
  ri_request_id :: string
  ri_origin_model_name :: string
  ri_billing_preference :: string
  ri_user_quota :: int
  ri_final_pre_consumed_quota :: int
  ri_billing_source :: string
  ri_subscription_id :: int
  ri_subscription_pre_consumed :: int
  ri_subscription_post_delta :: int
  ri_subscription_amount_total :: int
  ri_subscription_used_after :: int

datatype error_code =
  ErrorCodeInsufficientUserQuota | ErrorCodeQueryDataError | ErrorCodeUpdateDataError
| ErrorCodePreConsumeTokenQuotaFailed

type_synonym api_error = "error_code \<times> string"

record wallet_funding =
  wf_user_id :: int
  wf_consumed :: int

record subscription_funding =
  sf_request_id :: string
  sf_user_id :: int
  sf_model_name :: string
  sf_amount :: int
  sf_subscription_id :: int
  sf_pre_consumed :: int
  sf_amount_total :: int
  sf_amount_used_after :: int

datatype funding_source = WalletFunding wallet_funding | SubscriptionFunding subscription_funding

record billing_session =
  bs_info :: relay_info
  bs_funding :: funding_source
  bs_pre_consumed_quota :: int
  bs_token_consumed :: int
  bs_extra_reserved :: int
  bs_trusted :: bool
  bs_funding_settled :: bool
  bs_settled :: bool
  bs_refunded :: bool

definition BillingSourceWallet :: string where
  "BillingSourceWallet = ''wallet''"

definition BillingSourceSubscription :: string where
  "BillingSourceSubscription = ''subscription''"

section \<open>Funding sources\<close>

fun funding_Source :: "funding_source \<Rightarrow> string" where
  "funding_Source (WalletFunding _) = BillingSourceWallet"
| "funding_Source (SubscriptionFunding _) = BillingSourceSubscription"

definition wallet_PreConsume :: "wallet_funding \<Rightarrow> int \<Rightarrow> (store, string, wallet_funding) effect" where
  "wallet_PreConsume w amount =
     (if amount \<le> 0 then ret w
      else and_then (DecreaseUserQuota (wf_user_id w) amount False) (\<lambda>_. ret (w\<lparr>wf_consumed := amount\<rparr>)))"

definition subscription_PreConsume :: "subscription_funding \<Rightarrow> (store, string, subscription_funding) effect" where
  "subscription_PreConsume s =
     and_then (PreConsumeUserSubscription (sf_request_id s) (sf_user_id s) (sf_model_name s) (sf_amount s)) (\<lambda>res.
       ret (s\<lparr>sf_subscription_id := res_sub_id res, sf_pre_consumed := res_pre_consumed res,
              sf_amount_total := res_amount_total res, sf_amount_used_after := res_used_after res\<rparr>))"

fun funding_PreConsume :: "funding_source \<Rightarrow> int \<Rightarrow> (store, string, funding_source) effect" where
  "funding_PreConsume (WalletFunding w) amount =
     and_then (wallet_PreConsume w amount) (\<lambda>w'. ret (WalletFunding w'))"
| "funding_PreConsume (SubscriptionFunding s) amount =
     and_then (subscription_PreConsume s) (\<lambda>s'. ret (SubscriptionFunding s'))"

fun funding_Settle :: "funding_source \<Rightarrow> int \<Rightarrow> (store, string, unit) effect" where
  "funding_Settle (WalletFunding w) delta =
     (if delta = 0 then ret ()
      else if delta > 0 then DecreaseUserQuota (wf_user_id w) delta False
      else IncreaseUserQuota (wf_user_id w) (- delta))"
| "funding_Settle (SubscriptionFunding s) delta =
     (if delta = 0 then ret () else PostConsumeUserSubscriptionDelta (sf_subscription_id s) delta)"

fun refund_attempts :: "nat \<Rightarrow> (store, string, unit) effect \<Rightarrow> (store, string, unit) effect" where
  "refund_attempts 0 fn st = (Inr (), st)"
| "refund_attempts (Suc n) fn st =
     (case fn st of
        (Inr _, st') \<Rightarrow> (Inr (), st')
      | (Inl err, st') \<Rightarrow> (if n = 0 then (Inl err, st') else refund_attempts n fn st'))"

definition refundWithRetry :: "(store, string, unit) effect \<Rightarrow> (store, string, unit) effect" where
  "refundWithRetry fn = refund_attempts 3 fn"

fun funding_Refund :: "funding_source \<Rightarrow> (store, string, unit) effect" where
  "funding_Refund (WalletFunding w) =
     (if wf_consumed w \<le> 0 then ret () else IncreaseUserQuota (wf_user_id w) (wf_consumed w))"
| "funding_Refund (SubscriptionFunding s) =
     (if sf_pre_consumed s \<le> 0 then ret () else refundWithRetry (RefundSubscriptionPreConsume (sf_request_id s)))"

section \<open>The methods of a session\<close>

definition PreConsumeTokenQuota :: "relay_info \<Rightarrow> int \<Rightarrow> (store, string, unit) effect" where
  "PreConsumeTokenQuota info quota =
     (if quota < 0 then throw negative_quota
      else if ri_is_playground info then ret ()
      else and_then (GetTokenByKey (ri_token_key info)) (\<lambda>token.
        if \<not> ri_token_unlimited info \<and> remain_quota token < quota then throw ''token quota is not enough''
        else DecreaseTokenQuota (ri_token_id info) quota))"

definition adjust_token :: "relay_info \<Rightarrow> int \<Rightarrow> (store, string, unit) effect" where
  "adjust_token info delta =
     (if ri_is_playground info then ret ()
      else if delta > 0 then DecreaseTokenQuota (ri_token_id info) delta
      else IncreaseTokenQuota (ri_token_id info) (- delta))"

text \<open>The mark \<open>settled\<close> is set even when only the token could not be adjusted.\<close>

definition finish_settle :: "int \<Rightarrow> billing_session \<Rightarrow> store \<Rightarrow> (string + unit) \<times> billing_session \<times> store" where
  "finish_settle delta s st =
     (let (r, st') = adjust_token (bs_info s) delta st;
          info = (if funding_Source (bs_funding s) = BillingSourceSubscription
                  then (bs_info s)\<lparr>ri_subscription_post_delta := ri_subscription_post_delta (bs_info s) + delta\<rparr>
                  else bs_info s)
      in (r, s\<lparr>bs_info := info, bs_settled := True\<rparr>, st'))"

definition Settle :: "int \<Rightarrow> billing_session \<Rightarrow> store \<Rightarrow> (string + unit) \<times> billing_session \<times> store" where
  "Settle actualQuota s st =
     (let delta = actualQuota - bs_pre_consumed_quota s
      in if bs_settled s then (Inr (), s, st)
         else if delta = 0 then (Inr (), s\<lparr>bs_settled := True\<rparr>, st)
         else if bs_funding_settled s then finish_settle delta s st
         else (case funding_Settle (bs_funding s) delta st of
                 (Inl err, st') \<Rightarrow> (Inl err, s, st')
               | (Inr _, st') \<Rightarrow> finish_settle delta (s\<lparr>bs_funding_settled := True\<rparr>) st'))"

definition needsRefundLocked :: "billing_session \<Rightarrow> bool" where
  "needsRefundLocked s \<longleftrightarrow>
     \<not> (bs_settled s \<or> bs_refunded s \<or> bs_funding_settled s) \<and>
     (bs_token_consumed s > 0 \<or>
      (case bs_funding s of SubscriptionFunding sub \<Rightarrow> sf_pre_consumed sub > 0 | _ \<Rightarrow> False))"

record refund_task =
  rt_token_id :: int
  rt_is_playground :: bool
  rt_token_consumed :: int
  rt_extra_reserved :: int
  rt_subscription_id :: int
  rt_funding :: funding_source

definition Refund :: "billing_session \<Rightarrow> billing_session \<times> refund_task option" where
  "Refund s =
     (if bs_settled s \<or> bs_refunded s \<or> \<not> needsRefundLocked s then (s, None)
      else (s\<lparr>bs_refunded := True\<rparr>,
            Some \<lparr>rt_token_id = ri_token_id (bs_info s), rt_is_playground = ri_is_playground (bs_info s),
                  rt_token_consumed = bs_token_consumed s, rt_extra_reserved = bs_extra_reserved s,
                  rt_subscription_id = ri_subscription_id (bs_info s), rt_funding = bs_funding s\<rparr>))"

text \<open>The task that a refund leaves to the pool; its errors are only logged.\<close>

definition refund_extra :: "refund_task \<Rightarrow> (store, string, unit) effect" where
  "refund_extra t =
     (if rt_extra_reserved t > 0 \<and> funding_Source (rt_funding t) = BillingSourceSubscription \<and> rt_subscription_id t > 0
      then PostConsumeUserSubscriptionDelta (rt_subscription_id t) (- rt_extra_reserved t)
      else ret ())"

definition refund_token :: "refund_task \<Rightarrow> (store, string, unit) effect" where
  "refund_token t =
     (if rt_token_consumed t > 0 \<and> \<not> rt_is_playground t then IncreaseTokenQuota (rt_token_id t) (rt_token_consumed t)
      else ret ())"

definition run_refund :: "refund_task \<Rightarrow> store \<Rightarrow> store" where
  "run_refund t st = snd (refund_token t (snd (refund_extra t (snd (funding_Refund (rt_funding t) st)))))"

definition syncRelayInfo :: "billing_session \<Rightarrow> billing_session" where
  "syncRelayInfo s =
     s\<lparr>bs_info :=
       (let info = (bs_info s)\<lparr>ri_final_pre_consumed_quota := bs_pre_consumed_quota s,
                               ri_billing_source := funding_Source (bs_funding s)\<rparr>
        in case bs_funding s of
             SubscriptionFunding sub \<Rightarrow>
               info\<lparr>ri_subscription_id := sf_subscription_id sub,
                    ri_subscription_pre_consumed := sf_pre_consumed sub + bs_extra_reserved s,
                    ri_subscription_post_delta := 0,
                    ri_subscription_amount_total := sf_amount_total sub,
                    ri_subscription_used_after := sf_amount_used_after sub + bs_extra_reserved s\<rparr>
           | WalletFunding _ \<Rightarrow> info\<lparr>ri_subscription_id := 0, ri_subscription_pre_consumed := 0\<rparr>)\<rparr>"

fun reserveFunding :: "funding_source \<Rightarrow> int \<Rightarrow> (store, api_error, funding_source) effect" where
  "reserveFunding (WalletFunding w) delta st =
     (case DecreaseUserQuota (wf_user_id w) delta False st of
        (Inl err, st') \<Rightarrow> (Inl (ErrorCodeUpdateDataError, err), st')
      | (Inr _, st') \<Rightarrow> (Inr (WalletFunding (w\<lparr>wf_consumed := wf_consumed w + delta\<rparr>)), st'))"
| "reserveFunding (SubscriptionFunding sub) delta st =
     (case PostConsumeUserSubscriptionDelta (sf_subscription_id sub) delta st of
        (Inl err, st') \<Rightarrow> (Inl (ErrorCodeInsufficientUserQuota, err), st')
      | (Inr _, st') \<Rightarrow> (Inr (SubscriptionFunding sub), st'))"

fun rollbackFundingReserve :: "funding_source \<Rightarrow> int \<Rightarrow> store \<Rightarrow> funding_source \<times> store" where
  "rollbackFundingReserve (WalletFunding w) delta st =
     (case IncreaseUserQuota (wf_user_id w) delta st of
        (Inl _, st') \<Rightarrow> (WalletFunding w, st')
      | (Inr _, st') \<Rightarrow> (WalletFunding (w\<lparr>wf_consumed := wf_consumed w - delta\<rparr>), st'))"
| "rollbackFundingReserve (SubscriptionFunding sub) delta st =
     (SubscriptionFunding sub, snd (PostConsumeUserSubscriptionDelta (sf_subscription_id sub) (- delta) st))"

definition reserveToken :: "relay_info \<Rightarrow> int \<Rightarrow> (store, api_error, unit) effect" where
  "reserveToken info delta =
     (if delta \<le> 0 \<or> ri_is_playground info then ret ()
      else catch (PreConsumeTokenQuota info delta) (\<lambda>err. throw (ErrorCodePreConsumeTokenQuotaFailed, err)))"

definition Reserve :: "int \<Rightarrow> billing_session \<Rightarrow> store \<Rightarrow> (api_error + unit) \<times> billing_session \<times> store" where
  "Reserve targetQuota s st =
     (let delta = targetQuota - bs_pre_consumed_quota s
      in if bs_settled s \<or> bs_refunded s \<or> bs_trusted s \<or> targetQuota \<le> bs_pre_consumed_quota s then (Inr (), s, st)
         else (case reserveFunding (bs_funding s) delta st of
                 (Inl err, st') \<Rightarrow> (Inl err, s, st')
               | (Inr funding, st') \<Rightarrow>
                   (case reserveToken (bs_info s) delta st' of
                      (Inl err, st'') \<Rightarrow>
                        (let (funding', st''') = rollbackFundingReserve funding delta st''
                         in (Inl err, s\<lparr>bs_funding := funding'\<rparr>, st'''))
                    | (Inr _, st'') \<Rightarrow>
                        (Inr (), syncRelayInfo
                          (s\<lparr>bs_funding := funding, bs_pre_consumed_quota := bs_pre_consumed_quota s + delta,
                             bs_token_consumed := bs_token_consumed s + delta,
                             bs_extra_reserved := bs_extra_reserved s + delta\<rparr>), st''))))"

section \<open>Opening a session\<close>

definition shouldTrust :: "int \<Rightarrow> relay_info \<Rightarrow> funding_source \<Rightarrow> store \<Rightarrow> bool" where
  "shouldTrust tokenQuota info funding st \<longleftrightarrow>
     (let trustQuota = GetTrustQuota st
      in \<not> ri_force_pre_consume info \<and> trustQuota > 0 \<and>
         (ri_token_unlimited info \<or> tokenQuota > trustQuota) \<and>
         (case funding of WalletFunding _ \<Rightarrow> ri_user_quota info > trustQuota | SubscriptionFunding _ \<Rightarrow> False))"

definition funding_failed :: "string \<Rightarrow> api_error" where
  "funding_failed err =
     (if str_includes err ''no active subscription'' \<or> str_includes err ''subscription quota insufficient''
      then (ErrorCodeInsufficientUserQuota, err) else (ErrorCodeUpdateDataError, err))"

definition preConsume :: "int \<Rightarrow> int \<Rightarrow> billing_session \<Rightarrow> (store, api_error, billing_session) effect" where
  "preConsume tokenQuota quota s st =
     (let trusted = shouldTrust tokenQuota (bs_info s) (bs_funding s) st;
          effectiveQuota = (if trusted then 0 else quota)
      in case (if effectiveQuota > 0 then PreConsumeTokenQuota (bs_info s) effectiveQuota st else (Inr (), st)) of
           (Inl err, st') \<Rightarrow> (Inl (ErrorCodePreConsumeTokenQuotaFailed, err), st')
         | (Inr _, st') \<Rightarrow>
             (let tokenConsumed = (if effectiveQuota > 0 then effectiveQuota else bs_token_consumed s)
              in case funding_PreConsume (bs_funding s) effectiveQuota st' of
                   (Inl err, st'') \<Rightarrow>
                     (Inl (funding_failed err),
                      (if tokenConsumed > 0 \<and> \<not> ri_is_playground (bs_info s)
                       then snd (IncreaseTokenQuota (ri_token_id (bs_info s)) tokenConsumed st'') else st''))
                 | (Inr funding, st'') \<Rightarrow>
                     (Inr (syncRelayInfo (s\<lparr>bs_trusted := trusted, bs_token_consumed := tokenConsumed,
                             bs_funding := funding, bs_pre_consumed_quota := effectiveQuota\<rparr>)), st'')))"

definition new_session :: "relay_info \<Rightarrow> funding_source \<Rightarrow> billing_session" where
  "new_session info funding =
     \<lparr>bs_info = info, bs_funding = funding, bs_pre_consumed_quota = 0, bs_token_consumed = 0, bs_extra_reserved = 0,
      bs_trusted = False, bs_funding_settled = False, bs_settled = False, bs_refunded = False\<rparr>"

definition tryWallet :: "int \<Rightarrow> relay_info \<Rightarrow> int \<Rightarrow> (store, api_error, billing_session) effect" where
  "tryWallet tokenQuota info quota =
     and_then (catch (GetUserQuota (ri_user_id info)) (\<lambda>err. throw (ErrorCodeQueryDataError, err))) (\<lambda>userQuota.
       if userQuota \<le> 0 then throw (ErrorCodeInsufficientUserQuota, ''user quota is not enough'')
       else if userQuota - quota < 0 then throw (ErrorCodeInsufficientUserQuota, ''user quota is below the pre-consumed quota'')
       else preConsume tokenQuota quota
              (new_session (info\<lparr>ri_user_quota := userQuota\<rparr>)
                (WalletFunding \<lparr>wf_user_id = ri_user_id info, wf_consumed = 0\<rparr>)))"

definition sub_consume :: "int \<Rightarrow> int" where
  "sub_consume quota = (if quota \<le> 0 then 1 else quota)"

definition trySubscription :: "int \<Rightarrow> relay_info \<Rightarrow> int \<Rightarrow> (store, api_error, billing_session) effect" where
  "trySubscription tokenQuota info quota =
     preConsume tokenQuota (sub_consume quota)
       (new_session info (SubscriptionFunding
         \<lparr>sf_request_id = ri_request_id info, sf_user_id = ri_user_id info, sf_model_name = ri_origin_model_name info,
          sf_amount = sub_consume quota, sf_subscription_id = 0, sf_pre_consumed = 0, sf_amount_total = 0,
          sf_amount_used_after = 0\<rparr>))"

definition NormalizeBillingPreference :: "string \<Rightarrow> string" where
  "NormalizeBillingPreference pref =
     (if TrimSpace pref \<in> {''subscription_first'', ''wallet_first'', ''subscription_only'', ''wallet_only''}
      then TrimSpace pref else ''subscription_first'')"

definition or_else ::
  "(store, api_error, 'a) effect \<Rightarrow> (store, api_error, 'a) effect \<Rightarrow> (store, api_error, 'a) effect" where
  "or_else m m' = catch m (\<lambda>err. if fst err = ErrorCodeInsufficientUserQuota then m' else throw err)"

definition NewBillingSession :: "int \<Rightarrow> relay_info \<Rightarrow> int \<Rightarrow> (store, api_error, billing_session) effect" where
  "NewBillingSession tokenQuota info quota =
     (let pref = NormalizeBillingPreference (ri_billing_preference info)
      in if pref = ''subscription_only'' then trySubscription tokenQuota info quota
         else if pref = ''wallet_only'' then tryWallet tokenQuota info quota
         else if pref = ''wallet_first''
         then or_else (tryWallet tokenQuota info quota) (trySubscription tokenQuota info quota)
         else and_then (catch (HasActiveUserSubscription (ri_user_id info)) (\<lambda>err. throw (ErrorCodeQueryDataError, err)))
           (\<lambda>hasSub. if \<not> hasSub then tryWallet tokenQuota info quota
                     else or_else (trySubscription tokenQuota info quota) (tryWallet tokenQuota info quota)))"

section \<open>Billing of a request\<close>

definition apiWalletOnlyMinUSD :: rat where
  "apiWalletOnlyMinUSD = 4"

definition EnforceLowBalanceAPIRestriction :: "relay_info \<Rightarrow> (store, api_error, relay_info) effect" where
  "EnforceLowBalanceAPIRestriction info st =
     (if ri_user_id info \<le> 0 \<or> ri_is_playground info then (Inr info, st)
      else (let (admin, st1) = IsAdmin (ri_user_id info) st
            in if admin then (Inr info, st1)
               else case GetUserQuota (ri_user_id info) st1 of
                      (Inl err, st2) \<Rightarrow> (Inl (ErrorCodeQueryDataError, err), st2)
                    | (Inr userQuota, st2) \<Rightarrow>
                        (let info' = info\<lparr>ri_user_quota := userQuota\<rparr>
                         in if userQuota \<ge> \<lfloor>apiWalletOnlyMinUSD * quota_per_unit st2\<rfloor> then (Inr info', st2)
                            else case HasActiveUserSubscription (ri_user_id info) st2 of
                                   (Inl err, st3) \<Rightarrow> (Inl (ErrorCodeQueryDataError, err), st3)
                                 | (Inr hasSub, st3) \<Rightarrow>
                                     (if hasSub then (Inr info', st3)
                                      else (Inl (ErrorCodeInsufficientUserQuota, ''balance too low for the API''), st3)))))"

text \<open>The request carries the correction of its subscription even when the token could not be adjusted afterwards.\<close>

definition post_consume_funding :: "relay_info \<Rightarrow> int \<Rightarrow> (store, string, relay_info) effect" where
  "post_consume_funding info quota =
     (if ri_billing_source info = BillingSourceSubscription
      then if ri_subscription_id info = 0 then throw ''subscription id is missing''
           else if quota \<noteq> 0
           then and_then (PostConsumeUserSubscriptionDelta (ri_subscription_id info) quota) (\<lambda>_.
             ret (info\<lparr>ri_subscription_post_delta := ri_subscription_post_delta info + quota\<rparr>))
           else ret info
      else and_then (if quota > 0 then DecreaseUserQuota (ri_user_id info) quota False
                     else IncreaseUserQuota (ri_user_id info) (- quota)) (\<lambda>_. ret info))"

definition PostConsumeQuota :: "relay_info \<Rightarrow> int \<Rightarrow> store \<Rightarrow> (string + unit) \<times> relay_info \<times> store" where
  "PostConsumeQuota info quota st =
     (case post_consume_funding info quota st of
        (Inl err, st') \<Rightarrow> (Inl err, info, st')
      | (Inr info', st') \<Rightarrow> (let (r, st'') = adjust_token info quota st' in (r, info', st'')))"

definition SettleBilling ::
  "billing_session option \<Rightarrow> relay_info \<Rightarrow> int \<Rightarrow> store \<Rightarrow> (string + unit) \<times> billing_session option \<times> relay_info \<times> store" where
  "SettleBilling billing info actualQuota st =
     (case billing of
        Some s \<Rightarrow> (let (r, s', st') = Settle actualQuota s st in (r, Some s', bs_info s', st'))
      | None \<Rightarrow>
          (let quotaDelta = actualQuota - ri_final_pre_consumed_quota info
           in if quotaDelta \<noteq> 0
              then (let (r, info', st') = PostConsumeQuota info quotaDelta st in (r, None, info', st'))
              else (Inr (), None, info, st)))"

end
