(* ===== verification/Subscription_Limits.thy ===== *)
theory Subscription_Limits
  imports Subscription_Store
begin

text \<open>
  What the consumption of subscriptions in \<^verbatim>\<open>model/subscription.go\<close> guarantees: which subscription pays, the
  bounds on what was used, one charge per request id, and where the rolling limits do not hold.
\<close>

section \<open>The subscription that pays\<close>

interpretation sub_order: comparator ends_before
  by unfold_locales (auto simp: ends_before_def)

lemma find_first:
  assumes "sorted_wrt (\<lambda>a b. \<not> lt b a) xs" "\<And>a. \<not> lt a a" "List.find P xs = Some x" "y \<in> set xs" "P y"
  shows "\<not> lt y x"
proof -
  from assms(3) obtain i where i: "i < length xs" "P (xs ! i)" "x = xs ! i" "\<forall>j < i. \<not> P (xs ! j)"
    by (auto simp: find_Some_iff)
  from assms(4) obtain k where k: "k < length xs" "y = xs ! k" by (auto simp: in_set_conv_nth)
  with i assms(5) have "i \<le> k" by (metis linorder_not_le)
  show ?thesis
  proof (cases "i = k")
    case False
    with \<open>i \<le> k\<close> k i(3) assms(1) show ?thesis by (simp add: sorted_wrt_iff_nth_less)
  qed (use i k assms(2) in simp)
qed

lemma find_candidate:
  assumes "List.find (eligible modelName amount st) (candidates uid st) = Some s"
  shows "s \<in> set (subs st)" "is_active uid (clock st) s" "eligible modelName amount st s"
    "s' \<in> set (subs st) \<Longrightarrow> is_active uid (clock st) s' \<Longrightarrow> eligible modelName amount st s' \<Longrightarrow> \<not> ends_before s' s"
proof -
  have "s \<in> set (candidates uid st)" "eligible modelName amount st s"
    using assms by (auto simp: find_Some_iff in_set_conv_nth)
  then show "s \<in> set (subs st)" "is_active uid (clock st) s" "eligible modelName amount st s"
    by (simp_all add: set_candidates)
  assume "s' \<in> set (subs st)" "is_active uid (clock st) s'" "eligible modelName amount st s'"
  then show "\<not> ends_before s' s"
    using find_first [OF sub_order.js_sort_sorted, of "eligible modelName amount st" "filter (is_active uid (clock st)) (subs st)" s s'] assms
    by (simp add: candidates_def ends_before_def)
qed

lemma bare_eq: "faults st = [] \<Longrightarrow> faults st' = [] \<Longrightarrow> bare st = bare st' \<Longrightarrow> st = st'"
  by (cases st; cases st') (simp add: bare_def)

lemma taken_faults [simp]: "faults (taken rq uid amount s st) = faults st"
  by (simp add: taken_def book_usage_def new_record_def)


section \<open>Bounds\<close>

lemma window_sum_snoc:
  "window_sum sid from (es @ [e]) =
     window_sum sid from es + (if led_sub_id e = sid \<and> led_created_at e \<ge> from then led_delta e else 0)"
  by (simp add: window_sum_def)

definition limits_hold :: "user_subscription \<Rightarrow> int \<Rightarrow> usage_ledger list \<Rightarrow> bool" where
  "limits_hold s now entries \<longleftrightarrow>
     (amount_total s > 0 \<longrightarrow> amount_used s \<le> amount_total s) \<and>
     (\<forall>(limit, window, label) \<in> set (rolling_limits s). limit > 0 \<longrightarrow>
        window_sum (sub_id s) (max (start_time s) (now - window)) entries \<le> limit)"

lemma rolling_limits_used [simp]: "rolling_limits (s\<lparr>amount_used := n\<rparr>) = rolling_limits s"
  by (simp add: rolling_limits_def)

lemma limits_after:
  assumes "allowed s d now es" "d > 0" "led_delta e = d" "n = amount_used s + d"
  shows "limits_hold (s\<lparr>amount_used := n\<rparr>) now (es @ [e])"
  using assms unfolding limits_hold_def allowed_def within_limits_def
  by (fastforce simp: window_sum_snoc clampSubscriptionUsage_def split: if_splits)

lemma row_in: "x \<in> set rows \<Longrightarrow> \<exists>y. row key (key x) rows = Some y"
  using row_None_iff [of key "key x" rows] by fastforce


section \<open>The amount used\<close>

definition subs_ok :: "store \<Rightarrow> bool" where
  "subs_ok st \<longleftrightarrow> (\<forall>s \<in> set (subs st). 0 < sub_id s \<and> 0 \<le> amount_used s \<and>
     (amount_total s > 0 \<longrightarrow> amount_used s \<le> amount_total s))"

lemma subs_ok_bare: "bare st' = bare st \<Longrightarrow> subs_ok st' = subs_ok st"
  unfolding subs_ok_def by (simp add: bareD [of st' st])

lemma subs_ok_book:
  assumes "subs_ok st" "0 < sub_id s" "0 \<le> n" "amount_total s > 0 \<longrightarrow> n \<le> amount_total s"
  shows "subs_ok (book_usage s n rq d act st)"
  using assms set_update_const by (fastforce simp: subs_ok_def book_usage_def)

lemma pre_consume_known:
  assumes "PreConsumeUserSubscription rq uid modelName amount st = (r, st')" "row rec_request_id rq (records st) = Some rec"
  shows "bare st' = bare st"
proof (cases "uid > 0 \<and> TrimSpace rq \<noteq> [] \<and> amount > 0")
  case False
  with assms(1) show ?thesis by (auto simp: PreConsumeUserSubscription_def split: if_splits)
next
  case True
  obtain t st1 where t: "GetDBTimestamp st = (t, st1)" by fastforce
  note st1 = timestamp_result [OF t]
  let ?m = "and_then (query (\<lambda>st. row rec_request_id rq (records st))) (\<lambda>found.
      case found of Some existing \<Rightarrow> known_request existing | None \<Rightarrow> new_request rq uid modelName amount (clock st))"
  from True t st1 assms(1) have run: "transaction ?m st1 = (r, st')"
    by (auto simp: PreConsumeUserSubscription_def and_then_def)
  from run show ?thesis
  proof (cases rule: transaction_cases)
    case (commit x st2)
    from commit(1) have "bare st2 = bare st1"
    proof (cases rule: and_then_cases)
      case (ok y st3)
      from ok(1) have "y = row rec_request_id rq (records st1)" "bare st3 = bare st1" by (cases rule: query_cases; simp)+
      with ok(2) assms(2) bareD(7) [OF st1(2)] known_request_result show ?thesis by fastforce
    qed simp
    with commit st1 show ?thesis by simp
  qed (use st1 in simp)
qed

lemma subs_ok_take:
  assumes "subs_ok st"
  shows "subs_ok (snd (PreConsumeUserSubscription rq uid modelName amount st))"
proof -
  obtain r st' where run: "PreConsumeUserSubscription rq uid modelName amount st = (r, st')" by fastforce
  show ?thesis
  proof (cases "row rec_request_id rq (records st)")
    case (Some rec)
    with subs_ok_bare [OF pre_consume_known [OF run Some]] run assms show ?thesis by simp
  next
    case None
    have "\<forall>s \<in> set (subs st). sub_id s > 0" using assms by (simp add: subs_ok_def)
    from pre_consume_result [OF run None this] show ?thesis
    proof (elim disjE exE conjE)
      fix s assume found: "List.find (eligible modelName amount st) (candidates uid st) = Some s"
        and bare: "bare st' = bare (taken rq uid amount s st)" and "amount > 0"
      note s = find_candidate [OF found]
      have "subs_ok (new_record rq uid (sub_id s) amount st)" using assms by (simp add: subs_ok_def new_record_def)
      then have "subs_ok (taken rq uid amount s st)"
        using s(1,3) assms \<open>amount > 0\<close> unfolding taken_def
        by (intro subs_ok_book) (auto simp: subs_ok_def eligible_def allowed_def)
      then show ?thesis using run subs_ok_bare [OF bare] by simp
    next
      assume "bare st' = bare st"
      from subs_ok_bare [OF this] run assms show ?thesis by simp
    qed
  qed
qed

lemma subs_ok_correct:
  assumes "subs_ok st"
  shows "subs_ok (snd (PostConsumeUserSubscriptionDelta sid d st))"
proof -
  obtain r st' where run: "PostConsumeUserSubscriptionDelta sid d st = (r, st')" by fastforce
  show ?thesis
  proof (cases "sid > 0 \<and> d \<noteq> 0")
    case False
    with run assms show ?thesis by (auto simp: PostConsumeUserSubscriptionDelta_def split: if_splits)
  next
    case True
    then have "sid > 0" "d \<noteq> 0" by simp_all
    with run show ?thesis
    proof (cases rule: post_delta_cases)
      case (error e)
      with subs_ok_bare [OF error(2)] run assms show ?thesis by simp
    next
      case (ok s)
      from row_Some [OF ok(3)] True have "0 < sub_id s" by simp
      then have "subs_ok (book_usage s (max 0 (amount_used s + d)) [] d ''settle'' st)"
        using ok(5) by (intro subs_ok_book assms) auto
      with subs_ok_bare [OF ok(6)] run show ?thesis by simp
    qed
  qed
qed

lemma refund_records_only:
  assumes "RefundSubscriptionPreConsume rq st = (r, st')"
    and "case row rec_request_id rq (records st) of None \<Rightarrow> True | Some rec \<Rightarrow> rec_pre_consumed rec \<le> 0"
  shows "subs st' = subs st"
proof (cases "TrimSpace rq = []")
  case True
  with assms(1) show ?thesis by (simp add: RefundSubscriptionPreConsume_def)
next
  case False
  with assms(1) have "transaction (and_then (query_first (\<lambda>st. row rec_request_id rq (records st))) (\<lambda>r.
        if rec_status r = ''refunded'' then ret ()
        else if rec_pre_consumed r \<le> 0 then save_record (r\<lparr>rec_status := ''refunded''\<rparr>)
        else and_then (postConsumeUserSubscriptionDeltaTx (rec_sub_id r) (- rec_pre_consumed r) (rec_request_id r) ''refund'')
               (\<lambda>_. save_record (r\<lparr>rec_status := ''refunded''\<rparr>)))) st = (r, st')"
    by (simp add: RefundSubscriptionPreConsume_def)
  then show ?thesis
  proof (cases rule: transaction_cases)
    case (fault e)
    then show ?thesis using bareD(5) by blast
  next
    case (commit x st1)
    from commit(1) have "subs st1 = subs st"
    proof (cases rule: and_then_cases)
      case (ok rec st2)
      from ok(1) assms(2) have rec: "rec_pre_consumed rec \<le> 0" "bare st2 = bare st" by (cases rule: query_first_cases; simp)+
      show ?thesis
      proof (cases "rec_status rec = ''refunded''")
        case True
        with ok(2) bareD(5) [OF rec(2)] show ?thesis by simp
      next
        case False
        with ok(2) rec have "save_record (rec\<lparr>rec_status := ''refunded''\<rparr>) st2 = (Inr x, st1)" by simp
        from this [unfolded save_record_def] show ?thesis
        proof (cases rule: change_cases)
          case run
          from bareD(5) [OF run(2)] bareD(5) [OF rec(2)] show ?thesis by simp
        qed simp_all
      qed
    qed simp
    with bareD(5) [OF commit(3)] show ?thesis by simp
  qed
qed

lemma subs_ok_refund:
  assumes "subs_ok st"
  shows "subs_ok (snd (RefundSubscriptionPreConsume rq st))"
proof -
  obtain r st' where run: "RefundSubscriptionPreConsume rq st = (r, st')" by fastforce
  show ?thesis
  proof (cases "case row rec_request_id rq (records st) of None \<Rightarrow> True | Some rec \<Rightarrow> rec_pre_consumed rec \<le> 0")
    case True
    from refund_records_only [OF run True] run assms show ?thesis by (simp add: subs_ok_def)
  next
    case False
    then obtain rec where rec: "row rec_request_id rq (records st) = Some rec" "rec_pre_consumed rec > 0"
      by (auto split: option.splits)
    show ?thesis
    proof (cases "TrimSpace rq = []")
      case True
      with assms show ?thesis by (simp add: RefundSubscriptionPreConsume_def throw_def)
    next
      case False
      with run rec show ?thesis
      proof (cases rule: refund_cases)
        case (error e)
        with subs_ok_bare [OF error(2)] run assms show ?thesis by simp
      next
        case again
        with subs_ok_bare [OF again(3)] run assms show ?thesis by simp
      next
        case (ok s)
        let ?st = "book_usage s (max 0 (amount_used s - rec_pre_consumed rec)) rq (- rec_pre_consumed rec) ''refund'' st"
        have "0 < sub_id s" using ok(4) assms row_Some by (fastforce simp: subs_ok_def)
        then have "subs_ok ?st" using ok(5) by (intro subs_ok_book assms) auto
        then have "subs_ok (mark_refunded rec ?st)" by (simp add: subs_ok_def mark_refunded_def)
        with subs_ok_bare [OF ok(6)] run show ?thesis by simp
      qed
    qed
  qed
qed

lemma cleanup_subs: "subs (snd (CleanupSubscriptionPreConsumeRecords n st)) = subs st"
proof -
  obtain t st1 where t: "GetDBTimestamp st = (t, st1)" by fastforce
  show ?thesis using timestamp_result [OF t] bareD(5) [of st1 st] t
    by (auto simp: CleanupSubscriptionPreConsumeRecords_def Let_def and_then_def stmt_def split: list.splits)
qed

text \<open>The calls that change subscriptions, the passing of time and failures of the database.\<close>

datatype sub_op =
  Take string int string int | Correct int int | GiveBack string | Cleanup int | Wait nat | Fail "bool list"

fun run_sub_op :: "sub_op \<Rightarrow> store \<Rightarrow> store" where
  "run_sub_op (Take rq uid modelName amount) st = snd (PreConsumeUserSubscription rq uid modelName amount st)"
| "run_sub_op (Correct sid d) st = snd (PostConsumeUserSubscriptionDelta sid d st)"
| "run_sub_op (GiveBack rq) st = snd (RefundSubscriptionPreConsume rq st)"
| "run_sub_op (Cleanup n) st = snd (CleanupSubscriptionPreConsumeRecords n st)"
| "run_sub_op (Wait n) st = st\<lparr>clock := clock st + int n\<rparr>"
| "run_sub_op (Fail fs) st = st\<lparr>faults := fs\<rparr>"

lemma subs_ok_step: "subs_ok st \<Longrightarrow> subs_ok (run_sub_op op st)"
proof (cases op)
  case (Cleanup n)
  assume "subs_ok st"
  with Cleanup show ?thesis by (simp add: subs_ok_def cleanup_subs)
qed (simp_all add: subs_ok_take subs_ok_correct subs_ok_refund, simp_all add: subs_ok_def)


section \<open>One charge per request\<close>

lemma row_snoc: "row key k (rows @ [r]) = (case row key k rows of None \<Rightarrow> if key r = k then Some r else None | Some x \<Rightarrow> Some x)"
  by (induction rows) (auto simp: row_def)

lemma timestamp_reliable [simp]: "faults st = [] \<Longrightarrow> GetDBTimestamp st = (Inr (clock st), st)"
  by (simp add: GetDBTimestamp_def catch_def)

lemma row_distinct: "distinct (map key rows) \<Longrightarrow> x \<in> set rows \<Longrightarrow> row key (key x) rows = Some x"
  by (induction rows) (auto simp: row_def rev_image_eqI)

lemma pre_consume_again:
  assumes "faults st = []" "row rec_request_id rq (records st) = Some rec" "uid > 0" "TrimSpace rq \<noteq> []" "amount > 0"
  shows "PreConsumeUserSubscription rq uid modelName amount st =
    (if rec_status rec = ''refunded'' then Inl already_refunded
     else case row sub_id (rec_sub_id rec) (subs st) of
       None \<Rightarrow> Inl not_found
     | Some s \<Rightarrow> Inr \<lparr>res_sub_id = sub_id s, res_pre_consumed = rec_pre_consumed rec, res_amount_total = amount_total s,
          res_used_before = amount_used s, res_used_after = amount_used s\<rparr>, st)"
proof -
  have known: "known_request rec st = (if rec_status rec = ''refunded'' then Inl already_refunded
     else case row sub_id (rec_sub_id rec) (subs st) of
       None \<Rightarrow> Inl not_found
     | Some s \<Rightarrow> Inr \<lparr>res_sub_id = sub_id s, res_pre_consumed = rec_pre_consumed rec, res_amount_total = amount_total s,
          res_used_before = amount_used s, res_used_after = amount_used s\<rparr>, st)"
    using assms(1) by (simp add: known_request_def and_then_def throw_def ret_def split: option.splits)
  have "PreConsumeUserSubscription rq uid modelName amount st =
      transaction (and_then (query (\<lambda>st. row rec_request_id rq (records st))) (\<lambda>found.
        case found of Some existing \<Rightarrow> known_request existing | None \<Rightarrow> new_request rq uid modelName amount (clock st))) st"
    using assms by (simp add: PreConsumeUserSubscription_def and_then_def)
  also have "\<dots> = known_request rec st"
    using assms known by (subst transaction_reliable) (simp_all add: and_then_def split: option.splits)
  finally show ?thesis by (simp only: known)
qed

lemma refund_again:
  assumes "faults st = []" "row rec_request_id rq (records st) = Some rec" "rec_status rec = ''refunded''" "TrimSpace rq \<noteq> []"
  shows "RefundSubscriptionPreConsume rq st = (Inr (), st)"
proof -
  let ?m = "and_then (query_first (\<lambda>st. row rec_request_id rq (records st))) (\<lambda>r.
        if rec_status r = ''refunded'' then ret ()
        else if rec_pre_consumed r \<le> 0 then save_record (r\<lparr>rec_status := ''refunded''\<rparr>)
        else and_then (postConsumeUserSubscriptionDeltaTx (rec_sub_id r) (- rec_pre_consumed r) (rec_request_id r) ''refund'')
               (\<lambda>_. save_record (r\<lparr>rec_status := ''refunded''\<rparr>)))"
  have "?m st = (Inr (), st)" using assms by (simp add: and_then_def ret_def)
  with assms show ?thesis by (simp add: RefundSubscriptionPreConsume_def transaction_reliable)
qed

text \<open>C14: one charge per request. When the database works, repeating the pre-consumption of a request under its id,
  with whatever model and amount, charges nothing and reports the first charge. The refund restores the used amount of
  every subscription, a second refund succeeds without any effect, and a pre-consumption after it is refused.\<close>

theorem request_charged_once:
  assumes "faults st = []" "subs_ok st" "row rec_request_id rq (records st) = None" "distinct (map sub_id (subs st))"
    and "PreConsumeUserSubscription rq uid modelName amount st = (Inr res, st1)" "amount' > 0"
  shows "(\<exists>res'. PreConsumeUserSubscription rq uid modelName' amount' st1 = (Inr res', st1) \<and>
      res_sub_id res' = res_sub_id res \<and> res_pre_consumed res' = amount) \<and>
    (\<exists>st2. RefundSubscriptionPreConsume rq st1 = (Inr (), st2) \<and>
      (\<forall>i. map_option amount_used (row sub_id i (subs st2)) = map_option amount_used (row sub_id i (subs st))) \<and>
      RefundSubscriptionPreConsume rq st2 = (Inr (), st2) \<and>
      PreConsumeUserSubscription rq uid modelName' amount' st2 = (Inl already_refunded, st2))"
proof -
  have pos: "\<forall>s \<in> set (subs st). sub_id s > 0" using assms(2) by (simp add: subs_ok_def)
  from pre_consume_result [OF assms(5,3) pos] obtain s where
      found: "List.find (eligible modelName amount st) (candidates uid st) = Some s" and res: "res = result_of amount s"
      and bare: "bare st1 = bare (taken rq uid amount s st)" "calm st st1" and arg: "uid > 0" "TrimSpace rq \<noteq> []" "amount > 0"
    by auto
  note s = find_candidate [OF found]
  have s0: "row sub_id (sub_id s) (subs st) = Some s" using row_distinct [OF assms(4) s(1)] .
  let ?s = "s\<lparr>amount_used := amount_used s + amount\<rparr>"
  let ?rec = "\<lparr>rec_request_id = rq, rec_user_id = uid, rec_sub_id = sub_id s, rec_pre_consumed = amount,
      rec_status = ''consumed'', rec_updated_at = clock st\<rparr>"
  have st1: "st1 = taken rq uid amount s st" "faults st1 = []"
    using bare assms(1) by - (rule bare_eq, simp_all add: calm_def)
  have fields: "row rec_request_id rq (records st1) = Some ?rec" "clock st1 = clock st"
      "subs st1 = update_where sub_id (sub_id s) (\<lambda>_. ?s) (subs st)"
    using assms(3) by (simp_all add: st1(1) taken_def book_usage_def new_record_def row_snoc)
  have row1: "row sub_id (sub_id s) (subs st1) = Some ?s" using s0 by (simp add: fields)
  have again: "\<exists>res'. PreConsumeUserSubscription rq uid modelName' amount' st1 = (Inr res', st1) \<and>
      res_sub_id res' = res_sub_id res \<and> res_pre_consumed res' = amount"
    using pre_consume_again [OF st1(2) fields(1) arg(1,2) assms(6)] row1 by (simp add: res result_of_def)
  obtain r st2 where refund: "RefundSubscriptionPreConsume rq st1 = (r, st2)" by fastforce
  have notref: "\<not> refused (sub_id s) (- amount) st1"
    using row1 s(1) assms(2) arg(3) by (auto simp: refused_def subs_ok_def)
  have "rec_pre_consumed ?rec > 0" using arg by simp
  with refund fields(1) have
    refunded: "r = Inr () \<and> faults st2 = [] \<and> bare st2 = bare (mark_refunded ?rec (book_usage ?s (max 0 (amount_used s)) rq (- amount) ''refund'' st1))"
    using arg(2)
  proof (cases rule: refund_cases)
    case (error e)
    with st1(2) notref show ?thesis by simp
  next
    case again
    then show ?thesis by simp
  next
    case (ok s')
    from ok(4) row1 have s': "s' = ?s" by simp
    from ok st1(2) show ?thesis unfolding s' by (simp add: calm_def)
  qed
  then have st2: "st2 = mark_refunded ?rec (book_usage ?s (max 0 (amount_used s)) rq (- amount) ''refund'' st1)"
    using st1(2) by - (rule bare_eq, simp_all add: mark_refunded_def book_usage_def)
  have rec2: "row rec_request_id rq (records st2) = Some (?rec\<lparr>rec_status := ''refunded'', rec_updated_at := clock st1\<rparr>)"
    using fields(1) by (simp add: st2 mark_refunded_def book_usage_def)
  have "0 \<le> amount_used s" using s(1) assms(2) by (simp add: subs_ok_def)
  then have used: "\<forall>i. map_option amount_used (row sub_id i (subs st2)) = map_option amount_used (row sub_id i (subs st))"
    using s0 by (simp add: st2 mark_refunded_def book_usage_def fields(3))
  have "RefundSubscriptionPreConsume rq st2 = (Inr (), st2)"
    using refund_again [OF _ rec2] refunded arg(2) by simp
  moreover have "PreConsumeUserSubscription rq uid modelName' amount' st2 = (Inl already_refunded, st2)"
    using pre_consume_again [OF _ rec2 arg(1,2) assms(6)] refunded by simp
  ultimately show ?thesis using again refund refunded used by blast
qed

section \<open>Examples\<close>

definition sample_sub :: "int \<Rightarrow> int \<Rightarrow> int \<Rightarrow> int \<Rightarrow> user_subscription" where
  "sample_sub i ends amount limit =
     \<lparr>sub_id = i, sub_user_id = 1, amount_total = amount, amount_used = 0, amount_five_hour_limit = limit,
      amount_daily_limit = 0, amount_weekly_limit = 0, start_time = 0, end_time = ends, sub_status = ''active'',
      model_limits_enabled = False, model_limits = []\<rparr>"

definition sub_store :: store where
  "sub_store = sample_store\<lparr>subs := [sample_sub 4 900000 1000 100, sample_sub 5 800000 50 0, sample_sub 6 850000 0 70]\<rparr>"




theorem request_charged_once_witness:
  "\<exists>res st1 st2. PreConsumeUserSubscription ''r1'' 1 ''gpt'' 60 sub_store = (Inr res, st1) \<and> res_pre_consumed res = 60 \<and>
     RefundSubscriptionPreConsume ''r1'' st1 = (Inr (), st2) \<and> RefundSubscriptionPreConsume ''r1'' st2 = (Inr (), st2) \<and>
     PreConsumeUserSubscription ''r1'' 1 ''other'' 20 st2 = (Inl already_refunded, st2)"
proof -
  obtain r st1 where run: "PreConsumeUserSubscription ''r1'' 1 ''gpt'' 60 sub_store = (r, st1)" by fastforce
  have "fst (PreConsumeUserSubscription ''r1'' 1 ''gpt'' 60 sub_store) = Inr (result_of 60 (sample_sub 6 850000 0 70))"
    by code_simp
  with run have r: "PreConsumeUserSubscription ''r1'' 1 ''gpt'' 60 sub_store = (Inr (result_of 60 (sample_sub 6 850000 0 70)), st1)"
    by simp
  have pre: "faults sub_store = []" "subs_ok sub_store" "row rec_request_id ''r1'' (records sub_store) = None"
    "distinct (map sub_id (subs sub_store))" "(20::int) > 0"
    by (simp_all add: sub_store_def sample_store_def sample_sub_def row_def subs_ok_def)
  from request_charged_once [OF pre(1-4) r pre(5), of "''other''"] r show ?thesis by (auto simp: result_of_def)
qed


end
