(* ===== verification/Billing_Accounts.thy ===== *)
theory Billing_Accounts
  imports Billing_Session Subscription_Limits
begin

text \<open>
  What the methods of a billing session in \<^verbatim>\<open>service/billing_session.go\<close> do to the books: which amount each of
  them takes or gives back, exactly when the database works, and never to the advantage of the customer when it does
  not.
\<close>

section \<open>Movements of the books\<close>

fun is_token :: "account \<Rightarrow> bool" where
  "is_token (TokenOf _) = True"
| "is_token _ = False"

text \<open>The books were lowered by the given amounts: on funding accounts by at least them, and on every account by
  exactly them if the condition holds.\<close>

definition moved :: "(account \<Rightarrow> int) \<Rightarrow> bool \<Rightarrow> store \<Rightarrow> store \<Rightarrow> bool" where
  "moved c exact st st' \<longleftrightarrow>
     (\<forall>a. \<not> is_token a \<longrightarrow> books st' a \<le> books st a - c a) \<and> (exact \<longrightarrow> posts c st st')"

text \<open>What a step leaves of the other tables: accounts, subscriptions within their bounds, and the records of all
  requests but the given ones.\<close>

definition kept :: "string set \<Rightarrow> store \<Rightarrow> store \<Rightarrow> bool" where
  "kept X st st' \<longleftrightarrow>
     (\<forall>a. has_account st' a = has_account st a) \<and> map sub_id (subs st') = map sub_id (subs st) \<and>
     (subs_ok st \<longrightarrow> subs_ok st') \<and>
     (\<forall>rq. rq \<notin> X \<longrightarrow> row rec_request_id rq (records st') = row rec_request_id rq (records st)) \<and>
     (\<forall>rq. row rec_request_id rq (records st) \<noteq> None \<longrightarrow> row rec_request_id rq (records st') \<noteq> None) \<and> calm st st'"

lemma moved_trans:
  assumes "moved c ex st st1" "moved c' ex' st1 st2"
  shows "moved (\<lambda>a. c a + c' a) (ex \<and> ex') st st2"
proof -
  have "books st2 a \<le> books st a - (c a + c' a)" if "\<not> is_token a" for a
  proof -
    have "books st1 a \<le> books st a - c a" "books st2 a \<le> books st1 a - c' a" using assms that by (simp_all add: moved_def)
    then show ?thesis by simp
  qed
  moreover have "posts (\<lambda>a. c a + c' a) st st2" if "ex \<and> ex'" using assms that by (simp add: moved_def posts_def)
  ultimately show ?thesis by (simp add: moved_def)
qed

lemma moved_weaken: "moved c ex st st' \<Longrightarrow> (ex' \<Longrightarrow> ex) \<Longrightarrow> moved c ex' st st'"
  by (auto simp: moved_def)

lemma moved_less:
  assumes "moved c ex st st'" "\<And>a. \<not> is_token a \<Longrightarrow> c' a \<le> c a" "ex' \<Longrightarrow> ex \<and> c' = c"
  shows "moved c' ex' st st'"
  using assms unfolding moved_def by fastforce

lemma posts_moved: "posts c st st' \<Longrightarrow> moved c ex st st'"
  by (simp add: moved_def posts_def)

lemma posts_undo: "posts (entry a d) st st1 \<Longrightarrow> posts (entry a (- d)) st1 st2 \<Longrightarrow> posts (\<lambda>_. 0) st st2"
  by (auto simp: posts_def entry_def)

lemma posts_then_none: "posts c st st1 \<Longrightarrow> posts (\<lambda>_. 0) st1 st2 \<Longrightarrow> posts c st st2"
  by (simp add: posts_def)

lemma kept_refl [simp]: "kept X st st"
  by (simp add: kept_def)

lemma kept_trans: "kept X st st1 \<Longrightarrow> kept X st1 st2 \<Longrightarrow> kept X st st2"
  unfolding kept_def by (auto simp: calm_def)

lemma kept_mono: "kept X st st' \<Longrightarrow> X \<subseteq> Y \<Longrightarrow> kept Y st st'"
  unfolding kept_def by auto

lemma kept_bare: "bare st' = bare st \<Longrightarrow> calm st st' \<Longrightarrow> kept X st st'"
proof -
  assume bare: "bare st' = bare st" and "calm st st'"
  have "has_account st' a = has_account st a" for a by (cases a) (simp_all add: bareD [OF bare])
  then show ?thesis using \<open>calm st st'\<close> subs_ok_bare [OF bare] by (simp add: kept_def bareD [OF bare])
qed

lemma posts_bare0: "bare st' = bare st \<Longrightarrow> posts (\<lambda>_. 0) st st'"
  using posts_bare [of st' st] by simp

lemma kept_plan: "same_plan st st' \<Longrightarrow> calm st st' \<Longrightarrow> kept X st st'"
  unfolding kept_def using same_plan_account [of st st'] by (simp add: same_plan_def subs_ok_def)

section \<open>Accounts that a signed amount changes\<close>

text \<open>Whether a subscription has used enough for an amount to be given back.\<close>

definition covered :: "account \<Rightarrow> int \<Rightarrow> store \<Rightarrow> bool" where
  "covered a d st \<longleftrightarrow> (case a of UsageOf _ \<Rightarrow> books st a \<le> d | _ \<Rightarrow> True)"

text \<open>The interface of a funding source as its clients use it: a signed change of one account that is refused without
  effect or done.\<close>

locale chargeable =
  fixes acct :: account
    and adjust :: "int \<Rightarrow> (store, string, unit) effect"
  assumes adjusts: "adjust d st = (r, st') \<Longrightarrow> has_account st acct \<Longrightarrow> subs_ok st \<Longrightarrow>
      kept {} st st' \<and> (case r of Inl _ \<Rightarrow> posts (\<lambda>_. 0) st st' | Inr _ \<Rightarrow> moved (entry acct d) (covered acct d st) st st')"
    and gives_back: "adjust d st = (Inl e, st') \<Longrightarrow> has_account st acct \<Longrightarrow> subs_ok st \<Longrightarrow> d < 0 \<Longrightarrow> faults st \<noteq> []"
begin

lemma adjust_error:
  assumes "adjust d st = (Inl e, st')" "has_account st acct" "subs_ok st"
  shows "kept {} st st'" "posts (\<lambda>_. 0) st st'"
  using adjusts [OF assms] by auto

lemma adjust_done:
  assumes "adjust d st = (Inr u, st')" "has_account st acct" "subs_ok st"
  shows "kept {} st st'" "moved (entry acct d) (covered acct d st) st st'"
  using adjusts [OF assms] by auto

text \<open>Giving an amount back never credits more than the amount.\<close>

lemma returned:
  assumes "adjust (- n) st = (r, st')" "has_account st acct" "subs_ok st" "0 \<le> n"
  shows "kept {} st st'" "moved (entry acct (- n)) (faults st = [] \<and> covered acct (- n) st) st st'"
proof -
  have "kept {} st st' \<and> moved (entry acct (- n)) (faults st = [] \<and> covered acct (- n) st) st st'"
  proof (cases r)
    case (Inl e)
    note none = adjust_error [OF assms(1) [unfolded Inl] assms(2,3)]
    show ?thesis
    proof (cases "n = 0")
      case True
      with none show ?thesis by (simp add: posts_moved)
    next
      case False
      with assms(4) gives_back [OF assms(1) [unfolded Inl] assms(2,3)] none show ?thesis
        by (auto simp: moved_def posts_def entry_def)
    qed
  next
    case (Inr u)
    from adjust_done [OF assms(1) [unfolded Inr] assms(2,3)] show ?thesis by (auto intro: moved_weaken)
  qed
  then show "kept {} st st'" "moved (entry acct (- n)) (faults st = [] \<and> covered acct (- n) st) st st'" by auto
qed

end

sublocale quota_account \<subseteq> signed: chargeable acct "\<lambda>d. if d > 0 then decrease d else increase (- d)"
proof
  fix d st r st'
  assume run: "(if d > 0 then decrease d else increase (- d)) st = (r, st')" and acc: "has_account st acct"
  from adjust_result [OF run acc]
  show "kept {} st st' \<and> (case r of Inl _ \<Rightarrow> posts (\<lambda>_. 0) st st' | Inr _ \<Rightarrow> moved (entry acct d) (covered acct d st) st st')"
    by (cases r) (auto intro: kept_plan posts_moved)
next
  fix d st e st'
  assume run: "(if d > 0 then decrease d else increase (- d)) st = (Inl e, st')" and acc: "has_account st acct"
  from adjust_result(4) [OF run acc] show "faults st \<noteq> []" by simp
qed

lemma direct_subs: "direct (st\<lparr>subs := ss, usage := ul\<rparr>) = (direct st)\<lparr>subs := ss, usage := ul\<rparr>"
  by (simp add: direct_def settled_user_def settled_token_def settled_channel_def pending_def cong: map_cong)

lemma books_book_usage:
  assumes "row sub_id (sub_id s) (subs st) = Some s0"
  shows "books (book_usage s n rq d act st) a = (if a = UsageOf (sub_id s) then - n else books st a)"
  using assms by (cases a) (auto simp: book_usage_def direct_subs simp del: direct_row direct_token_row)

lemma kept_book_usage:
  assumes "row sub_id (sub_id s) (subs st) = Some s0" "bare st' = bare (book_usage s n rq d act st)" "calm st st'"
    "0 < sub_id s" "0 \<le> n" "amount_total s > 0 \<longrightarrow> n \<le> amount_total s"
  shows "kept X st st'"
proof -
  have f: "user_rows st' = user_rows st" "token_rows st' = token_rows st" "records st' = records st"
    "map sub_id (subs st') = map sub_id (subs st)"
    using bareD [OF assms(2)] by (auto simp: book_usage_def update_where_def)
  have "has_account st' a = has_account st a" for a
  proof (cases a)
    case (UsageOf i)
    from f(4) have "set (map sub_id (subs st')) = set (map sub_id (subs st))" by simp
    with UsageOf show ?thesis by simp
  qed (simp_all add: f)
  moreover have "subs_ok st \<longrightarrow> subs_ok st'"
    using subs_ok_book [OF _ assms(4-6)] subs_ok_bare [OF assms(2)] by simp
  ultimately show ?thesis using f assms(3) by (simp add: kept_def)
qed

interpretation subscription: chargeable "UsageOf i" "PostConsumeUserSubscriptionDelta i" for i
proof
  fix d st r st'
  assume run: "PostConsumeUserSubscriptionDelta i d st = (r, st')" and acc: "has_account st (UsageOf i)" and ok: "subs_ok st"
  from acc ok have i: "i > 0" by (auto simp: subs_ok_def)
  show "kept {} st st' \<and> (case r of Inl _ \<Rightarrow> posts (\<lambda>_. 0) st st' | Inr _ \<Rightarrow> moved (entry (UsageOf i) d) (covered (UsageOf i) d st) st st')"
  proof (cases "d = 0")
    case True
    with run i show ?thesis by (simp add: PostConsumeUserSubscriptionDelta_def moved_def)
  next
    case False
    from run i False show ?thesis
    proof (cases rule: post_delta_cases)
      case (error e)
      then have "calm st st'" by (simp add: calm_def)
      with error show ?thesis by (simp add: kept_bare posts_bare0)
    next
      case (ok s)
      then have s: "sub_id s = i" "0 < sub_id s" using row_Some i by fastforce+
      let ?n = "max 0 (amount_used s + d)"
      have "books st' a = (if a = UsageOf i then - ?n else books st a)" for a
        using books_book_usage [of s st s] ok(3,6) s by (metis books_bare)
      then have "moved (entry (UsageOf i) d) (covered (UsageOf i) d st) st st'"
        using ok(3) by (auto simp: moved_def posts_def entry_def covered_def)
      moreover have "kept {} st st'"
        by (rule kept_book_usage [OF _ ok(6)]) (use ok s in auto)
      ultimately show ?thesis using ok(1) by simp
    qed
  qed
next
  fix d st e st'
  assume run: "PostConsumeUserSubscriptionDelta i d st = (Inl e, st')" and acc: "has_account st (UsageOf i)"
    and ok: "subs_ok st" and d: "d < 0"
  from acc ok have i: "i > 0" by (auto simp: subs_ok_def)
  from d have "d \<noteq> 0" by simp
  with run i show "faults st \<noteq> []"
  proof (cases rule: post_delta_cases)
    case (error e')
    have "\<not> refused i d st"
      using acc ok d row_Some [of sub_id i "subs st"] unfolding has_row refused_def subs_ok_def by fastforce
    with error show ?thesis by blast
  qed simp
qed

section \<open>Sessions\<close>

declare has_account.simps [simp del] books.simps [simp del]

fun funding_account :: "funding_source \<Rightarrow> account" where
  "funding_account (WalletFunding w) = WalletOf (wf_user_id w)"
| "funding_account (SubscriptionFunding f) = UsageOf (sf_subscription_id f)"

text \<open>What a session that costs a given amount takes from the books.\<close>

definition token_part :: "relay_info \<Rightarrow> int \<Rightarrow> account \<Rightarrow> int" where
  "token_part info n a = (if ri_is_playground info then 0 else entry (TokenOf (ri_token_id info)) n a)"

definition bill :: "billing_session \<Rightarrow> int \<Rightarrow> account \<Rightarrow> int" where
  "bill s n a = entry (funding_account (bs_funding s)) n a + token_part (bs_info s) n a"

text \<open>What the funding source of a session knows to have been taken.\<close>

definition funded :: "billing_session \<Rightarrow> int" where
  "funded s = (case bs_funding s of WalletFunding w \<Rightarrow> wf_consumed w | SubscriptionFunding _ \<Rightarrow> bs_pre_consumed_quota s)"

definition sess_ok :: "store \<Rightarrow> billing_session \<Rightarrow> bool" where
  "sess_ok st s \<longleftrightarrow>
     0 \<le> bs_pre_consumed_quota s \<and> bs_token_consumed s = bs_pre_consumed_quota s \<and> (bs_funding_settled s \<longrightarrow> bs_settled s) \<and>
     has_account st (funding_account (bs_funding s)) \<and>
     (\<not> ri_is_playground (bs_info s) \<longrightarrow> has_account st (TokenOf (ri_token_id (bs_info s)))) \<and>
     bs_pre_consumed_quota s \<le> funded s \<and>
     (case bs_funding s of
        WalletFunding _ \<Rightarrow> True
      | SubscriptionFunding f \<Rightarrow>
          0 < sf_pre_consumed f \<and> 0 \<le> bs_extra_reserved s \<and>
          sf_pre_consumed f + bs_extra_reserved s = bs_pre_consumed_quota s \<and>
          ri_subscription_id (bs_info s) = sf_subscription_id f \<and> TrimSpace (sf_request_id f) \<noteq> [])"

lemma sess_ok_kept: "sess_ok st s \<Longrightarrow> kept X st st' \<Longrightarrow> sess_ok st' s"
  by (auto simp: sess_ok_def kept_def split: funding_source.splits)

lemma funding_settles:
  assumes "funding_Settle f d st = (r, st')" "has_account st (funding_account f)" "subs_ok st"
  shows "kept {} st st'"
    "case r of Inl _ \<Rightarrow> posts (\<lambda>_. 0) st st' | Inr _ \<Rightarrow> moved (entry (funding_account f) d) (covered (funding_account f) d st) st st'"
proof -
  have "kept {} st st' \<and> (case r of Inl _ \<Rightarrow> posts (\<lambda>_. 0) st st' |
      Inr _ \<Rightarrow> moved (entry (funding_account f) d) (covered (funding_account f) d st) st st')"
  proof (cases "d = 0")
    case True
    with assms(1) show ?thesis by (cases f) (auto simp: moved_def)
  next
    case False
    show ?thesis
    proof (cases f)
      case (WalletFunding w)
      with assms False
      have "(if d > 0 then DecreaseUserQuota (wf_user_id w) d False else IncreaseUserQuota (wf_user_id w) (- d)) st = (r, st')"
        by (simp split: if_splits)
      from wallet.signed.adjusts [OF this] WalletFunding assms(2,3) show ?thesis by (cases r) simp_all
    next
      case (SubscriptionFunding g)
      with assms False have "PostConsumeUserSubscriptionDelta (sf_subscription_id g) d st = (r, st')" by simp
      from subscription.adjusts [OF this] SubscriptionFunding assms(2,3) show ?thesis by (cases r) simp_all
    qed
  qed
  then show "kept {} st st'"
    "case r of Inl _ \<Rightarrow> posts (\<lambda>_. 0) st st' | Inr _ \<Rightarrow> moved (entry (funding_account f) d) (covered (funding_account f) d st) st st'"
    by auto
qed

lemma adjust_token_result:
  assumes "adjust_token info d st = (r, st')" "\<not> ri_is_playground info \<longrightarrow> has_account st (TokenOf (ri_token_id info))"
  shows "kept {} st st'" "moved (token_part info d) (faults st = []) st st'"
    "\<And>a. \<not> is_token a \<Longrightarrow> books st' a = books st a"
proof -
  have "kept {} st st' \<and> moved (token_part info d) (faults st = []) st st' \<and> (\<forall>a. \<not> is_token a \<longrightarrow> books st' a = books st a)"
  proof (cases "ri_is_playground info")
    case True
    with assms(1) show ?thesis by (auto simp: adjust_token_def moved_def token_part_def posts_def)
  next
    case False
    then have run: "(if d > 0 then DecreaseTokenQuota (ri_token_id info) d else IncreaseTokenQuota (ri_token_id info) (- d)) st = (r, st')"
      and acc: "has_account st (TokenOf (ri_token_id info))" using assms by (simp_all add: adjust_token_def split: if_splits)
    note res = token.adjust_result [OF run acc]
    have part: "token_part info d = entry (TokenOf (ri_token_id info)) d" using False by (simp add: token_part_def fun_eq_iff)
    have same: "books st' a = books st a" if "\<not> is_token a" for a
      using res(3) that by (cases a) (auto simp: posts_def entry_def)
    moreover have "moved (token_part info d) (faults st = []) st st'"
      using res(3,4) same unfolding part moved_def by (cases "isl r") (auto simp: entry_def)
    ultimately show ?thesis using res(1,2) by (simp add: kept_plan)
  qed
  then show "kept {} st st'" "moved (token_part info d) (faults st = []) st st'" "\<And>a. \<not> is_token a \<Longrightarrow> books st' a = books st a"
    by auto
qed

text \<open>A session after a step: the same request and, but for what it knows to have taken, the same funding.\<close>

definition same_request :: "billing_session \<Rightarrow> billing_session \<Rightarrow> bool" where
  "same_request s s' \<longleftrightarrow>
     funding_account (bs_funding s') = funding_account (bs_funding s) \<and>
     ri_is_playground (bs_info s') = ri_is_playground (bs_info s) \<and> ri_token_id (bs_info s') = ri_token_id (bs_info s) \<and>
     (\<forall>f. bs_funding s = SubscriptionFunding f \<longrightarrow> bs_funding s' = SubscriptionFunding f) \<and>
     (\<forall>w. bs_funding s = WalletFunding w \<longrightarrow> (\<exists>w'. bs_funding s' = WalletFunding w'))"

lemma bill_same: "same_request s s' \<Longrightarrow> bill s' n = bill s n"
  by (simp add: same_request_def bill_def token_part_def fun_eq_iff)

text \<open>The outcome of \<open>Settle\<close> on an open session: an error of the funding source and no change, or the session is
  settled and the difference to the pre-consumed amount is taken.\<close>

lemma settle_result:
  assumes "Settle actual s st = (r, s', st')" "sess_ok st s" "subs_ok st" "\<not> bs_settled s"
  shows "kept {} st st' \<and> same_request s s' \<and> bs_refunded s' = bs_refunded s \<and> sess_ok st' s' \<and>
    bs_pre_consumed_quota s' = bs_pre_consumed_quota s \<and> funded s' = funded s \<and> bs_trusted s' = bs_trusted s \<and>
    (if bs_settled s' then moved (bill s (actual - bs_pre_consumed_quota s))
         (faults st = [] \<and> covered (funding_account (bs_funding s)) (actual - bs_pre_consumed_quota s) st) st st'
     else s' = s \<and> posts (\<lambda>_. 0) st st')"
proof -
  let ?d = "actual - bs_pre_consumed_quota s" and ?acct = "funding_account (bs_funding s)"
  have acc: "has_account st ?acct" "\<not> ri_is_playground (bs_info s) \<longrightarrow> has_account st (TokenOf (ri_token_id (bs_info s)))"
    and nf: "\<not> bs_funding_settled s" using assms(2,4) by (auto simp: sess_ok_def)
  show ?thesis
  proof (cases "?d = 0")
    case True
    then have "s' = s\<lparr>bs_settled := True\<rparr>" "st' = st" using assms(1,4) by (auto simp: Settle_def Let_def)
    moreover have "bill s 0 = (\<lambda>_. 0)" by (simp add: bill_def token_part_def fun_eq_iff)
    ultimately show ?thesis using True assms(2)
      by (auto simp: same_request_def sess_ok_def funded_def moved_def split: funding_source.splits)
  next
    case False
    obtain q st1 where q: "funding_Settle (bs_funding s) ?d st = (q, st1)" by fastforce
    note fs = funding_settles [OF q acc(1) assms(3)]
    show ?thesis
    proof (cases q)
      case (Inl e)
      with q False nf assms(1,4) have "s' = s" "st' = st1" by (auto simp: Settle_def Let_def)
      with fs Inl assms(2,4) sess_ok_kept show ?thesis by (auto simp: same_request_def)
    next
      case (Inr u)
      obtain t st2 where t: "adjust_token (bs_info s) ?d st1 = (t, st2)" by fastforce
      from Inr q t False nf assms(1,4)
      have s': "st' = st2" "bs_settled s'" "bs_refunded s' = bs_refunded s" "bs_funding s' = bs_funding s"
        "bs_pre_consumed_quota s' = bs_pre_consumed_quota s" "bs_token_consumed s' = bs_token_consumed s"
        "bs_extra_reserved s' = bs_extra_reserved s" "bs_trusted s' = bs_trusted s"
        "ri_is_playground (bs_info s') = ri_is_playground (bs_info s)" "ri_token_id (bs_info s') = ri_token_id (bs_info s)"
        "ri_subscription_id (bs_info s') = ri_subscription_id (bs_info s)"
        by (auto simp: Settle_def finish_settle_def Let_def split: prod.splits if_splits)
      from fs(1) acc(2) have "\<not> ri_is_playground (bs_info s) \<longrightarrow> has_account st1 (TokenOf (ri_token_id (bs_info s)))"
        by (simp add: kept_def)
      note tok = adjust_token_result [OF t this]
      from fs(2) Inr have "moved (entry ?acct ?d) (covered ?acct ?d st) st st1" by simp
      from moved_trans [OF this tok(2)]
      have "moved (bill s ?d) (covered ?acct ?d st \<and> faults st1 = []) st st2" by (simp add: bill_def [abs_def])
      then have "moved (bill s ?d) (faults st = [] \<and> covered ?acct ?d st) st st2"
        using fs(1) by (auto simp: kept_def calm_def intro: moved_weaken)
      moreover have k: "kept {} st st2" using kept_trans [OF fs(1) tok(1)] .
      moreover have "sess_ok st2 s'" using sess_ok_kept [OF assms(2) k] s'
        by (auto simp: sess_ok_def funded_def split: funding_source.splits)
      moreover have "funded s' = funded s" using s' by (cases "bs_funding s") (simp_all add: funded_def)
      ultimately show ?thesis using s' by (simp add: same_request_def)
    qed
  qed
qed

lemma charges_result:
  assumes "charges a d m" "m st = (r, st')" "has_account st a"
  shows "kept {} st st'" "posts (if isl r then (\<lambda>_. 0) else entry a d) st st'" "isl r \<Longrightarrow> faults st \<noteq> []"
  using assms(1) [unfolded charges_def, rule_format, OF assms(2,3)] by (cases r; auto intro: kept_plan)+

lemma pre_consume_token_result:
  assumes "PreConsumeTokenQuota info q st = (r, st')" "0 \<le> q"
    "\<not> ri_is_playground info \<longrightarrow> has_account st (TokenOf (ri_token_id info))"
  shows "kept {} st st'" "posts (if isl r then (\<lambda>_. 0) else token_part info q) st st'"
proof -
  have "kept {} st st' \<and> posts (if isl r then (\<lambda>_. 0) else token_part info q) st st'"
  proof (cases "ri_is_playground info")
    case True
    with assms(1,2) show ?thesis by (simp add: PreConsumeTokenQuota_def token_part_def posts_def)
  next
    case False
    with assms(1,2) have run: "and_then (GetTokenByKey (ri_token_key info)) (\<lambda>token.
        if \<not> ri_token_unlimited info \<and> remain_quota token < q then throw ''token quota is not enough''
        else DecreaseTokenQuota (ri_token_id info) q) st = (r, st')"
      by (simp add: PreConsumeTokenQuota_def)
    have part: "token_part info q = entry (TokenOf (ri_token_id info)) q" using False by (simp add: token_part_def fun_eq_iff)
    from run show ?thesis
    proof (cases rule: and_then_cases)
      case (error e)
      from error(1) have "bare st' = bare st" "calm st st'"
        unfolding GetTokenByKey_def by (cases rule: query_first_cases; simp add: calm_def)+
      with error(2) show ?thesis by (simp add: kept_bare posts_bare0)
    next
      case (ok t st1)
      from ok(1) have st1: "bare st1 = bare st" "calm st st1"
        unfolding GetTokenByKey_def by (cases rule: query_first_cases; simp add: calm_def)+
      have k: "kept {} st st1" using kept_bare [OF st1] .
      show ?thesis
      proof (cases "\<not> ri_token_unlimited info \<and> remain_quota t < q")
        case True
        with ok(2) k posts_bare0 [OF st1(1)] show ?thesis by auto
      next
        case no: False
        with ok(2) have "DecreaseTokenQuota (ri_token_id info) q st1 = (r, st')" by (simp split: if_splits)
        moreover have "has_account st1 (TokenOf (ri_token_id info))" using assms(3) False k by (simp add: kept_def)
        ultimately show ?thesis
          using charges_result [OF token.decrease [OF assms(2)]] kept_trans [OF k] posts_bare0 [OF st1(1)]
          by (fastforce simp: part posts_def)
      qed
    qed
  qed
  then show "kept {} st st'" "posts (if isl r then (\<lambda>_. 0) else token_part info q) st st'" by auto
qed

definition tight :: "billing_session \<Rightarrow> bool" where
  "tight s \<longleftrightarrow> funded s = bs_pre_consumed_quota s"

lemma sub_books_le: "subs_ok st \<Longrightarrow> books st (UsageOf i) \<le> 0"
  by (auto simp: books.simps subs_ok_def dest!: row_Some split: option.splits)

lemma reserve_funding_result:
  assumes "reserveFunding f d st = (r, st')" "has_account st (funding_account f)" "subs_ok st" "0 < d"
  shows "kept {} st st'" "case r of Inl _ \<Rightarrow> posts (\<lambda>_. 0) st st' | Inr f' \<Rightarrow>
      posts (entry (funding_account f) d) st st' \<and> funding_account f' = funding_account f \<and>
      (case f of WalletFunding w \<Rightarrow> f' = WalletFunding (w\<lparr>wf_consumed := wf_consumed w + d\<rparr>) | SubscriptionFunding g \<Rightarrow> f' = f)"
proof -
  have "kept {} st st' \<and> (case r of Inl _ \<Rightarrow> posts (\<lambda>_. 0) st st' | Inr f' \<Rightarrow>
      posts (entry (funding_account f) d) st st' \<and> funding_account f' = funding_account f \<and>
      (case f of WalletFunding w \<Rightarrow> f' = WalletFunding (w\<lparr>wf_consumed := wf_consumed w + d\<rparr>) | SubscriptionFunding g \<Rightarrow> f' = f))"
  proof (cases f)
    case (WalletFunding w)
    obtain q st1 where q: "DecreaseUserQuota (wf_user_id w) d False st = (q, st1)" by fastforce
    with WalletFunding assms charges_result [OF wallet.decrease q] show ?thesis by (cases q) auto
  next
    case (SubscriptionFunding g)
    obtain q st1 where q: "PostConsumeUserSubscriptionDelta (sf_subscription_id g) d st = (q, st1)" by fastforce
    have "covered (UsageOf (sf_subscription_id g)) d st"
      using sub_books_le [OF assms(3)] assms(4) by (auto simp: covered_def intro: order_trans [of _ 0])
    with SubscriptionFunding assms subscription.adjusts [OF q] q show ?thesis by (cases q) (auto simp: moved_def)
  qed
  then show "kept {} st st'" "case r of Inl _ \<Rightarrow> posts (\<lambda>_. 0) st st' | Inr f' \<Rightarrow>
      posts (entry (funding_account f) d) st st' \<and> funding_account f' = funding_account f \<and>
      (case f of WalletFunding w \<Rightarrow> f' = WalletFunding (w\<lparr>wf_consumed := wf_consumed w + d\<rparr>) | SubscriptionFunding g \<Rightarrow> f' = f)"
    by auto
qed

lemma rollback_result:
  assumes "rollbackFundingReserve f d st = (f', st')" "has_account st (funding_account f)" "subs_ok st" "0 < d"
    "covered (funding_account f) (- d) st"
  shows "kept {} st st' \<and> funding_account f' = funding_account f \<and>
    (case f of WalletFunding w \<Rightarrow>
        f' = WalletFunding (w\<lparr>wf_consumed := wf_consumed w - d\<rparr>) \<and> posts (entry (funding_account f) (- d)) st st' \<or>
        f' = f \<and> posts (\<lambda>_. 0) st st' \<and> faults st \<noteq> []
      | SubscriptionFunding _ \<Rightarrow>
        f' = f \<and> (posts (entry (funding_account f) (- d)) st st' \<or> posts (\<lambda>_. 0) st st' \<and> faults st \<noteq> []))"
proof (cases f)
  case (WalletFunding w)
  obtain q st1 where q: "IncreaseUserQuota (wf_user_id w) d st = (q, st1)" by fastforce
  with WalletFunding assms charges_result [OF wallet.increase q] show ?thesis by (cases q) auto
next
  case (SubscriptionFunding g)
  obtain q st1 where q: "PostConsumeUserSubscriptionDelta (sf_subscription_id g) (- d) st = (q, st1)" by fastforce
  with SubscriptionFunding assms have st': "f' = f" "st' = st1" by auto
  show ?thesis
  proof (cases q)
    case (Inl e)
    from subscription.gives_back [OF q [unfolded Inl]] subscription.adjust_error [OF q [unfolded Inl]]
    show ?thesis using SubscriptionFunding st' assms by simp
  next
    case (Inr u)
    from subscription.adjust_done [OF q [unfolded Inr]] show ?thesis using SubscriptionFunding st' assms by (simp add: moved_def)
  qed
qed

lemma reserve_token_result:
  assumes "reserveToken info d st = (r, st')" "0 < d" "\<not> ri_is_playground info \<longrightarrow> has_account st (TokenOf (ri_token_id info))"
  shows "kept {} st st'" "posts (if isl r then (\<lambda>_. 0) else token_part info d) st st'"
proof -
  have "kept {} st st' \<and> posts (if isl r then (\<lambda>_. 0) else token_part info d) st st'"
  proof (cases "ri_is_playground info")
    case True
    with assms(1) show ?thesis by (simp add: reserveToken_def token_part_def posts_def)
  next
    case False
    with assms have run: "catch (PreConsumeTokenQuota info d) (\<lambda>err. throw (ErrorCodePreConsumeTokenQuotaFailed, err)) st = (r, st')"
      by (simp add: reserveToken_def split: if_splits)
    obtain q st1 where q: "PreConsumeTokenQuota info d st = (q, st1)" by fastforce
    with run have "st' = st1" "isl r = isl q" by (auto simp: catch_def throw_def split: sum.splits)
    with pre_consume_token_result [OF q _ assms(3)] assms(2) show ?thesis by simp
  qed
  then show "kept {} st st'" "posts (if isl r then (\<lambda>_. 0) else token_part info d) st st'" by auto
qed

lemma sync_fields [simp]:
  "bs_funding (syncRelayInfo s) = bs_funding s" "bs_pre_consumed_quota (syncRelayInfo s) = bs_pre_consumed_quota s"
  "bs_token_consumed (syncRelayInfo s) = bs_token_consumed s" "bs_extra_reserved (syncRelayInfo s) = bs_extra_reserved s"
  "bs_trusted (syncRelayInfo s) = bs_trusted s" "bs_funding_settled (syncRelayInfo s) = bs_funding_settled s"
  "bs_settled (syncRelayInfo s) = bs_settled s" "bs_refunded (syncRelayInfo s) = bs_refunded s"
  "ri_is_playground (bs_info (syncRelayInfo s)) = ri_is_playground (bs_info s)"
  "ri_token_id (bs_info (syncRelayInfo s)) = ri_token_id (bs_info s)"
  "ri_request_id (bs_info (syncRelayInfo s)) = ri_request_id (bs_info s)"
  by (simp_all add: syncRelayInfo_def Let_def split: funding_source.splits)

lemma sync_subscription:
  "bs_funding s = SubscriptionFunding f \<Longrightarrow> ri_subscription_id (bs_info (syncRelayInfo s)) = sf_subscription_id f"
  by (simp add: syncRelayInfo_def Let_def)

text \<open>The outcome of \<open>Reserve\<close>: what the session knows to have taken changes by what was taken, in the books of its
  funding source and, after a success, of its token.\<close>

definition reserved :: "billing_session \<Rightarrow> billing_session \<Rightarrow> account \<Rightarrow> int" where
  "reserved s s' a = entry (funding_account (bs_funding s)) (funded s' - funded s) a +
     token_part (bs_info s) (bs_pre_consumed_quota s' - bs_pre_consumed_quota s) a"

lemma reserved_none: "funded s' = funded s \<Longrightarrow> bs_pre_consumed_quota s' = bs_pre_consumed_quota s \<Longrightarrow> reserved s s' = (\<lambda>_. 0)"
  by (simp add: reserved_def token_part_def fun_eq_iff)

definition same_flags :: "billing_session \<Rightarrow> billing_session \<Rightarrow> bool" where
  "same_flags s s' \<longleftrightarrow> bs_settled s' = bs_settled s \<and> bs_refunded s' = bs_refunded s \<and>
     bs_funding_settled s' = bs_funding_settled s \<and> bs_trusted s' = bs_trusted s"

lemma reserve_done:
  assumes "sess_ok st s" "0 < d" "kept {} st st'" "posts (bill s d) st st'"
    and "case bs_funding s of WalletFunding w \<Rightarrow> f = WalletFunding (w\<lparr>wf_consumed := wf_consumed w + d\<rparr>) | SubscriptionFunding g \<Rightarrow> f = bs_funding s"
    and s': "s' = syncRelayInfo (s\<lparr>bs_funding := f, bs_pre_consumed_quota := bs_pre_consumed_quota s + d,
        bs_token_consumed := bs_token_consumed s + d, bs_extra_reserved := bs_extra_reserved s + d\<rparr>)"
  shows "same_request s s' \<and> sess_ok st' s' \<and> same_flags s s' \<and> moved (reserved s s') (faults st = []) st st' \<and> (tight s \<longrightarrow> tight s')"
proof -
  have ok: "sess_ok st' s" using sess_ok_kept [OF assms(1,3)] .
  have funded: "funded s' = funded s + d"
    using assms(5) by (cases "bs_funding s") (simp_all add: s' funded_def)
  have "reserved s s' = bill s d" by (simp add: reserved_def bill_def fun_eq_iff funded) (simp add: s')
  moreover have "same_request s s'" using assms(5) by (cases "bs_funding s") (simp_all add: same_request_def s')
  moreover have "sess_ok st' s'"
  proof (cases "bs_funding s")
    case (WalletFunding w)
    with assms(2,5) ok show ?thesis by (simp add: sess_ok_def s' funded_def)
  next
    case (SubscriptionFunding g)
    with assms(5) have f: "f = SubscriptionFunding g" by simp
    with SubscriptionFunding assms(2) ok show ?thesis
      by (simp add: sess_ok_def s' funded_def sync_subscription [where f = g])
  qed
  moreover have "tight s \<longrightarrow> tight s'" by (simp add: tight_def funded) (simp add: s')
  ultimately show ?thesis using posts_moved [OF assms(4)] by (simp add: same_flags_def s')
qed

lemma reserve_result:
  assumes "Reserve t s st = (r, s', st')" "sess_ok st s" "subs_ok st"
  shows "kept {} st st' \<and> same_request s s' \<and> sess_ok st' s' \<and> same_flags s s' \<and>
    moved (reserved s s') (faults st = []) st st' \<and> (faults st = [] \<and> tight s \<longrightarrow> tight s')"
proof (cases "bs_settled s \<or> bs_refunded s \<or> bs_trusted s \<or> t \<le> bs_pre_consumed_quota s")
  case True
  with assms(1) have "s' = s" "st' = st" by (auto simp: Reserve_def Let_def)
  with assms(2) show ?thesis by (simp add: same_request_def same_flags_def reserved_none moved_def)
next
  case False
  let ?d = "t - bs_pre_consumed_quota s" and ?acct = "funding_account (bs_funding s)"
  from False have d: "0 < ?d" by simp
  have acc: "has_account st ?acct" "\<not> ri_is_playground (bs_info s) \<longrightarrow> has_account st (TokenOf (ri_token_id (bs_info s)))"
    using assms(2) by (auto simp: sess_ok_def)
  obtain q st1 where q: "reserveFunding (bs_funding s) ?d st = (q, st1)" by fastforce
  note fund = reserve_funding_result [OF q acc(1) assms(3) d]
  show ?thesis
  proof (cases q)
    case (Inl e)
    with q False assms(1) have "s' = s" "st' = st1" by (simp_all add: Reserve_def Let_def)
    with fund Inl assms(2) show ?thesis
      by (simp add: same_request_def same_flags_def reserved_none posts_moved sess_ok_kept)
  next
    case (Inr f)
    with fund(2) have f: "posts (entry ?acct ?d) st st1" "funding_account f = ?acct"
      "case bs_funding s of WalletFunding w \<Rightarrow> f = WalletFunding (w\<lparr>wf_consumed := wf_consumed w + ?d\<rparr>) | SubscriptionFunding g \<Rightarrow> f = bs_funding s"
      by simp_all
    from fund(1) acc have acc1: "has_account st1 ?acct"
        "\<not> ri_is_playground (bs_info s) \<longrightarrow> has_account st1 (TokenOf (ri_token_id (bs_info s)))" "subs_ok st1"
      using assms(3) by (simp_all add: kept_def)
    obtain p st2 where p: "reserveToken (bs_info s) ?d st1 = (p, st2)" by fastforce
    note tok = reserve_token_result [OF p d acc1(2)]
    have k: "kept {} st st2" using kept_trans [OF fund(1) tok(1)] .
    show ?thesis
    proof (cases p)
      case ok: (Inr u)
      from ok q Inr p False assms(1) have s': "st' = st2" "s' = syncRelayInfo (s\<lparr>bs_funding := f,
          bs_pre_consumed_quota := bs_pre_consumed_quota s + ?d, bs_token_consumed := bs_token_consumed s + ?d,
          bs_extra_reserved := bs_extra_reserved s + ?d\<rparr>)"
        by (simp_all add: Reserve_def Let_def)
      have "posts (bill s ?d) st st2" using f(1) tok(2) ok by (simp add: posts_def bill_def)
      from reserve_done [OF assms(2) d k this f(3) s'(2)] k show ?thesis by (simp add: s'(1))
    next
      case (Inl e)
      obtain f' st3 where rb: "rollbackFundingReserve f ?d st2 = (f', st3)" by fastforce
      from Inl q \<open>q = Inr f\<close> p rb False assms(1) have s': "st' = st3" "s' = s\<lparr>bs_funding := f'\<rparr>"
        by (simp_all add: Reserve_def Let_def)
      from tok(1) acc1 f(2) have acc2: "has_account st2 (funding_account f)" "subs_ok st2" by (simp_all add: kept_def)
      have there: "posts (entry ?acct ?d) st st2" using f(1) tok(2) Inl by (simp add: posts_def)
      have "covered (funding_account f) (- ?d) st2"
      proof (cases "?acct")
        case (UsageOf i)
        with there have "books st2 (UsageOf i) = books st (UsageOf i) - ?d" by (simp add: posts_def entry_def)
        with UsageOf f(2) sub_books_le [OF assms(3), of i] show ?thesis by (simp add: covered_def)
      qed (simp_all add: covered_def f(2))
      note undone = rollback_result [OF rb acc2 d this]
      then have k3: "kept {} st st3" using kept_trans [OF k] by simp
      have f2: "faults st2 \<noteq> [] \<Longrightarrow> faults st \<noteq> []" using k by (auto simp: kept_def calm_def)
      have ok3: "sess_ok st3 s" using sess_ok_kept [OF assms(2) k3] .
      show ?thesis
      proof (cases "bs_funding s")
        case (WalletFunding w)
        with f(3) undone have "f' = bs_funding s \<and> posts (\<lambda>_. 0) st st3 \<or> f' = f \<and> posts (entry ?acct ?d) st st3 \<and> faults st \<noteq> []"
          using f2 posts_undo [OF there, of st3] posts_then_none [OF there, of st3] by auto
        then show ?thesis
        proof
          assume "f' = bs_funding s \<and> posts (\<lambda>_. 0) st st3"
          then show ?thesis using s' k3 ok3 by (simp add: same_request_def same_flags_def reserved_none posts_moved)
        next
          assume c: "f' = f \<and> posts (entry ?acct ?d) st st3 \<and> faults st \<noteq> []"
          with s' f(3) WalletFunding have "funded s' = funded s + ?d" by (simp add: funded_def)
          then have "reserved s s' = entry ?acct ?d" by (simp add: reserved_def token_part_def fun_eq_iff s')
          with c s' k3 ok3 d f(3) WalletFunding show ?thesis
            by (simp add: same_request_def same_flags_def posts_moved sess_ok_def funded_def)
        qed
      next
        case (SubscriptionFunding g)
        with f(3) undone s' have s'': "s' = s" "f = bs_funding s" by simp_all
        from undone SubscriptionFunding s''(2) f2 posts_undo [OF there, of st3] posts_then_none [OF there, of st3]
        have "posts (\<lambda>_. 0) st st3 \<or> posts (entry ?acct ?d) st st3 \<and> faults st \<noteq> []" by auto
        then have "moved (\<lambda>_. 0) (faults st = []) st st3" using d by (auto simp: moved_def posts_def entry_def)
        with s''(1) s'(1) k3 ok3 show ?thesis by (simp add: same_request_def same_flags_def reserved_none)
      qed
    qed
  qed
qed

section \<open>Refunds\<close>

definition rec_ok :: "store \<Rightarrow> billing_session \<Rightarrow> bool" where
  "rec_ok st s \<longleftrightarrow> (case bs_funding s of WalletFunding _ \<Rightarrow> True | SubscriptionFunding f \<Rightarrow>
     (\<exists>rec. row rec_request_id (sf_request_id f) (records st) = Some rec \<and> rec_sub_id rec = sf_subscription_id f \<and>
        rec_pre_consumed rec = sf_pre_consumed f \<and> rec_status rec = ''consumed''))"

definition request_ids :: "billing_session \<Rightarrow> string set" where
  "request_ids s = (case bs_funding s of WalletFunding _ \<Rightarrow> {} | SubscriptionFunding f \<Rightarrow> {sf_request_id f})"

definition task_of :: "billing_session \<Rightarrow> refund_task" where
  "task_of s =
     \<lparr>rt_token_id = ri_token_id (bs_info s), rt_is_playground = ri_is_playground (bs_info s),
      rt_token_consumed = bs_token_consumed s, rt_extra_reserved = bs_extra_reserved s,
      rt_subscription_id = ri_subscription_id (bs_info s), rt_funding = bs_funding s\<rparr>"

lemma direct_records: "direct (st\<lparr>records := rs\<rparr>) = (direct st)\<lparr>records := rs\<rparr>"
  by (simp add: direct_def settled_user_def settled_token_def settled_channel_def pending_def cong: map_cong)

lemma books_mark [simp]: "books (mark_refunded rec st) = books st"
proof
  fix a show "books (mark_refunded rec st) a = books st a"
    by (cases a) (simp_all add: books.simps mark_refunded_def direct_records del: direct_row direct_token_row)
qed

lemma kept_records:
  assumes "bare st' = bare (st\<lparr>records := rs\<rparr>)" "calm st st'"
    "\<And>rq. rq \<notin> X \<Longrightarrow> row rec_request_id rq rs = row rec_request_id rq (records st)"
    "\<And>rq. row rec_request_id rq (records st) \<noteq> None \<Longrightarrow> row rec_request_id rq rs \<noteq> None"
  shows "kept X st st'"
proof -
  have "has_account st' a = has_account st a" for a
    using bareD [OF assms(1)] by (cases a) (simp_all add: has_account.simps)
  then show ?thesis using bareD [OF assms(1)] assms(2-) by (simp add: kept_def subs_ok_def)
qed

text \<open>The refund of a pre-consumption is tried up to three times and happens at most once.\<close>

lemma refund_attempts_result:
  assumes "refund_attempts (Suc n) (RefundSubscriptionPreConsume rq) st = (r, st')"
    and "row rec_request_id rq (records st) = Some rec" "rec_pre_consumed rec > 0" "TrimSpace rq \<noteq> []" "rec_status rec = ''consumed''"
    and "has_account st (UsageOf (rec_sub_id rec))" "subs_ok st"
  shows "(\<exists>e. r = Inl e \<and> bare st' = bare st \<and> faults st \<noteq> []) \<or>
    (\<exists>s. r = Inr () \<and> row sub_id (rec_sub_id rec) (subs st) = Some s \<and> calm st st' \<and>
       bare st' = bare (mark_refunded rec (book_usage s (max 0 (amount_used s - rec_pre_consumed rec)) rq (- rec_pre_consumed rec) ''refund'' st)))"
  using assms
proof (induction n arbitrary: st)
  case 0
  obtain q st1 where q: "RefundSubscriptionPreConsume rq st = (q, st1)" by fastforce
  have nr: "\<not> refused (rec_sub_id rec) (- rec_pre_consumed rec) st"
    using "0.prems"(3,6,7) row_Some [of sub_id "rec_sub_id rec" "subs st"] unfolding has_row refused_def subs_ok_def by fastforce
  from q "0.prems"(2-4) show ?case
  proof (cases rule: refund_cases)
    case (error e)
    with q "0.prems"(1) nr show ?thesis by auto
  next
    case again
    with "0.prems"(5) show ?thesis by simp
  next
    case (ok s)
    with q "0.prems"(1) show ?thesis by auto
  qed
next
  case (Suc n)
  obtain q st1 where q: "RefundSubscriptionPreConsume rq st = (q, st1)" by fastforce
  have nr: "\<not> refused (rec_sub_id rec) (- rec_pre_consumed rec) st"
    using Suc.prems(3,6,7) row_Some [of sub_id "rec_sub_id rec" "subs st"] unfolding has_row refused_def subs_ok_def by fastforce
  from q Suc.prems(2-4) show ?case
  proof (cases rule: refund_cases)
    case (error e)
    then have f: "faults st \<noteq> []" using nr by blast
    have run: "refund_attempts (Suc n) (RefundSubscriptionPreConsume rq) st1 = (r, st')"
      using Suc.prems(1) q error(1) by simp
    have "row rec_request_id rq (records st1) = Some rec" "has_account st1 (UsageOf (rec_sub_id rec))" "subs_ok st1"
      using Suc.prems(2,6,7) bareD [OF error(2)] subs_ok_bare [OF error(2)] by (simp_all add: has_account.simps)
    from Suc.IH [OF run this(1) Suc.prems(3-5) this(2,3)] error(2) f bareD(5) [OF error(2)]
      mark_refunded_bare [OF book_usage_bare [OF error(2)]] show ?thesis
      by (auto simp: calm_def)
  next
    case again
    with Suc.prems(5) show ?thesis by simp
  next
    case (ok s)
    with q Suc.prems(1) show ?thesis by auto
  qed
qed

definition pre_funded :: "billing_session \<Rightarrow> int" where
  "pre_funded s = (case bs_funding s of WalletFunding w \<Rightarrow> wf_consumed w | SubscriptionFunding f \<Rightarrow> sf_pre_consumed f)"

lemma subscription_refund_result:
  assumes "refundWithRetry (RefundSubscriptionPreConsume rq) st = (r, st')"
    and "row rec_request_id rq (records st) = Some rec" "rec_pre_consumed rec > 0" "TrimSpace rq \<noteq> []" "rec_status rec = ''consumed''"
    and "has_account st (UsageOf (rec_sub_id rec))" "subs_ok st"
  defines "acct \<equiv> UsageOf (rec_sub_id rec)" and "n \<equiv> rec_pre_consumed rec"
  shows "kept {rq} st st'" "moved (entry acct (- n)) (faults st = [] \<and> covered acct (- n) st) st st'"
proof -
  have "refund_attempts (Suc 2) (RefundSubscriptionPreConsume rq) st = (r, st')"
    using assms(1) by (simp add: refundWithRetry_def numeral_3_eq_3)
  from refund_attempts_result [OF this assms(2-7)]
  have "kept {rq} st st' \<and> moved (entry acct (- n)) (faults st = [] \<and> covered acct (- n) st) st st'"
  proof (elim disjE exE conjE)
    fix e assume "bare st' = bare st" "faults st \<noteq> []"
    moreover from this have "posts (\<lambda>_. 0) st st'" "calm st st'" by (simp_all add: posts_bare0 calm_def)
    ultimately show ?thesis using assms(3) by (auto simp: kept_bare moved_def posts_def entry_def n_def)
  next
    fix s assume s: "row sub_id (rec_sub_id rec) (subs st) = Some s" "calm st st'"
      and bare: "bare st' = bare (mark_refunded rec (book_usage s (max 0 (amount_used s - rec_pre_consumed rec)) rq (- rec_pre_consumed rec) ''refund'' st))"
    let ?st = "book_usage s (max 0 (amount_used s - n)) rq (- n) ''refund'' st"
    have id: "sub_id s = rec_sub_id rec" and "s \<in> set (subs st)" using row_Some [OF s(1)] by auto
    then have sok: "0 < sub_id s" "0 \<le> amount_used s" "amount_total s > 0 \<longrightarrow> amount_used s \<le> amount_total s"
      using assms(7) by (auto simp: subs_ok_def)
    have "books st' a = (if a = acct then - max 0 (amount_used s - n) else books st a)" for a
      using books_book_usage [of s st s] s(1) id bare unfolding acct_def n_def by (metis books_bare books_mark)
    then have "moved (entry acct (- n)) (faults st = [] \<and> covered acct (- n) st) st st'"
      using s(1) by (auto simp: moved_def posts_def entry_def covered_def acct_def books.simps)
    moreover have "kept {rq} st ?st"
      by (rule kept_book_usage [of s st s, OF _ refl]) (use s sok id assms(3) in \<open>auto simp: n_def calm_def book_usage_def\<close>)
    moreover have "kept {rq} ?st st'"
    proof (rule kept_records)
      show "bare st' = bare (?st\<lparr>records := update_where rec_request_id (rec_request_id rec)
          (\<lambda>_. rec\<lparr>rec_status := ''refunded'', rec_updated_at := clock ?st\<rparr>) (records ?st)\<rparr>)"
        using bare by (simp add: mark_refunded_def n_def)
      show "calm ?st st'" using s(2) by (simp add: calm_def book_usage_def)
    qed (use assms(2) row_Some [of rec_request_id rq "records st" rec] in \<open>auto simp: book_usage_def\<close>)
    ultimately show ?thesis using kept_trans by blast
  qed
  then show "kept {rq} st st'" "moved (entry acct (- n)) (faults st = [] \<and> covered acct (- n) st) st st'" by auto
qed

lemma wallet_returned:
  assumes "IncreaseUserQuota u n st = (r, st')" "has_account st (WalletOf u)" "subs_ok st" "0 \<le> n"
  shows "kept {} st st'" "moved (entry (WalletOf u) (- n)) (faults st = []) st st'"
proof -
  have "(if 0 < - n then DecreaseUserQuota u (- n) False else IncreaseUserQuota u (- (- n))) st = (r, st')"
    using assms(1,4) by simp
  from wallet.signed.returned [OF this assms(2-4)]
  show "kept {} st st'" "moved (entry (WalletOf u) (- n)) (faults st = []) st st'"
    by (simp_all add: covered_def)
qed

lemma token_returned:
  assumes "IncreaseTokenQuota t n st = (r, st')" "has_account st (TokenOf t)" "subs_ok st" "0 \<le> n"
  shows "kept {} st st'" "moved (entry (TokenOf t) (- n)) (faults st = []) st st'"
proof -
  have "(if 0 < - n then DecreaseTokenQuota t (- n) else IncreaseTokenQuota t (- (- n))) st = (r, st')"
    using assms(1,4) by simp
  from token.signed.returned [OF this assms(2-4)]
  show "kept {} st st'" "moved (entry (TokenOf t) (- n)) (faults st = []) st st'"
    by (simp_all add: covered_def)
qed

lemma funding_refund_result:
  assumes "funding_Refund (bs_funding s) st = (r, st')" "sess_ok st s" "subs_ok st" "rec_ok st s"
  shows "kept (request_ids s) st st'"
    "moved (entry (funding_account (bs_funding s)) (- pre_funded s))
       (faults st = [] \<and> covered (funding_account (bs_funding s)) (- pre_funded s) st) st st'"
proof -
  have "kept (request_ids s) st st' \<and> moved (entry (funding_account (bs_funding s)) (- pre_funded s))
       (faults st = [] \<and> covered (funding_account (bs_funding s)) (- pre_funded s) st) st st'"
  proof (cases "bs_funding s")
    case (WalletFunding w)
    have n: "0 \<le> wf_consumed w" and acc: "has_account st (WalletOf (wf_user_id w))"
      using assms(2) WalletFunding by (auto simp: sess_ok_def funded_def)
    show ?thesis
    proof (cases "wf_consumed w = 0")
      case True
      with assms(1) WalletFunding show ?thesis by (simp add: pre_funded_def moved_def)
    next
      case False
      with n assms(1) WalletFunding have "IncreaseUserQuota (wf_user_id w) (wf_consumed w) st = (r, st')" by simp
      from wallet_returned [OF this acc assms(3) n] WalletFunding show ?thesis
        by (auto simp: pre_funded_def request_ids_def intro: moved_weaken)
    qed
  next
    case (SubscriptionFunding f)
    with assms(2) have n: "0 < sf_pre_consumed f" "TrimSpace (sf_request_id f) \<noteq> []" and acc: "has_account st (UsageOf (sf_subscription_id f))"
      by (auto simp: sess_ok_def)
    from assms(4) SubscriptionFunding obtain rec where rec: "row rec_request_id (sf_request_id f) (records st) = Some rec"
      "rec_sub_id rec = sf_subscription_id f" "rec_pre_consumed rec = sf_pre_consumed f" "rec_status rec = ''consumed''"
      by (auto simp: rec_ok_def)
    from assms(1) SubscriptionFunding n have "refundWithRetry (RefundSubscriptionPreConsume (sf_request_id f)) st = (r, st')" by simp
    from subscription_refund_result [OF this rec(1) _ n(2) rec(4) _ assms(3)] n acc rec SubscriptionFunding
    show ?thesis by (simp add: pre_funded_def request_ids_def)
  qed
  then show "kept (request_ids s) st st'"
    "moved (entry (funding_account (bs_funding s)) (- pre_funded s))
       (faults st = [] \<and> covered (funding_account (bs_funding s)) (- pre_funded s) st) st st'" by auto
qed

lemma refund_extra_result:
  assumes "refund_extra (task_of s) st = (r, st')" "sess_ok st s" "subs_ok st"
  defines "acct \<equiv> funding_account (bs_funding s)" and "n \<equiv> funded s - pre_funded s"
  shows "kept {} st st'" "moved (entry acct (- n)) (faults st = [] \<and> covered acct (- n) st) st st'"
proof -
  have "kept {} st st' \<and> moved (entry acct (- n)) (faults st = [] \<and> covered acct (- n) st) st st'"
  proof (cases "bs_funding s")
    case (WalletFunding w)
    then have "n = 0" "st' = st"
      using assms(1) by (auto simp: n_def funded_def pre_funded_def refund_extra_def task_of_def BillingSourceWallet_def
          BillingSourceSubscription_def)
    then show ?thesis by (simp add: moved_def)
  next
    case (SubscriptionFunding f)
    with assms(2) have f: "0 \<le> bs_extra_reserved s" "sf_pre_consumed f + bs_extra_reserved s = bs_pre_consumed_quota s"
      "ri_subscription_id (bs_info s) = sf_subscription_id f" and acc: "has_account st (UsageOf (sf_subscription_id f))"
      by (auto simp: sess_ok_def)
    then have n: "n = bs_extra_reserved s" using SubscriptionFunding by (simp add: n_def funded_def pre_funded_def)
    have id: "sf_subscription_id f > 0" using acc assms(3) by (auto simp: has_account.simps subs_ok_def)
    show ?thesis
    proof (cases "n = 0")
      case True
      with assms(1) n show ?thesis by (simp add: refund_extra_def task_of_def moved_def)
    next
      case False
      with assms(1) n f id SubscriptionFunding have "PostConsumeUserSubscriptionDelta (sf_subscription_id f) (- n) st = (r, st')"
        by (auto simp: refund_extra_def task_of_def)
      from subscription.returned [OF this acc assms(3)] f(1) n SubscriptionFunding show ?thesis by (simp add: acct_def)
    qed
  qed
  then show "kept {} st st'" "moved (entry acct (- n)) (faults st = [] \<and> covered acct (- n) st) st st'" by auto
qed

lemma refund_token_result:
  assumes "refund_token (task_of s) st = (r, st')" "sess_ok st s" "subs_ok st"
  shows "kept {} st st'" "moved (token_part (bs_info s) (- bs_pre_consumed_quota s)) (faults st = []) st st'"
proof -
  have s: "bs_token_consumed s = bs_pre_consumed_quota s" "0 \<le> bs_pre_consumed_quota s"
    "\<not> ri_is_playground (bs_info s) \<longrightarrow> has_account st (TokenOf (ri_token_id (bs_info s)))"
    using assms(2) by (auto simp: sess_ok_def)
  have "kept {} st st' \<and> moved (token_part (bs_info s) (- bs_pre_consumed_quota s)) (faults st = []) st st'"
  proof (cases "bs_pre_consumed_quota s > 0 \<and> \<not> ri_is_playground (bs_info s)")
    case False
    with s have "token_part (bs_info s) (- bs_pre_consumed_quota s) = (\<lambda>_. 0)" by (auto simp: token_part_def fun_eq_iff entry_def)
    with False assms(1) s show ?thesis by (auto simp: refund_token_def task_of_def moved_def split: if_splits)
  next
    case True
    with assms(1) s have "IncreaseTokenQuota (ri_token_id (bs_info s)) (bs_pre_consumed_quota s) st = (r, st')"
      by (simp add: refund_token_def task_of_def)
    moreover have "token_part (bs_info s) (- bs_pre_consumed_quota s) = entry (TokenOf (ri_token_id (bs_info s))) (- bs_pre_consumed_quota s)"
      using True by (simp add: token_part_def fun_eq_iff)
    ultimately show ?thesis using token_returned s True assms(3) by simp
  qed
  then show "kept {} st st'" "moved (token_part (bs_info s) (- bs_pre_consumed_quota s)) (faults st = []) st st'" by auto
qed

lemma run_refund_result:
  assumes "sess_ok st s" "subs_ok st" "rec_ok st s"
  defines "acct \<equiv> funding_account (bs_funding s)" and "st' \<equiv> run_refund (task_of s) st"
  shows "kept (request_ids s) st st'"
    "moved (\<lambda>a. entry acct (- funded s) a + token_part (bs_info s) (- bs_pre_consumed_quota s) a)
       (faults st = [] \<and> covered acct (- funded s) st) st st'"
proof -
  obtain r1 st1 where 1: "funding_Refund (bs_funding s) st = (r1, st1)" by fastforce
  obtain r2 st2 where 2: "refund_extra (task_of s) st1 = (r2, st2)" by fastforce
  obtain r3 st3 where 3: "refund_token (task_of s) st2 = (r3, st3)" by fastforce
  have st': "st' = st3" using 1 2 3 by (simp add: st'_def run_refund_def) (simp add: task_of_def)
  note f = funding_refund_result [OF 1 assms(1-3), folded acct_def]
  have ok1: "sess_ok st1 s" "subs_ok st1" using sess_ok_kept [OF assms(1) f(1)] f(1) assms(2) by (simp_all add: kept_def)
  note x = refund_extra_result [OF 2 ok1, folded acct_def]
  have ok2: "sess_ok st2 s" "subs_ok st2" using sess_ok_kept [OF ok1(1) x(1)] x(1) ok1(2) by (simp_all add: kept_def)
  note t = refund_token_result [OF 3 ok2]
  have k: "kept (request_ids s) st st2" using kept_trans [OF f(1) kept_mono [OF x(1)]] by simp
  show "kept (request_ids s) st st'" using kept_trans [OF k kept_mono [OF t(1)]] by (simp add: st')
  let ?n = "funded s - pre_funded s"
  have nn: "0 \<le> ?n" using assms(1) by (cases "bs_funding s") (simp_all add: sess_ok_def funded_def pre_funded_def)
  have ex: "covered acct (- pre_funded s) st \<and> faults st1 = [] \<and> covered acct (- ?n) st1 \<and> faults st2 = []"
    if c: "faults st = [] \<and> covered acct (- funded s) st"
  proof -
    have c1: "covered acct (- pre_funded s) st" using c nn by (cases acct) (auto simp: covered_def)
    with c f(2) have "posts (entry acct (- pre_funded s)) st st1" by (simp add: moved_def)
    with c have "covered acct (- ?n) st1" by (cases acct) (auto simp: covered_def posts_def entry_def)
    with c1 c f(1) k show ?thesis by (simp add: kept_def calm_def)
  qed
  have "moved (\<lambda>a. entry acct (- pre_funded s) a + entry acct (- ?n) a + token_part (bs_info s) (- bs_pre_consumed_quota s) a)
      (faults st = [] \<and> covered acct (- funded s) st) st st3"
    by (rule moved_weaken [OF moved_trans [OF moved_trans [OF f(2) x(2)] t(2)]]) (use ex in simp)
  moreover have "(\<lambda>a. entry acct (- pre_funded s) a + entry acct (- ?n) a + token_part (bs_info s) (- bs_pre_consumed_quota s) a) =
      (\<lambda>a. entry acct (- funded s) a + token_part (bs_info s) (- bs_pre_consumed_quota s) a)"
    by (auto simp: fun_eq_iff entry_def)
  ultimately show "moved (\<lambda>a. entry acct (- funded s) a + token_part (bs_info s) (- bs_pre_consumed_quota s) a)
       (faults st = [] \<and> covered acct (- funded s) st) st st'" by (simp only: st')
qed

end
