(* ===== verification/Billing_Opening.thy ===== *)
theory Billing_Opening
  imports Billing_Accounts
begin

text \<open>
  Opening a billing session, the functions \<^verbatim>\<open>preConsume\<close> and \<^verbatim>\<open>NewBillingSession\<close> of
  \<^verbatim>\<open>service/billing_session.go\<close>: a session that could be opened has taken exactly the amount it reports, and
  one that could not has taken nothing.
\<close>

section \<open>Taking from the funding source\<close>

lemma books_new_record [simp]: "books (new_record rq uid sid amount st) = books st"
proof
  fix a show "books (new_record rq uid sid amount st) a = books st a"
    by (cases a) (simp_all add: books.simps new_record_def direct_records del: direct_row direct_token_row)
qed

lemma new_record_fields [simp]: "subs (new_record rq uid sid amount st) = subs st"
  by (simp add: new_record_def)

lemma kept_taken:
  assumes "bare st' = bare (taken rq uid amount s st)" "calm st st'" "row rec_request_id rq (records st) = None"
    and "row sub_id (sub_id s) (subs st) = Some s0" "0 < sub_id s" "0 \<le> amount_used s + amount"
      "amount_total s > 0 \<longrightarrow> amount_used s + amount \<le> amount_total s"
  shows "kept {rq} st st'"
proof -
  let ?st = "new_record rq uid (sub_id s) amount st"
  have "kept {rq} st ?st"
  proof (rule kept_records)
    show "bare ?st = bare (st\<lparr>records := records ?st\<rparr>)" by (simp add: new_record_def)
  qed (use assms(3) in \<open>auto simp: new_record_def row_snoc calm_def split: option.splits\<close>)
  moreover have "kept {rq} ?st st'"
    using assms by (intro kept_book_usage [of s ?st s0 st' "amount_used s + amount" rq amount "''pre_consume''"])
      (auto simp: taken_def new_record_def calm_def)
  ultimately show ?thesis by (rule kept_trans)
qed

text \<open>A funding source before anything was taken from it.\<close>

definition fresh_funding :: "store \<Rightarrow> funding_source \<Rightarrow> int \<Rightarrow> bool" where
  "fresh_funding st f n \<longleftrightarrow> 0 \<le> n \<and> (case f of
     WalletFunding w \<Rightarrow> wf_consumed w = 0 \<and> has_account st (WalletOf (wf_user_id w))
   | SubscriptionFunding g \<Rightarrow> 0 < n \<and> sf_amount g = n \<and> row rec_request_id (sf_request_id g) (records st) = None)"

definition ids_of :: "funding_source \<Rightarrow> string set" where
  "ids_of f = (case f of WalletFunding _ \<Rightarrow> {} | SubscriptionFunding g \<Rightarrow> {sf_request_id g})"

text \<open>A funding source that has taken an amount, with the record of the request.\<close>

definition has_funded :: "store \<Rightarrow> funding_source \<Rightarrow> funding_source \<Rightarrow> int \<Rightarrow> bool" where
  "has_funded st f f' n \<longleftrightarrow> has_account st (funding_account f') \<and> ids_of f' = ids_of f \<and> (case f' of
     WalletFunding w \<Rightarrow> wf_consumed w = n
   | SubscriptionFunding g \<Rightarrow> sf_pre_consumed g = n \<and> 0 < n \<and> TrimSpace (sf_request_id g) \<noteq> [] \<and>
       (\<exists>rec. row rec_request_id (sf_request_id g) (records st) = Some rec \<and> rec_sub_id rec = sf_subscription_id g \<and>
          rec_pre_consumed rec = n \<and> rec_status rec = ''consumed''))"

lemma wallet_pre_result:
  assumes "funding_PreConsume (WalletFunding w) n st = (r, st')" "fresh_funding st (WalletFunding w) n"
  shows "kept {} st st'" "case r of Inl _ \<Rightarrow> posts (\<lambda>_. 0) st st'
    | Inr f' \<Rightarrow> posts (entry (funding_account f') n) st st' \<and> has_funded st' (WalletFunding w) f' n"
proof -
  from assms(2) have w: "0 \<le> n" "wf_consumed w = 0" "has_account st (WalletOf (wf_user_id w))"
    by (auto simp: fresh_funding_def)
  have "kept {} st st' \<and> (case r of Inl _ \<Rightarrow> posts (\<lambda>_. 0) st st'
    | Inr f' \<Rightarrow> posts (entry (funding_account f') n) st st' \<and> has_funded st' (WalletFunding w) f' n)"
  proof (cases "n = 0")
    case True
    with assms(1) w show ?thesis
      by (auto simp: wallet_PreConsume_def and_then_def ret_def has_funded_def ids_of_def)
  next
    case False
    obtain q st1 where q: "DecreaseUserQuota (wf_user_id w) n False st = (q, st1)" by fastforce
    note c = charges_result [OF wallet.decrease [OF w(1)] q w(3)]
    from False w(1) assms(1) q have "st' = st1"
      "r = (case q of Inl e \<Rightarrow> Inl e | Inr _ \<Rightarrow> Inr (WalletFunding (w\<lparr>wf_consumed := n\<rparr>)))"
      by (auto simp: wallet_PreConsume_def and_then_def ret_def split: sum.splits)
    with c w(3) show ?thesis by (cases q) (auto simp: has_funded_def ids_of_def kept_def)
  qed
  then show "kept {} st st'" "case r of Inl _ \<Rightarrow> posts (\<lambda>_. 0) st st'
    | Inr f' \<Rightarrow> posts (entry (funding_account f') n) st st' \<and> has_funded st' (WalletFunding w) f' n" by auto
qed

lemma subscription_pre_result:
  assumes "funding_PreConsume (SubscriptionFunding g) n st = (r, st')" "fresh_funding st (SubscriptionFunding g) n" "subs_ok st"
    and "distinct (map sub_id (subs st))"
  shows "case r of Inl _ \<Rightarrow> kept {} st st' \<and> posts (\<lambda>_. 0) st st'
    | Inr f' \<Rightarrow> kept {sf_request_id g} st st' \<and> posts (entry (funding_account f') n) st st' \<and>
        has_funded st' (SubscriptionFunding g) f' n"
proof -
  from assms(2) have g: "0 < n" "sf_amount g = n" "row rec_request_id (sf_request_id g) (records st) = None"
    by (auto simp: fresh_funding_def)
  have pos: "\<forall>s \<in> set (subs st). sub_id s > 0" using assms(3) by (simp add: subs_ok_def)
  obtain q st1 where q: "PreConsumeUserSubscription (sf_request_id g) (sf_user_id g) (sf_model_name g) n st = (q, st1)" by fastforce
  with assms(1) g(2) have r: "st' = st1" "r = (case q of Inl e \<Rightarrow> Inl e | Inr res \<Rightarrow> Inr (SubscriptionFunding
      (g\<lparr>sf_subscription_id := res_sub_id res, sf_pre_consumed := res_pre_consumed res,
         sf_amount_total := res_amount_total res, sf_amount_used_after := res_used_after res\<rparr>)))"
    by (auto simp: subscription_PreConsume_def and_then_def ret_def split: sum.splits)
  from pre_consume_result [OF q g(3) pos] show ?thesis
  proof (elim disjE exE conjE)
    fix e assume "q = Inl e" "bare st1 = bare st" "calm st st1"
    then show ?thesis using r by (simp add: kept_bare posts_bare0)
  next
    fix s assume found: "List.find (eligible (sf_model_name g) n st) (candidates (sf_user_id g) st) = Some s"
      and q': "q = Inr (result_of n s)" "calm st st1" and bare: "bare st1 = bare (taken (sf_request_id g) (sf_user_id g) n s st)"
      and rq: "TrimSpace (sf_request_id g) \<noteq> []"
    note s = find_candidate [OF found]
    have s0: "row sub_id (sub_id s) (subs st) = Some s" using row_distinct [OF assms(4) s(1)] .
    have sok: "0 < sub_id s" "0 \<le> amount_used s + n" "amount_total s > 0 \<longrightarrow> amount_used s + n \<le> amount_total s"
      using s(1,3) assms(3) g(1) by (auto simp: subs_ok_def eligible_def allowed_def)
    have k: "kept {sf_request_id g} st st1" using kept_taken [OF bare q'(2) g(3) s0 sok] .
    have new: "books st1 a = books (taken (sf_request_id g) (sf_user_id g) n s st) a" for a
      using books_bare [of st1] books_bare [of "taken (sf_request_id g) (sf_user_id g) n s st"] bare by metis
    have old: "books st (UsageOf (sub_id s)) = - amount_used s" using s0 by (simp add: books.simps)
    have "posts (entry (UsageOf (sub_id s)) n) st st1"
      using s0 by (auto simp: posts_def new taken_def books_book_usage [of _ _ s] old entry_def)
    moreover have "has_account st1 (UsageOf (sub_id s))"
    proof -
      have "has_account st (UsageOf (sub_id s))" using s(1) sok(1) by (simp add: has_account.simps)
      with k show ?thesis by (simp add: kept_def)
    qed
    moreover have "row rec_request_id (sf_request_id g) (records st1) = Some \<lparr>rec_request_id = sf_request_id g,
        rec_user_id = sf_user_id g, rec_sub_id = sub_id s, rec_pre_consumed = n, rec_status = ''consumed'', rec_updated_at = clock st\<rparr>"
      using bareD [OF bare] g(3) by (simp add: taken_def book_usage_def new_record_def row_snoc)
    ultimately show ?thesis using k rq g(1) by (simp add: r q' result_of_def has_funded_def ids_of_def)
  qed
qed


lemma funding_pre_result:
  assumes "funding_PreConsume f n st = (r, st')" "fresh_funding st f n" "subs_ok st" "distinct (map sub_id (subs st))"
  shows "case r of Inl _ \<Rightarrow> kept {} st st' \<and> posts (\<lambda>_. 0) st st'
    | Inr f' \<Rightarrow> kept (ids_of f) st st' \<and> posts (entry (funding_account f') n) st st' \<and> has_funded st' f f' n"
proof (cases f)
  case (WalletFunding w)
  with wallet_pre_result [of w n st r st'] assms(1,2) show ?thesis by (cases r) (simp_all add: ids_of_def)
next
  case (SubscriptionFunding g)
  with subscription_pre_result [of g n st r st'] assms show ?thesis by (cases r) (simp_all add: ids_of_def)
qed

section \<open>Opening a session\<close>

text \<open>A session that was just opened: it has taken what it reports, and can be settled or refunded.\<close>

definition opened :: "relay_info \<Rightarrow> store \<Rightarrow> billing_session \<Rightarrow> store \<Rightarrow> bool" where
  "opened info st s st' \<longleftrightarrow>
     kept {ri_request_id info} st st' \<and> moved (bill s (bs_pre_consumed_quota s)) (faults st = []) st st' \<and>
     sess_ok st' s \<and> tight s \<and> rec_ok st' s \<and> request_ids s \<subseteq> {ri_request_id info} \<and>
     \<not> bs_settled s \<and> \<not> bs_refunded s"

text \<open>The store in which a request can be billed: its accounts exist and its identifier is new.\<close>

definition billable :: "relay_info \<Rightarrow> store \<Rightarrow> bool" where
  "billable info st \<longleftrightarrow>
     has_account st (WalletOf (ri_user_id info)) \<and>
     (\<not> ri_is_playground info \<longrightarrow> has_account st (TokenOf (ri_token_id info))) \<and>
     row rec_request_id (ri_request_id info) (records st) = None \<and> subs_ok st \<and> distinct (map sub_id (subs st))"

lemma billable_kept: "billable info st \<Longrightarrow> kept {} st st' \<Longrightarrow> billable info st'"
  by (auto simp: billable_def kept_def)

text \<open>What every way to open a session guarantees.\<close>

definition opens :: "relay_info \<Rightarrow> (store, api_error, billing_session) effect \<Rightarrow> bool" where
  "opens info m \<longleftrightarrow> (\<forall>st r st'. billable info st \<longrightarrow> m st = (r, st') \<longrightarrow>
     (case r of Inl _ \<Rightarrow> kept {} st st' \<and> moved (\<lambda>_. 0) (faults st = []) st st' | Inr s \<Rightarrow> opened info st s st'))"

lemma opened_session:
  assumes "kept {ri_request_id info} st st'" "posts (bill s n) st st'" "has_funded st' f (bs_funding s) n"
    and "bs_pre_consumed_quota s = n" "bs_token_consumed s = n" "0 \<le> n" "bs_extra_reserved s = 0"
      "\<not> bs_settled s" "\<not> bs_refunded s" "\<not> bs_funding_settled s" "ids_of f \<subseteq> {ri_request_id info}"
    and "\<forall>g. bs_funding s = SubscriptionFunding g \<longrightarrow> ri_subscription_id (bs_info s) = sf_subscription_id g"
    and "\<not> ri_is_playground (bs_info s) \<longrightarrow> has_account st (TokenOf (ri_token_id (bs_info s)))"
  shows "opened info st s st'"
proof (cases "bs_funding s")
  case (WalletFunding w)
  with assms show ?thesis
    by (auto simp: opened_def sess_ok_def tight_def funded_def rec_ok_def request_ids_def has_funded_def kept_def posts_moved)
next
  case (SubscriptionFunding g)
  with assms show ?thesis
    by (auto simp: opened_def sess_ok_def tight_def funded_def rec_ok_def request_ids_def has_funded_def kept_def ids_of_def posts_moved)
qed


text \<open>Giving the quota of the token back when the funding source refused.\<close>

lemma rollback_token_result:
  assumes "\<not> ri_is_playground info \<longrightarrow> has_account st (TokenOf (ri_token_id info))" "subs_ok st" "0 \<le> n"
  defines "st' \<equiv> (if n > 0 \<and> \<not> ri_is_playground info then snd (IncreaseTokenQuota (ri_token_id info) n st) else st)"
  shows "kept {} st st'" "moved (token_part info (- n)) (faults st = []) st st'"
proof -
  have "kept {} st st' \<and> moved (token_part info (- n)) (faults st = []) st st'"
  proof (cases "n > 0 \<and> \<not> ri_is_playground info")
    case True
    obtain r st1 where "IncreaseTokenQuota (ri_token_id info) n st = (r, st1)" by fastforce
    moreover have "token_part info (- n) = entry (TokenOf (ri_token_id info)) (- n)" using True by (simp add: token_part_def fun_eq_iff)
    ultimately show ?thesis using token_returned [of "ri_token_id info" n st r st1] True assms(1,2) by (simp add: st'_def)
  next
    case False
    with assms(3) have "token_part info (- n) = (\<lambda>_. 0)" by (auto simp: token_part_def fun_eq_iff)
    with False show ?thesis by (auto simp: st'_def moved_def)
  qed
  then show "kept {} st st'" "moved (token_part info (- n)) (faults st = []) st st'" by auto
qed

lemma new_session_fields:
  "bs_info (new_session info f) = info" "bs_funding (new_session info f) = f" "bs_token_consumed (new_session info f) = 0"
  by (simp_all add: new_session_def)

lemma pre_consume_opens:
  assumes "billable info st" "fresh_funding st f q" "preConsume tq q (new_session info f) st = (r, st')"
    and "ids_of f \<subseteq> {ri_request_id info}"
  shows "case r of Inl _ \<Rightarrow> kept {} st st' \<and> moved (\<lambda>_. 0) (faults st = []) st st' | Inr s \<Rightarrow> opened info st s st'"
proof -
  let ?tr = "shouldTrust tq info f st"
  define n where "n = (if ?tr then 0 else q)"
  have n: "0 \<le> n" "fresh_funding st f n" using assms(2) 
    by (auto simp: n_def fresh_funding_def shouldTrust_def Let_def split: funding_source.splits)
  have acc: "\<not> ri_is_playground info \<longrightarrow> has_account st (TokenOf (ri_token_id info))" "subs_ok st" "distinct (map sub_id (subs st))"
    using assms(1) by (simp_all add: billable_def)
  obtain r1 st1 where 1: "(if n > 0 then PreConsumeTokenQuota info n st else (Inr (), st)) = (r1, st1)" by fastforce
  have tok: "kept {} st st1" "posts (if isl r1 then (\<lambda>_. 0) else token_part info n) st st1"
  proof -
    have "kept {} st st1 \<and> posts (if isl r1 then (\<lambda>_. 0) else token_part info n) st st1"
    proof (cases "n > 0")
      case True
      with 1 pre_consume_token_result [of info n st r1 st1] acc(1) show ?thesis by simp
    next
      case False
      with 1 n(1) show ?thesis by (auto simp: token_part_def posts_def)
    qed
    then show "kept {} st st1" "posts (if isl r1 then (\<lambda>_. 0) else token_part info n) st st1" by auto
  qed
  have tc: "(if n > 0 then n else 0) = n" using n(1) by simp
  let ?s = "\<lambda>f'. syncRelayInfo ((new_session info f)\<lparr>bs_trusted := ?tr, bs_token_consumed := n, bs_funding := f',
        bs_pre_consumed_quota := n\<rparr>)"
  let ?st = "\<lambda>st2. if n > 0 \<and> \<not> ri_is_playground info then snd (IncreaseTokenQuota (ri_token_id info) n st2) else st2"
  have run: "(r, st') = (case r1 of Inl err \<Rightarrow> (Inl (ErrorCodePreConsumeTokenQuotaFailed, err), st1)
     | Inr _ \<Rightarrow> (case funding_PreConsume f n st1 of
         (Inl err, st2) \<Rightarrow> (Inl (funding_failed err), ?st st2) | (Inr f', st2) \<Rightarrow> (Inr (?s f'), st2)))"
    unfolding assms(3) [symmetric] preConsume_def Let_def new_session_fields n_def [symmetric] tc 1 prod.case ..
  show ?thesis
  proof (cases r1)
    case (Inl e)
    with run have "isl r" "st' = st1" by simp_all
    with tok Inl show ?thesis by (cases r) (auto intro: posts_moved)
  next
    case (Inr u)
    obtain r2 st2 where 2: "funding_PreConsume f n st1 = (r2, st2)" by fastforce
    have fresh: "fresh_funding st1 f n" "subs_ok st1" "distinct (map sub_id (subs st1))"
      using n(2) tok(1) acc by (auto simp: fresh_funding_def kept_def split: funding_source.splits)
    note fund = funding_pre_result [OF 2 fresh]
    show ?thesis
    proof (cases r2)
      case err: (Inl e)
      from run 2 Inr err have r: "isl r" "st' = ?st st2" by simp_all
      from fund err have 3: "kept {} st1 st2" "posts (\<lambda>_. 0) st1 st2" by simp_all
      have k2: "kept {} st st2" using kept_trans [OF tok(1) 3(1)] .
      with acc have acc2: "\<not> ri_is_playground info \<longrightarrow> has_account st2 (TokenOf (ri_token_id info))" "subs_ok st2"
        by (auto simp: kept_def)
      note given = rollback_token_result [OF acc2 n(1)]
      have "moved (\<lambda>a. token_part info n a + token_part info (- n) a) (faults st = []) st (?st st2)"
      proof (rule moved_weaken [OF moved_trans [OF posts_moved [of _ _ _ True] given(2)]])
        show "posts (token_part info n) st st2" using posts_then_none [OF _ 3(2)] tok(2) Inr by simp
        show "True \<and> faults st2 = []" if "faults st = []" using k2 that by (simp add: kept_def calm_def)
      qed
      moreover have "(\<lambda>a. token_part info n a + token_part info (- n) a) = (\<lambda>_. 0)"
        by (simp add: fun_eq_iff token_part_def entry_def)
      ultimately show ?thesis using r kept_trans [OF k2 given(1)] by (cases r) auto
    next
      case ok: (Inr f')
      from run 2 Inr ok have r: "r = Inr (?s f')" "st' = st2" by simp_all
      from fund ok have 3: "kept (ids_of f) st1 st2" "posts (entry (funding_account f') n) st1 st2" "has_funded st2 f f' n" by simp_all
      have k2: "kept {ri_request_id info} st st2"
        using kept_trans [OF kept_mono [OF tok(1)] kept_mono [OF 3(1) assms(4)]] by simp
      have "posts (bill (?s f') n) st st2"
        using tok(2) 3(2) Inr by (simp add: posts_def bill_def token_part_def new_session_def)
      then have "opened info st (?s f') st2"
        using k2 3(3) n(1) assms(4) acc(1) sync_subscription
        by (intro opened_session [of info st st2 "?s f'" n f]) (auto simp: new_session_def)
      with r show ?thesis by simp
    qed
  qed
qed


section \<open>The ways to pay for a request\<close>

definition only_reads :: "(store, 'e, 'a) effect \<Rightarrow> bool" where
  "only_reads m \<longleftrightarrow> (\<forall>st r st'. m st = (r, st') \<longrightarrow> bare st' = bare st \<and> calm st st')"

lemma query_reads:
  assumes "\<And>st fs. f (st\<lparr>faults := fs\<rparr>) = f st"
  shows "only_reads (query f)"
  unfolding only_reads_def
proof (intro allI impI)
  fix st r st' assume "query f st = (r, st')"
  then show "bare st' = bare st \<and> calm st st'" by (cases rule: query_cases) (simp_all add: calm_def assms)
qed

lemma get_user_quota_reads: "only_reads (GetUserQuota uid)"
  unfolding GetUserQuota_def by (rule query_reads) simp

lemma has_active_reads: "only_reads (HasActiveUserSubscription uid)"
proof (cases "uid \<le> 0")
  case True
  then show ?thesis by (simp add: HasActiveUserSubscription_def only_reads_def calm_def)
next
  case False
  then have "HasActiveUserSubscription uid = query (\<lambda>st. filter (is_active uid (clock st)) (subs st) \<noteq> [])"
    by (simp add: HasActiveUserSubscription_def)
  then show ?thesis by (simp only:) (rule query_reads, simp)
qed

lemma opens_failed:
  assumes "opens info m" "billable info st1" "kept {} st st1" "moved (\<lambda>_. 0) (faults st = []) st st1" "m st1 = (r, st')"
  shows "case r of Inl _ \<Rightarrow> kept {} st st' \<and> moved (\<lambda>_. 0) (faults st = []) st st' | Inr s \<Rightarrow> opened info st s st'"
proof -
  have ex: "faults st = [] \<and> faults st1 = []" if "faults st = []" using assms(3) that by (simp add: kept_def calm_def)
  have add: "moved c (faults st = []) st st'" if "moved c (faults st1 = []) st1 st'" for c
    using moved_weaken [OF moved_trans [OF assms(4) that] ex] by simp
  from assms(1) [unfolded opens_def, rule_format, OF assms(2,5)] show ?thesis
    using add kept_trans [OF assms(3)] kept_trans [OF kept_mono [OF assms(3)]]
    by (cases r) (auto simp: opened_def)
qed

lemma opens_after_read:
  assumes "only_reads q" "\<And>x. opens info (k x)"
  shows "opens info (and_then (catch q (\<lambda>err. throw (g err))) k)"
  unfolding opens_def
proof (intro allI impI)
  fix st r st' assume ok: "billable info st" and run: "and_then (catch q (\<lambda>err. throw (g err))) k st = (r, st')"
  obtain x st1 where x: "q st = (x, st1)" by fastforce
  with assms(1) have b: "bare st1 = bare st" "calm st st1" by (auto simp: only_reads_def)
  have k: "kept {} st st1" "moved (\<lambda>_. 0) (faults st = []) st st1"
    using kept_bare [OF b] posts_moved [OF posts_bare0 [OF b(1)]] by auto
  show "case r of Inl _ \<Rightarrow> kept {} st st' \<and> moved (\<lambda>_. 0) (faults st = []) st st' | Inr s \<Rightarrow> opened info st s st'"
  proof (cases x)
    case (Inl e)
    with run x k show ?thesis by (auto simp: and_then_def catch_def throw_def)
  next
    case (Inr v)
    with run x have "k v st1 = (r, st')" by (simp add: and_then_def catch_def)
    then show ?thesis by (rule opens_failed [OF assms(2) billable_kept [OF ok k(1)] k])
  qed
qed

lemma opens_throw: "opens info (throw e)"
  by (auto simp: opens_def throw_def moved_def)

lemma opens_or_else:
  assumes "opens info m" "opens info m'"
  shows "opens info (or_else m m')"
  unfolding opens_def
proof (intro allI impI)
  fix st r st' assume ok: "billable info st" and run: "or_else m m' st = (r, st')"
  obtain x st1 where x: "m st = (x, st1)" by fastforce
  note first = assms(1) [unfolded opens_def, rule_format, OF ok x]
  show "case r of Inl _ \<Rightarrow> kept {} st st' \<and> moved (\<lambda>_. 0) (faults st = []) st st' | Inr s \<Rightarrow> opened info st s st'"
  proof (cases "\<exists>e. x = Inl e \<and> fst e = ErrorCodeInsufficientUserQuota")
    case True
    with first have k: "kept {} st st1" "moved (\<lambda>_. 0) (faults st = []) st st1" by auto
    from True run x have "m' st1 = (r, st')" by (auto simp: or_else_def catch_def)
    then show ?thesis by (rule opens_failed [OF assms(2) billable_kept [OF ok k(1)] k])
  next
    case False
    with run x have "r = x" "st' = st1" by (auto simp: or_else_def catch_def throw_def split: sum.splits if_splits)
    with first show ?thesis by (cases x) simp_all
  qed
qed

lemma try_wallet_opens:
  assumes "0 \<le> q"
  shows "opens info (tryWallet tq info q)"
  unfolding tryWallet_def
proof (rule opens_after_read [OF get_user_quota_reads])
  fix userQuota
  let ?info = "info\<lparr>ri_user_quota := userQuota\<rparr>" and ?f = "WalletFunding \<lparr>wf_user_id = ri_user_id info, wf_consumed = 0\<rparr>"
  have "opens info (preConsume tq q (new_session ?info ?f))"
    unfolding opens_def
  proof (intro allI impI)
    fix st r st' assume ok: "billable info st" and run: "preConsume tq q (new_session ?info ?f) st = (r, st')"
    have 1: "billable ?info st" "fresh_funding st ?f q" using ok assms by (auto simp: billable_def fresh_funding_def)
    have 2: "opened ?info st s st' = opened info st s st'" for s by (simp add: opened_def)
    show "case r of Inl _ \<Rightarrow> kept {} st st' \<and> moved (\<lambda>_. 0) (faults st = []) st st' | Inr s \<Rightarrow> opened info st s st'"
      using pre_consume_opens [OF 1 run] by (cases r) (simp_all add: 2 ids_of_def)
  qed
  then show "opens info (if userQuota \<le> 0 then throw (ErrorCodeInsufficientUserQuota, ''user quota is not enough'')
       else if userQuota - q < 0 then throw (ErrorCodeInsufficientUserQuota, ''user quota is below the pre-consumed quota'')
       else preConsume tq q (new_session ?info ?f))"
    by (simp add: opens_throw)
qed

lemma try_subscription_opens: "opens info (trySubscription tq info q)"
  unfolding opens_def trySubscription_def
proof (intro allI impI)
  let ?f = "SubscriptionFunding
         \<lparr>sf_request_id = ri_request_id info, sf_user_id = ri_user_id info, sf_model_name = ri_origin_model_name info,
          sf_amount = sub_consume q, sf_subscription_id = 0, sf_pre_consumed = 0, sf_amount_total = 0,
          sf_amount_used_after = 0\<rparr>"
  fix st r st' assume ok: "billable info st" and run: "preConsume tq (sub_consume q) (new_session info ?f) st = (r, st')"
  have "fresh_funding st ?f (sub_consume q)" using ok by (auto simp: billable_def fresh_funding_def sub_consume_def)
  from pre_consume_opens [OF ok this run]
  show "case r of Inl _ \<Rightarrow> kept {} st st' \<and> moved (\<lambda>_. 0) (faults st = []) st st' | Inr s \<Rightarrow> opened info st s st'"
    by (simp add: ids_of_def)
qed

text \<open>The outcome of \<open>NewBillingSession\<close>, in whatever order the preference of the user tries the sources.\<close>

lemma new_billing_session_opens:
  assumes "0 \<le> q"
  shows "opens info (NewBillingSession tq info q)"
  unfolding NewBillingSession_def Let_def
  using try_wallet_opens [OF assms] try_subscription_opens opens_or_else
  by (auto intro!: opens_after_read has_active_reads)

end
