(* ===== verification/Billing_System.thy ===== *)
theory Billing_System
  imports Billing_Opening
begin

text \<open>
  The billing of many requests over one database. Requests open sessions, raise, settle and refund them in any order
  while other requests do the same, refunds run later in the pool, batches are flushed, time passes and statements
  fail. The theorems say what the balances are worth at any moment of such a run.
\<close>

section \<open>The system\<close>

text \<open>A request keeps its session, the refund that waits in the pool, and what it turned out to cost: the actual quota
  once it is settled, nothing once its refund ran.\<close>

record request =
  rq_session :: billing_session
  rq_task :: "refund_task option"
  rq_charged :: "int option"

record billing_system =
  sys_store :: store
  sys_requests :: "request list"

datatype billing_event =
  OpenSession int relay_info int
| ReserveQuota nat int
| SettleSession nat int
| RefundSession nat
| RunRefund nat
| FlushBatches
| Advance nat
| Break "bool list"

definition set_request :: "nat \<Rightarrow> request \<Rightarrow> store \<Rightarrow> billing_system \<Rightarrow> billing_system" where
  "set_request i r st sys = sys\<lparr>sys_store := st, sys_requests := (sys_requests sys)[i := r]\<rparr>"

fun step :: "billing_event \<Rightarrow> billing_system \<Rightarrow> billing_system" where
  "step (OpenSession tokenQuota info quota) sys =
     (case NewBillingSession tokenQuota info quota (sys_store sys) of
        (Inl _, st) \<Rightarrow> sys\<lparr>sys_store := st\<rparr>
      | (Inr s, st) \<Rightarrow> sys\<lparr>sys_store := st,
          sys_requests := sys_requests sys @ [\<lparr>rq_session = s, rq_task = None, rq_charged = None\<rparr>]\<rparr>)"
| "step (ReserveQuota i target) sys =
     (let r = sys_requests sys ! i; (_, s, st) = Reserve target (rq_session r) (sys_store sys)
      in set_request i (r\<lparr>rq_session := s\<rparr>) st sys)"
| "step (SettleSession i actual) sys =
     (let r = sys_requests sys ! i; (_, s, st) = Settle actual (rq_session r) (sys_store sys)
      in set_request i (r\<lparr>rq_session := s,
           rq_charged := (if bs_settled s \<and> \<not> bs_settled (rq_session r) then Some actual else rq_charged r)\<rparr>) st sys)"
| "step (RefundSession i) sys =
     (let r = sys_requests sys ! i
      in case Refund (rq_session r) of
           (_, None) \<Rightarrow> sys
         | (s, Some t) \<Rightarrow> set_request i (r\<lparr>rq_session := s, rq_task := Some t\<rparr>) (sys_store sys) sys)"
| "step (RunRefund i) sys =
     (let r = sys_requests sys ! i
      in case rq_task r of
           None \<Rightarrow> sys
         | Some t \<Rightarrow> set_request i (r\<lparr>rq_task := None, rq_charged := Some 0\<rparr>) (run_refund t (sys_store sys)) sys)"
| "step FlushBatches sys = sys\<lparr>sys_store := batchUpdate (sys_store sys)\<rparr>"
| "step (Advance n) sys = sys\<lparr>sys_store := (sys_store sys)\<lparr>clock := clock (sys_store sys) + int n\<rparr>\<rparr>"
| "step (Break fs) sys = sys\<lparr>sys_store := (sys_store sys)\<lparr>faults := fs\<rparr>\<rparr>"

text \<open>What the relay controllers do with a session: a request is billed to accounts that exist, under an identifier of
  its own and for a quota that is not negative; it is settled with an actual quota that is not negative and only as
  long as it was not refunded. Flushes are taken here to meet a working database.\<close>

fun permitted :: "billing_event \<Rightarrow> billing_system \<Rightarrow> bool" where
  "permitted (OpenSession tokenQuota info quota) sys \<longleftrightarrow> 0 \<le> quota \<and> billable info (sys_store sys)"
| "permitted (ReserveQuota i target) sys \<longleftrightarrow> i < length (sys_requests sys)"
| "permitted (SettleSession i actual) sys \<longleftrightarrow>
     i < length (sys_requests sys) \<and> 0 \<le> actual \<and> \<not> bs_refunded (rq_session (sys_requests sys ! i))"
| "permitted (RefundSession i) sys \<longleftrightarrow> i < length (sys_requests sys)"
| "permitted (RunRefund i) sys \<longleftrightarrow> i < length (sys_requests sys)"
| "permitted FlushBatches sys \<longleftrightarrow> faults (sys_store sys) = []"
| "permitted _ sys \<longleftrightarrow> True"

fun run_events :: "billing_event list \<Rightarrow> billing_system \<Rightarrow> billing_system option" where
  "run_events [] sys = Some sys"
| "run_events (e # es) sys = (if permitted e sys then run_events es (step e sys) else None)"

definition start :: "store \<Rightarrow> billing_system" where
  "start st = \<lparr>sys_store = st, sys_requests = []\<rparr>"

section \<open>What requests owe\<close>

text \<open>What a request has cost so far: the quota it holds while it is open, then what it was charged.\<close>

definition cost :: "request \<Rightarrow> int" where
  "cost r = (case rq_charged r of Some n \<Rightarrow> n | None \<Rightarrow> bs_pre_consumed_quota (rq_session r))"

text \<open>What a request has really taken; a failed rollback can leave more on the wallet than the session holds.\<close>

definition due :: "request \<Rightarrow> account \<Rightarrow> int" where
  "due r a = (case rq_charged r of
      Some n \<Rightarrow> bill (rq_session r) n a
    | None \<Rightarrow> entry (funding_account (bs_funding (rq_session r))) (funded (rq_session r)) a +
        token_part (bs_info (rq_session r)) (bs_pre_consumed_quota (rq_session r)) a)"

definition req_ok :: "store \<Rightarrow> request \<Rightarrow> bool" where
  "req_ok st r \<longleftrightarrow> (let s = rq_session r in sess_ok st s \<and>
     (\<forall>rq \<in> request_ids s. row rec_request_id rq (records st) \<noteq> None) \<and>
     (rq_charged r = None \<longrightarrow> rec_ok st s \<and> \<not> bs_settled s) \<and>
     (\<forall>n. rq_charged r = Some n \<longrightarrow> 0 \<le> n \<and> rq_task r = None \<and> (bs_settled s \<or> bs_refunded s)) \<and>
     (\<forall>t. rq_task r = Some t \<longrightarrow> t = task_of s \<and> bs_refunded s))"

definition all_due :: "request list \<Rightarrow> account \<Rightarrow> int" where
  "all_due rs a = (\<Sum>r \<leftarrow> rs. due r a)"

text \<open>The invariant of a run from a given store, which is exact as long as no statement of the database failed.\<close>

definition sys_ok :: "bool \<Rightarrow> store \<Rightarrow> billing_system \<Rightarrow> bool" where
  "sys_ok exact st0 sys \<longleftrightarrow>
     subs_ok st0 \<and> subs_ok (sys_store sys) \<and> (\<forall>r \<in> set (sys_requests sys). req_ok (sys_store sys) r) \<and>
     (\<forall>i < length (sys_requests sys). \<forall>j < i.
        request_ids (rq_session (sys_requests sys ! i)) \<inter> request_ids (rq_session (sys_requests sys ! j)) = {}) \<and>
     moved (all_due (sys_requests sys)) exact st0 (sys_store sys) \<and>
     (exact \<longrightarrow> faults (sys_store sys) = [] \<and> (\<forall>r \<in> set (sys_requests sys). tight (rq_session r)))"

lemma sum_update: "i < length xs \<Longrightarrow> (\<Sum>x \<leftarrow> xs[i := y]. f x) = (\<Sum>x \<leftarrow> xs. f x) + (f y - f (xs ! i) :: int)"
  by (induction xs arbitrary: i) (auto split: nat.splits)

lemma all_due_update: "i < length rs \<Longrightarrow> all_due (rs[i := r]) = (\<lambda>a. all_due rs a + (due r a - due (rs ! i) a))"
  by (simp add: all_due_def fun_eq_iff sum_update)

lemma all_due_snoc: "all_due (rs @ [r]) = (\<lambda>a. all_due rs a + due r a)"
  by (simp add: all_due_def fun_eq_iff)

lemma due_nonneg: "req_ok st r \<Longrightarrow> 0 \<le> due r a"
  by (auto simp: req_ok_def due_def bill_def token_part_def entry_def sess_ok_def Let_def split: option.splits)

text \<open>A subscription has used at least what the requests that it pays for took.\<close>

lemma usage_covers:
  assumes "sys_ok ex st0 sys" "r \<in> set (sys_requests sys)" "rq_charged r = None" "- funded (rq_session r) \<le> d"
  shows "covered (funding_account (bs_funding (rq_session r))) d (sys_store sys)"
proof (cases "funding_account (bs_funding (rq_session r))")
  case (UsageOf i)
  let ?a = "UsageOf i"
  have "funded (rq_session r) = due r ?a" using assms(3) UsageOf by (simp add: due_def entry_def token_part_def)
  also have "\<dots> \<le> all_due (sys_requests sys) ?a"
    using assms(1,2) unfolding all_due_def sys_ok_def
    by (intro member_le_sum_list) (auto intro: due_nonneg)
  also have "\<dots> \<le> - books (sys_store sys) ?a"
  proof -
    have "books (sys_store sys) ?a \<le> books st0 ?a - all_due (sys_requests sys) ?a" "subs_ok st0"
      using assms(1) by (auto simp: sys_ok_def moved_def)
    with sub_books_le [of st0 i] show ?thesis by simp
  qed
  finally show ?thesis using assms(4) UsageOf by (simp add: covered_def)
qed (simp_all add: covered_def)


section \<open>Every step keeps the invariant\<close>

lemma req_ok_kept:
  assumes "req_ok st r" "kept X st st'" "request_ids (rq_session r) \<inter> X = {}"
  shows "req_ok st' r"
proof -
  have "rec_ok st' (rq_session r)" if "rec_ok st (rq_session r)"
    using that assms(2,3) by (cases "bs_funding (rq_session r)") (auto simp: rec_ok_def request_ids_def kept_def)
  moreover have "row rec_request_id rq (records st') \<noteq> None" if "row rec_request_id rq (records st) \<noteq> None" for rq
    using that assms(2) by (simp add: kept_def)
  ultimately show ?thesis using assms(1) sess_ok_kept [OF _ assms(2)] by (auto simp: req_ok_def Let_def)
qed

lemma pairwise_lt:
  fixes n :: nat
  assumes "\<forall>i < n. \<forall>j < i. f i \<inter> f j = {}" "i < n" "j < n" "i \<noteq> j"
  shows "f i \<inter> f j = ({} :: 'a set)"
proof (cases "j < i")
  case False
  with assms have "f j \<inter> f i = {}" by simp
  then show ?thesis by (simp only: Int_commute)
qed (use assms in simp)

text \<open>A step of one request: it changes what that request owes by what it moved, and leaves the others as they are.\<close>

lemma sys_ok_update:
  assumes ok: "sys_ok ex st0 sys" and i: "i < length (sys_requests sys)"
  defines "r \<equiv> sys_requests sys ! i" and "st \<equiv> sys_store sys"
  assumes "kept (request_ids (rq_session r)) st st'" "moved (\<lambda>a. due r' a - due r a) ex st st'"
    and "req_ok st' r'" "request_ids (rq_session r') = request_ids (rq_session r)" "ex \<longrightarrow> tight (rq_session r')"
  shows "sys_ok ex st0 (set_request i r' st' sys)"
proof -
  let ?rs = "sys_requests sys" and ?ids = "\<lambda>r. request_ids (rq_session r)"
  have dis: "?ids (?rs ! j) \<inter> ?ids r = {}" if "j < length ?rs" "j \<noteq> i" for j
    using pairwise_lt [of "length ?rs" "\<lambda>i. ?ids (?rs ! i)" j i] ok that i by (auto simp: sys_ok_def r_def)
  have "req_ok st' x" if "x \<in> set (?rs[i := r'])" for x
  proof -
    from that obtain j where j: "j < length ?rs" "x = ?rs[i := r'] ! j" by (auto simp: in_set_conv_nth)
    show ?thesis
    proof (cases "j = i")
      case False
      with j ok have "req_ok st (?rs ! j)" by (auto simp: sys_ok_def st_def)
      from req_ok_kept [OF this assms(5) dis [OF j(1) False]] False j show ?thesis by simp
    qed (use j assms(7) in simp)
  qed
  moreover have "?ids (?rs[i := r'] ! k) = ?ids (?rs ! k)" for k
    using assms(8) i by (cases "k = i") (simp_all add: r_def)
  moreover have "moved (all_due (?rs[i := r'])) ex st0 st'"
    using moved_trans [of "all_due ?rs" ex st0 st "\<lambda>a. due r' a - due r a" ex st'] ok assms(6)
    by (simp add: all_due_update [OF i] sys_ok_def st_def r_def)
  moreover have "subs_ok st'" "ex \<longrightarrow> faults st' = []"
    using ok assms(5) by (auto simp: sys_ok_def kept_def calm_def st_def)
  moreover have "ex \<longrightarrow> (\<forall>x \<in> set (?rs[i := r']). tight (rq_session x))"
    using ok assms(9) set_update_subset_insert [of ?rs i r'] by (fastforce simp: sys_ok_def)
  ultimately show ?thesis using ok by (simp add: sys_ok_def set_request_def)
qed


lemma same_request_ids: "same_request s s' \<Longrightarrow> request_ids s' = request_ids s \<and> rec_ok st s' = rec_ok st s"
  by (cases "bs_funding s") (auto simp: same_request_def request_ids_def rec_ok_def)

lemma sys_ok_request:
  assumes "sys_ok ex st0 sys" "i < length (sys_requests sys)"
  shows "req_ok (sys_store sys) (sys_requests sys ! i)" "sess_ok (sys_store sys) (rq_session (sys_requests sys ! i))"
    "subs_ok (sys_store sys)" "ex \<Longrightarrow> faults (sys_store sys) = []" "ex \<Longrightarrow> tight (rq_session (sys_requests sys ! i))"
  using assms by (auto simp: sys_ok_def req_ok_def Let_def)

lemma set_request_same: "set_request i (sys_requests sys ! i) (sys_store sys) sys = sys"
  by (simp add: set_request_def)

lemma reserve_step:
  assumes "sys_ok ex st0 sys" "i < length (sys_requests sys)"
  shows "sys_ok ex st0 (step (ReserveQuota i target) sys)"
proof -
  let ?r = "sys_requests sys ! i" and ?s = "rq_session (sys_requests sys ! i)" and ?st = "sys_store sys"
  obtain q s' st' where run: "Reserve target ?s ?st = (q, s', st')" by (metis prod_cases3)
  note r = sys_ok_request [OF assms]
  from reserve_result [OF run r(2,3)]
  have res: "kept {} ?st st'" "same_request ?s s'" "sess_ok st' s'" "same_flags ?s s'"
    "moved (reserved ?s s') (faults ?st = []) ?st st'" "faults ?st = [] \<and> tight ?s \<longrightarrow> tight s'" by auto
  have step: "step (ReserveQuota i target) sys = set_request i (?r\<lparr>rq_session := s'\<rparr>) st' sys" using run by simp
  show ?thesis
  proof (cases "bs_settled ?s \<or> bs_refunded ?s")
    case True
    with run have "s' = ?s" "st' = ?st" by (auto simp: Reserve_def Let_def)
    with assms(1) show ?thesis unfolding step by (simp add: set_request_same)
  next
    case False
    with r(1) have none: "rq_charged ?r = None" "rq_task ?r = None" by (cases "rq_charged ?r"; cases "rq_task ?r"; auto simp: req_ok_def Let_def)+
    note ids = same_request_ids [OF res(2)]
    have "(\<lambda>a. due (?r\<lparr>rq_session := s'\<rparr>) a - due ?r a) = reserved ?s s'"
      using none res(2) by (auto simp: due_def reserved_def same_request_def token_part_def entry_def fun_eq_iff)
    moreover have "req_ok st' (?r\<lparr>rq_session := s'\<rparr>)"
      using req_ok_kept [OF r(1) res(1)] res(3,4) ids none False by (auto simp: req_ok_def Let_def same_flags_def)
    ultimately show ?thesis unfolding step
      using res(1,5,6) r(4,5) ids by (intro sys_ok_update [OF assms]) (auto intro: kept_mono moved_weaken)
  qed
qed

lemma settle_step:
  assumes "sys_ok ex st0 sys" "permitted (SettleSession i actual) sys"
  shows "sys_ok ex st0 (step (SettleSession i actual) sys)"
proof -
  let ?r = "sys_requests sys ! i" and ?s = "rq_session (sys_requests sys ! i)" and ?st = "sys_store sys"
  from assms(2) have i: "i < length (sys_requests sys)" "0 \<le> actual" "\<not> bs_refunded ?s" by simp_all
  obtain q s' st' where run: "Settle actual ?s ?st = (q, s', st')" by (metis prod_cases3)
  note r = sys_ok_request [OF assms(1) i(1)]
  let ?r' = "?r\<lparr>rq_session := s', rq_charged := (if bs_settled s' \<and> \<not> bs_settled ?s then Some actual else rq_charged ?r)\<rparr>"
  have step: "step (SettleSession i actual) sys = set_request i ?r' st' sys" using run by (simp add: Let_def)
  show ?thesis
  proof (cases "bs_settled ?s")
    case True
    with run have "s' = ?s" "st' = ?st" by (auto simp: Settle_def Let_def)
    with assms(1) True show ?thesis unfolding step by (simp add: set_request_same)
  next
    case False
    let ?d = "actual - bs_pre_consumed_quota ?s" and ?acct = "funding_account (bs_funding ?s)"
    from settle_result [OF run r(2,3) False]
    have res: "kept {} ?st st'" "same_request ?s s'" "sess_ok st' s'" "bs_refunded s' = bs_refunded ?s"
      "bs_pre_consumed_quota s' = bs_pre_consumed_quota ?s" "funded s' = funded ?s"
      "if bs_settled s' then moved (bill ?s ?d) (faults ?st = [] \<and> covered ?acct ?d ?st) ?st st' else s' = ?s \<and> posts (\<lambda>_. 0) ?st st'"
      by auto
    from False i(3) r(1) have none: "rq_charged ?r = None" "rq_task ?r = None"
      by (cases "rq_charged ?r"; cases "rq_task ?r"; auto simp: req_ok_def Let_def)+
    note ids = same_request_ids [OF res(2)]
    have ok: "req_ok st' ?r'"
      using req_ok_kept [OF r(1) res(1)] res(3,4) ids none False i(2) by (auto simp: req_ok_def Let_def)
    have pre: "bs_pre_consumed_quota ?s \<le> funded ?s" using r(2) by (simp add: sess_ok_def)
    have tight: "ex \<longrightarrow> tight s'" using r(5) res(5,6) by (simp add: tight_def)
    have "moved (\<lambda>a. due ?r' a - due ?r a) ex ?st st'"
    proof (cases "bs_settled s'")
      case True
      have cov: "covered ?acct ?d ?st" using pre i by (intro usage_covers [OF assms(1) nth_mem [OF i(1)] none(1)]) simp
      have due: "due ?r' a - due ?r a = bill ?s ?d a + entry ?acct (bs_pre_consumed_quota ?s - funded ?s) a" for a
        using True False none bill_same [OF res(2)] by (simp add: due_def bill_def token_part_def entry_def)
      have "moved (bill ?s ?d) ex ?st st'" using res(7) True cov r(4) by (auto intro: moved_weaken)
      then show ?thesis
        using pre r(5) unfolding due by (auto simp: moved_def posts_def entry_def tight_def)
    next
      case n: False
      with res(7) have "s' = ?s" "posts (\<lambda>_. 0) ?st st'" by simp_all
      with n posts_moved show ?thesis by simp
    qed
    then show ?thesis unfolding step using res(1) ids ok tight
      by (intro sys_ok_update [OF assms(1) i(1)]) (auto intro: kept_mono)
  qed
qed


lemma refund_step:
  assumes "sys_ok ex st0 sys" "i < length (sys_requests sys)"
  shows "sys_ok ex st0 (step (RefundSession i) sys)"
proof -
  let ?r = "sys_requests sys ! i" and ?s = "rq_session (sys_requests sys ! i)" and ?st = "sys_store sys"
  note r = sys_ok_request [OF assms]
  show ?thesis
  proof (cases "bs_settled ?s \<or> bs_refunded ?s \<or> \<not> needsRefundLocked ?s")
    case True
    with assms(1) show ?thesis by (simp add: Refund_def Let_def)
  next
    case False
    let ?r' = "?r\<lparr>rq_session := ?s\<lparr>bs_refunded := True\<rparr>, rq_task := Some (task_of ?s)\<rparr>"
    from False have step: "step (RefundSession i) sys = set_request i ?r' ?st sys" by (simp add: Refund_def Let_def task_of_def)
    from False r(1) have none: "rq_charged ?r = None" by (cases "rq_charged ?r") (auto simp: req_ok_def Let_def)
    have ids: "request_ids (?s\<lparr>bs_refunded := True\<rparr>) = request_ids ?s" "rec_ok ?st (?s\<lparr>bs_refunded := True\<rparr>) = rec_ok ?st ?s"
      "task_of (?s\<lparr>bs_refunded := True\<rparr>) = task_of ?s" "funded (?s\<lparr>bs_refunded := True\<rparr>) = funded ?s"
      by (simp_all add: request_ids_def rec_ok_def task_of_def funded_def split: funding_source.splits)
    have "req_ok ?st ?r'" using r(1) none False by (auto simp: req_ok_def Let_def ids sess_ok_def split: funding_source.splits)
    moreover have "(\<lambda>a. due ?r' a - due ?r a) = (\<lambda>_. 0)" using none by (simp add: due_def ids fun_eq_iff)
    ultimately show ?thesis unfolding step using r(5) ids
      by (intro sys_ok_update [OF assms]) (auto simp: moved_def tight_def)
  qed
qed

lemma run_refund_step:
  assumes "sys_ok ex st0 sys" "i < length (sys_requests sys)"
  shows "sys_ok ex st0 (step (RunRefund i) sys)"
proof -
  let ?r = "sys_requests sys ! i" and ?s = "rq_session (sys_requests sys ! i)" and ?st = "sys_store sys"
  note r = sys_ok_request [OF assms]
  show ?thesis
  proof (cases "rq_task ?r")
    case None
    with assms(1) show ?thesis by (simp add: Let_def)
  next
    case (Some t)
    with r(1) have t: "t = task_of ?s" "bs_refunded ?s" "rq_charged ?r = None" "rec_ok ?st ?s"
      by (cases "rq_charged ?r"; auto simp: req_ok_def Let_def)+
    let ?r' = "?r\<lparr>rq_task := None, rq_charged := Some 0\<rparr>" and ?st' = "run_refund (task_of ?s) ?st"
    have step: "step (RunRefund i) sys = set_request i ?r' ?st' sys" using Some t(1) by (simp add: Let_def)
    note run = run_refund_result [OF r(2,3) t(4)]
    have cov: "covered (funding_account (bs_funding ?s)) (- funded ?s) ?st"
      by (rule usage_covers [OF assms(1) nth_mem [OF assms(2)] t(3)]) simp
    have "(\<lambda>a. due ?r' a - due ?r a) = (\<lambda>a. entry (funding_account (bs_funding ?s)) (- funded ?s) a + token_part (bs_info ?s) (- bs_pre_consumed_quota ?s) a)"
      using t(3) by (auto simp: due_def bill_def token_part_def entry_def fun_eq_iff)
    moreover have "req_ok ?st' ?r'"
      using r(1) t(2) sess_ok_kept [OF r(2) run(1)] run(1) by (auto simp: req_ok_def Let_def kept_def)
    ultimately show ?thesis unfolding step using run cov r(4,5)
      by (intro sys_ok_update [OF assms]) (auto intro: moved_weaken)
  qed
qed

text \<open>A change of the store that no request notices.\<close>

lemma sys_ok_store:
  assumes "sys_ok ex st0 sys" "kept {} (sys_store sys) st'" "moved (\<lambda>_. 0) ex (sys_store sys) st'"
  shows "sys_ok ex st0 (sys\<lparr>sys_store := st'\<rparr>)"
proof -
  have "\<forall>r \<in> set (sys_requests sys). req_ok st' r"
    using assms(1) req_ok_kept [OF _ assms(2)] by (auto simp: sys_ok_def)
  moreover have "moved (all_due (sys_requests sys)) ex st0 st'"
    using moved_trans [OF _ assms(3), of "all_due (sys_requests sys)" ex st0] assms(1) by (simp add: sys_ok_def)
  ultimately show ?thesis using assms(1,2) by (auto simp: sys_ok_def kept_def calm_def)
qed

lemma open_step:
  assumes "sys_ok ex st0 sys" "permitted (OpenSession tq info q) sys"
  shows "sys_ok ex st0 (step (OpenSession tq info q) sys)"
proof -
  let ?rs = "sys_requests sys" and ?st = "sys_store sys"
  from assms(2) have q: "0 \<le> q" "billable info ?st" by simp_all
  obtain r st' where run: "NewBillingSession tq info q ?st = (r, st')" by fastforce
  note res = new_billing_session_opens [OF q(1), unfolded opens_def, rule_format, OF q(2) run]
  have quiet: "ex \<Longrightarrow> faults ?st = []" using assms(1) by (simp add: sys_ok_def)
  show ?thesis
  proof (cases r)
    case (Inl e)
    with res run quiet show ?thesis by (auto intro!: sys_ok_store [OF assms(1)] intro: moved_weaken)
  next
    case (Inr s)
    let ?r = "\<lparr>rq_session = s, rq_task = None, rq_charged = None\<rparr>" and ?id = "ri_request_id info"
    from res Inr have s: "opened info ?st s st'" by simp
    then have k: "kept {?id} ?st st'" and m: "moved (bill s (bs_pre_consumed_quota s)) (faults ?st = []) ?st st'"
      and ok: "sess_ok st' s" "tight s" "rec_ok st' s" "request_ids s \<subseteq> {?id}" "\<not> bs_settled s" by (auto simp: opened_def)
    have old: "req_ok ?st x" "request_ids (rq_session x) \<inter> {?id} = {}" if "x \<in> set ?rs" for x
    proof -
      show ok: "req_ok ?st x" using assms(1) that by (simp add: sys_ok_def)
      have "row rec_request_id ?id (records ?st) = None" using q(2) by (simp add: billable_def)
      with ok show "request_ids (rq_session x) \<inter> {?id} = {}" by (fastforce simp: req_ok_def Let_def)
    qed
    have "due ?r = bill s (bs_pre_consumed_quota s)"
      using ok(2) by (simp add: due_def bill_def tight_def fun_eq_iff)
    then have "moved (all_due (?rs @ [?r])) ex st0 st'"
      using moved_trans [of "all_due ?rs" ex st0 ?st _ ex st', OF _ moved_weaken [OF m quiet]] assms(1)
      by (simp add: all_due_snoc sys_ok_def)
    moreover have "\<forall>x \<in> set (?rs @ [?r]). req_ok st' x"
    proof -
      have "\<forall>rq \<in> request_ids s. row rec_request_id rq (records st') \<noteq> None"
        using ok(3) by (cases "bs_funding s") (auto simp: request_ids_def rec_ok_def)
      with ok have "req_ok st' ?r" by (simp add: req_ok_def)
      with old req_ok_kept [OF _ k] show ?thesis by auto
    qed
    moreover have "\<forall>i < length (?rs @ [?r]). \<forall>j < i. request_ids (rq_session ((?rs @ [?r]) ! i)) \<inter>
        request_ids (rq_session ((?rs @ [?r]) ! j)) = {}"
    proof (intro allI impI)
      fix i j assume ij: "i < length (?rs @ [?r])" "j < i"
      show "request_ids (rq_session ((?rs @ [?r]) ! i)) \<inter> request_ids (rq_session ((?rs @ [?r]) ! j)) = {}"
      proof (cases "i = length ?rs")
        case True
        with ij ok(4) old(2) [OF nth_mem, of j] show ?thesis by (auto simp: nth_append)
      next
        case False
        with ij assms(1) show ?thesis by (auto simp: nth_append sys_ok_def)
      qed
    qed
    ultimately show ?thesis using assms(1) k ok(2) run Inr by (auto simp: sys_ok_def kept_def calm_def)
  qed
qed


lemma books_direct: "books st a = books (direct st) a"
proof -
  have "direct (direct st) = direct st" using direct_no_batch [of "direct st"] by simp
  then show ?thesis by (cases a) (simp_all add: books.simps del: direct_row direct_token_row)
qed

lemma flush_step:
  assumes "sys_ok ex st0 sys" "faults (sys_store sys) = []"
  shows "sys_ok ex st0 (step FlushBatches sys)"
proof -
  let ?st = "sys_store sys"
  note f = batchUpdate_direct [OF assms(2)]
  have same: "subs (batchUpdate ?st) = subs ?st" "records (batchUpdate ?st) = records ?st"
    using arg_cong [OF f(2), of subs] arg_cong [OF f(2), of records] by simp_all
  have "has_account (batchUpdate ?st) a = has_account ?st a" for a
  proof -
    have "has_account st a = has_account (direct st) a" for st
      by (cases a) (auto simp: has_account.simps direct_def settled_user_def settled_token_def image_iff)
    then show ?thesis using f(2) by metis
  qed
  then have "kept {} ?st (batchUpdate ?st)" using same f(1) by (simp add: kept_def subs_ok_def calm_def)
  moreover have "posts (\<lambda>_. 0) ?st (batchUpdate ?st)"
    unfolding posts_def using f(2) books_direct [of "batchUpdate ?st"] books_direct [of ?st] by simp
  ultimately show ?thesis using sys_ok_store [OF assms(1)] posts_moved by simp
qed

lemma has_account_other [simp]:
  "has_account (st\<lparr>clock := t\<rparr>) a = has_account st a" "has_account (st\<lparr>faults := fs\<rparr>) a = has_account st a"
  by (cases a; simp add: has_account.simps)+

lemma books_other [simp]: "books (st\<lparr>clock := t\<rparr>) a = books st a" "books (st\<lparr>faults := fs\<rparr>) a = books st a"
proof -
  have "direct (st\<lparr>clock := t\<rparr>) = (direct st)\<lparr>clock := t\<rparr>"
    by (simp add: direct_def settled_user_def settled_token_def settled_channel_def pending_def cong: map_cong)
  then show "books (st\<lparr>clock := t\<rparr>) a = books st a" by (cases a) (simp_all add: books.simps del: direct_row direct_token_row)
  show "books (st\<lparr>faults := fs\<rparr>) a = books st a"
    using books_bare [of "st\<lparr>faults := fs\<rparr>"] books_bare [of st] by simp
qed

lemma advance_step: "sys_ok ex st0 sys \<Longrightarrow> sys_ok ex st0 (step (Advance n) sys)"
  by (simp, rule sys_ok_store) (simp_all add: kept_def subs_ok_def calm_def moved_def posts_def)

lemma rec_ok_faults [simp]: "rec_ok (st\<lparr>faults := fs\<rparr>) s = rec_ok st s"
  by (cases "bs_funding s") (simp_all add: rec_ok_def)

lemma req_ok_faults: "req_ok (st\<lparr>faults := fs\<rparr>) r = req_ok st r"
  by (simp add: req_ok_def sess_ok_def Let_def)

lemma break_step: "sys_ok False st0 sys \<Longrightarrow> sys_ok False st0 (step (Break fs) sys)"
  by (simp add: sys_ok_def req_ok_faults subs_ok_def moved_def)

fun breaks :: "billing_event \<Rightarrow> bool" where
  "breaks (Break _) = True"
| "breaks _ = False"

lemma step_ok:
  assumes "sys_ok ex st0 sys" "permitted e sys" "\<not> (ex \<and> breaks e)"
  shows "sys_ok ex st0 (step e sys)"
proof (cases e)
  case (OpenSession tq info q) with assms show ?thesis using open_step by blast
next
  case (ReserveQuota i n) with assms show ?thesis using reserve_step [of ex st0 sys i n] by (simp del: step.simps)
next
  case (SettleSession i n) with assms show ?thesis using settle_step by blast
next
  case (RefundSession i) with assms show ?thesis using refund_step [of ex st0 sys i] by (simp del: step.simps)
next
  case (RunRefund i) with assms show ?thesis using run_refund_step [of ex st0 sys i] by (simp del: step.simps)
next
  case FlushBatches with assms show ?thesis using flush_step [of ex st0 sys] by (simp del: step.simps)
next
  case (Advance n) with assms show ?thesis using advance_step by blast
next
  case (Break fs)
  with assms(3) have "ex = False" by simp
  with Break assms(1) show ?thesis using break_step by blast
qed

lemma run_ok:
  "run_events es sys = Some sys' \<Longrightarrow> sys_ok ex st0 sys \<Longrightarrow> \<not> (ex \<and> list_ex breaks es) \<Longrightarrow> sys_ok ex st0 sys'"
proof (induction es arbitrary: sys)
  case (Cons e es)
  then show ?case using step_ok [of ex st0 sys e] by (auto simp del: step.simps permitted.simps split: if_splits)
qed simp

lemma start_ok: "subs_ok st \<Longrightarrow> (ex \<longrightarrow> faults st = []) \<Longrightarrow> sys_ok ex st (start st)"
  by (simp add: sys_ok_def start_def all_due_def moved_def posts_def)

section \<open>What the balances are worth\<close>




definition sample_info :: "string \<Rightarrow> string \<Rightarrow> relay_info" where
  "sample_info rid pref =
     \<lparr>ri_user_id = 1, ri_token_id = 7, ri_token_key = ''sk'', ri_token_unlimited = False, ri_is_playground = False,
      ri_force_pre_consume = False, ri_request_id = rid, ri_origin_model_name = ''gpt'', ri_billing_preference = pref,
      ri_user_quota = 0, ri_final_pre_consumed_quota = 0, ri_billing_source = [], ri_subscription_id = 0,
      ri_subscription_pre_consumed = 0, ri_subscription_post_delta = 0, ri_subscription_amount_total = 0,
      ri_subscription_used_after = 0\<rparr>"

definition sample_events :: "billing_event list" where
  "sample_events =
     [OpenSession 300 (sample_info ''r1'' ''wallet_first'') 100, OpenSession 300 (sample_info ''r2'' ''subscription_first'') 60,
      ReserveQuota 0 150, FlushBatches, SettleSession 0 120, RefundSession 1, Advance 5, RunRefund 1,
      OpenSession 300 (sample_info ''r3'' ''subscription_only'') 55]"

definition billing_start :: store where
  "billing_start = sub_store\<lparr>batch_enabled := True\<rparr>"

text \<open>What a run of the sample left: the costs of its requests and what they took from three accounts.\<close>

definition summary :: "billing_system \<Rightarrow> (int \<times> int \<times> int \<times> int) list" where
  "summary sys = map (\<lambda>r. (cost r, bill (rq_session r) (cost r) (WalletOf 1), bill (rq_session r) (cost r) (TokenOf 7),
     bill (rq_session r) (cost r) (UsageOf 6))) (sys_requests sys)"


text \<open>A run with failures: the token cannot be charged and the rollback of the reservation fails, so that the wallet
  keeps a charge of 50 that the session does not know of.\<close>

definition faulty_events :: "billing_event list" where
  "faulty_events =
     [OpenSession 300 (sample_info ''r1'' ''wallet_only'') 100, Break [False, True, True], ReserveQuota 0 150, Break [],
      SettleSession 0 120]"



section \<open>Settlement without a session, low balances and failed flushes\<close>

text \<open>C17: the two ways to settle agree. A request whose session is at hand is settled by the session, any other by
  what its request information says was taken. From information that is in step with the session, both ways return
  the same result and leave the same database and the same information, whichever statements fail.\<close>

theorem settle_paths_agree:
  assumes "s = syncRelayInfo s0" "\<not> bs_settled s" "\<not> bs_funding_settled s"
    and "case bs_funding s of WalletFunding w \<Rightarrow> ri_user_id (bs_info s) = wf_user_id w | SubscriptionFunding f \<Rightarrow> sf_subscription_id f \<noteq> 0"
  shows "let (r, _, info, st') = SettleBilling (Some s) (bs_info s) actual st;
             (r2, _, info2, st2) = SettleBilling None (bs_info s) actual st
    in r2 = r \<and> info2 = info \<and> st2 = st'"
proof -
  have pre: "ri_final_pre_consumed_quota (bs_info s) = bs_pre_consumed_quota s"
    "ri_billing_source (bs_info s) = funding_Source (bs_funding s)"
    by (simp_all add: assms(1) syncRelayInfo_def Let_def split: funding_source.splits)
  let ?d = "actual - bs_pre_consumed_quota s"
  show ?thesis
  proof (cases "bs_funding s")
    case (WalletFunding w)
    let ?m = "if ?d > 0 then DecreaseUserQuota (wf_user_id w) ?d False else IncreaseUserQuota (wf_user_id w) (- ?d)"
    obtain r1 st1 where 1: "?m st = (r1, st1)" by fastforce
    obtain r2 st2 where 2: "adjust_token (bs_info s) ?d st1 = (r2, st2)" by fastforce
    have "funding_Settle (bs_funding s) ?d st = (r1, st1)" if "?d \<noteq> 0" using 1 that WalletFunding by (auto split: if_splits)
    moreover have "post_consume_funding (bs_info s) ?d st = (case r1 of Inl e \<Rightarrow> Inl e | Inr _ \<Rightarrow> Inr (bs_info s), st1)"
      using 1 pre WalletFunding assms(4)
      by (cases r1) (simp_all add: post_consume_funding_def and_then_def BillingSourceWallet_def BillingSourceSubscription_def split: if_splits)
    ultimately show ?thesis using 2 assms(2,3) pre WalletFunding
      by (cases r1) (auto simp: SettleBilling_def Settle_def PostConsumeQuota_def finish_settle_def Let_def
          BillingSourceWallet_def BillingSourceSubscription_def)
  next
    case (SubscriptionFunding f)
    have id: "ri_subscription_id (bs_info s) = sf_subscription_id f"
      using SubscriptionFunding by (auto simp: assms(1) sync_subscription)
    obtain r1 st1 where 1: "PostConsumeUserSubscriptionDelta (sf_subscription_id f) ?d st = (r1, st1)" by fastforce
    let ?info = "(bs_info s)\<lparr>ri_subscription_post_delta := ri_subscription_post_delta (bs_info s) + ?d\<rparr>"
    obtain r2 st2 where 2: "adjust_token (bs_info s) ?d st1 = (r2, st2)" by fastforce
    have "post_consume_funding (bs_info s) ?d st = (case r1 of Inl e \<Rightarrow> Inl e | Inr _ \<Rightarrow> Inr ?info, st1)" if "?d \<noteq> 0"
      using 1 pre SubscriptionFunding assms(4) that id
      by (cases r1) (simp_all add: post_consume_funding_def and_then_def)
    with 1 2 assms(2,3) pre SubscriptionFunding show ?thesis
      by (cases r1) (auto simp: SettleBilling_def Settle_def PostConsumeQuota_def finish_settle_def Let_def)
  qed
qed

text \<open>who may use the interface with a low balance. Outside the playground a user who is no administrator and has
  less than four dollars of quota needs an active subscription; everyone else passes. The check changes nothing.\<close>

theorem low_balance_rule:
  assumes "faults st = []"
  shows "snd (EnforceLowBalanceAPIRestriction info st) = st \<and>
    ((\<exists>info'. fst (EnforceLowBalanceAPIRestriction info st) = Inr info') \<longleftrightarrow>
       (let user = row user_id (ri_user_id info) (user_rows st) in
        ri_user_id info \<le> 0 \<or> ri_is_playground info \<or>
        (case user of None \<Rightarrow> 0 | Some u \<Rightarrow> user_role u) \<ge> RoleAdminUser \<or>
        (case user of None \<Rightarrow> 0 | Some u \<Rightarrow> user_quota u) \<ge> \<lfloor>4 * quota_per_unit st\<rfloor> \<or>
        (\<exists>s \<in> set (subs st). is_active (ri_user_id info) (clock st) s)))"
  using assms
  by (simp add: EnforceLowBalanceAPIRestriction_def IsAdmin_def GetUserQuota_def HasActiveUserSubscription_def
      apiWalletOnlyMinUSD_def Let_def filter_empty_conv)

theorem low_balance_rule_witness:
  "faults (sub_store\<lparr>quota_per_unit := 500\<rparr>) = [] \<and>
   \<not> (\<exists>info'. fst (EnforceLowBalanceAPIRestriction (sample_info ''r'' []) (sample_store\<lparr>quota_per_unit := 500\<rparr>)) = Inr info') \<and>
   (\<exists>info'. fst (EnforceLowBalanceAPIRestriction (sample_info ''r'' []) (sub_store\<lparr>quota_per_unit := 500\<rparr>)) = Inr info')"
proof -
  let ?a = "sample_store\<lparr>quota_per_unit := 500\<rparr>" and ?b = "sub_store\<lparr>quota_per_unit := 500\<rparr>"
  have calm: "faults ?a = []" "faults ?b = []" by code_simp+
  show ?thesis
    using low_balance_rule [OF calm(1), of "sample_info ''r'' []"] low_balance_rule [OF calm(2), of "sample_info ''r'' []"] calm
    by (simp add: sample_info_def sample_store_def sub_store_def sample_sub_def row_def RoleAdminUser_def is_active_def)
qed

theorem settle_paths_agree_witness:
  "let s = syncRelayInfo ((new_session (sample_info ''r'' []) (WalletFunding \<lparr>wf_user_id = 1, wf_consumed = 100\<rparr>))
             \<lparr>bs_pre_consumed_quota := 100\<rparr>);
       (r, _, info, st') = SettleBilling (Some s) (bs_info s) 130 sample_store;
       (r2, _, info2, st2) = SettleBilling None (bs_info s) 130 sample_store
   in r2 = r \<and> info2 = info \<and> st2 = st'"
  unfolding Let_def
  by (rule settle_paths_agree [OF refl, unfolded Let_def]) (simp_all add: new_session_def syncRelayInfo_def sample_info_def Let_def)

text \<open>C37: a failed flush forgives a charge. When the statement that writes a batched change of a wallet fails, the
  change is gone: the balance is what it would be if it had never been made, and no batch keeps it for a later try.\<close>

theorem failed_flush_forgets:
  assumes "batch_stores st = (\<lambda>_. [])(BatchUpdateTypeUserQuota := [(u, v)])" "faults st = [True]" "has_account st (WalletOf u)"
  shows "books (batchUpdate st) (WalletOf u) = books st (WalletOf u) - v \<and> batch_stores (batchUpdate st) = (\<lambda>_. [])"
proof -
  have flush: "batchUpdate st = st\<lparr>batch_stores := (\<lambda>_. []), faults := []\<rparr>"
    using assms(1,2) by (simp add: batchUpdate_def batch_types_def flush_type_def flush_entry_def increaseUserQuota_def
        change_def stmt_def fun_upd_def if_distrib cong: if_cong)
  obtain r where r: "row user_id u (user_rows st) = Some r"
    using assms(3) row_None_iff [of user_id u "user_rows st"] by (cases "row user_id u (user_rows st)") (auto simp: has_account.simps)
  have "pending BatchUpdateTypeUserQuota u st = v" "pending BatchUpdateTypeUserQuota u (batchUpdate st) = 0"
    using assms(1) by (simp_all add: pending_def flush)
  with r row_Some [OF r] show ?thesis by (simp add: books.simps settled_user_def flush)
qed

theorem failed_flush_forgets_witness:
  "let st = snd (DecreaseUserQuota 1 200 False (sample_store\<lparr>batch_enabled := True\<rparr>))\<lparr>faults := [True]\<rparr>
   in books st (WalletOf 1) = 300 \<and> books (batchUpdate st) (WalletOf 1) = 500"
proof -
  let ?st = "snd (DecreaseUserQuota 1 200 False (sample_store\<lparr>batch_enabled := True\<rparr>))\<lparr>faults := [True]\<rparr>"
  have "batch_stores ?st = (\<lambda>_. [])(BatchUpdateTypeUserQuota := [(1, - 200)])"
    by (simp add: DecreaseUserQuota_def sample_store_def addNewRecord_def ret_def)
  moreover have "faults ?st = [True]" "has_account ?st (WalletOf 1)" "books ?st (WalletOf 1) = 300" by code_simp+
  ultimately show ?thesis using failed_flush_forgets [of ?st 1 "- 200"] by (simp add: Let_def)
qed

end
