(* ===== verification/Channel_Selection.thy ===== *)
theory Channel_Selection
  imports Subscription_Store
begin

text \<open>
  The cache of channels and the choice of a channel for a request, from \<^verbatim>\<open>model/channel_cache.go\<close>. The cache lists
  the enabled channels of each group and model; a request takes one of the highest priority, its first retry one of
  the next priority and so on, and among channels of equal priority the choice is weighted. The random number is an
  argument of the choice. The sort of the source is not stable, so the order of channels of equal priority is one of
  several; no theorem depends on it. The keys of a channel are not part of the model, nor is the way that asks the
  database when the cache is off.
\<close>

section \<open>The cache\<close>

record channel =
  chan_id :: int
  chan_status :: int
  chan_group :: string
  chan_models :: string
  chan_priority :: "int option"
  chan_weight :: "nat option"

definition ChannelStatusEnabled :: int where
  "ChannelStatusEnabled = 1"

definition GetPriority :: "channel \<Rightarrow> int" where
  "GetPriority c = (case chan_priority c of None \<Rightarrow> 0 | Some p \<Rightarrow> p)"

definition GetWeight :: "channel \<Rightarrow> int" where
  "GetWeight c = (case chan_weight c of None \<Rightarrow> 0 | Some w \<Rightarrow> int w)"

record channel_cache =
  group2model2channels :: "string \<Rightarrow> (string \<Rightarrow> int list option) option"
  channelsIDM :: "int \<Rightarrow> channel option"

text \<open>One pass of the inner loop: the channel is appended to the list of a group and a model. A group without an entry
  has no map to write to, and the program panics.\<close>

fun add_entries :: "(string \<times> string \<times> int) list \<Rightarrow> (string \<Rightarrow> (string \<Rightarrow> int list option) option) \<Rightarrow>
    (string \<Rightarrow> (string \<Rightarrow> int list option) option) option" where
  "add_entries [] m = Some m"
| "add_entries ((g, md, i) # es) m =
     (case m g of
        None \<Rightarrow> None
      | Some mm \<Rightarrow> add_entries es (m(g := Some (mm(md := Some ((case mm md of None \<Rightarrow> [] | Some l \<Rightarrow> l) @ [i]))))))"

definition channel_entries :: "channel \<Rightarrow> (string \<times> string \<times> int) list" where
  "channel_entries c =
     (if chan_status c \<noteq> ChannelStatusEnabled then []
      else concat (map (\<lambda>g. map (\<lambda>md. (g, md, chan_id c)) (split_on (CHR '','') (chan_models c)))
             (split_on (CHR '','') (chan_group c))))"

definition find_channel :: "channel list \<Rightarrow> int \<Rightarrow> channel option" where
  "find_channel channels i = row chan_id i (rev channels)"

definition priority_of :: "(int \<Rightarrow> channel option) \<Rightarrow> int \<Rightarrow> int" where
  "priority_of idm i = (case idm i of Some c \<Rightarrow> GetPriority c | None \<Rightarrow> 0)"

definition higher_priority :: "(int \<Rightarrow> channel option) \<Rightarrow> int \<Rightarrow> int \<Rightarrow> bool" where
  "higher_priority idm i j \<longleftrightarrow> priority_of idm i > priority_of idm j"

definition InitChannelCache :: "channel list \<Rightarrow> string list \<Rightarrow> channel_cache option" where
  "InitChannelCache channels abilityGroups =
     (let idm = find_channel channels
      in case add_entries (concat (map channel_entries channels))
                (\<lambda>g. if g \<in> set abilityGroups then Some (\<lambda>_. None) else None) of
           None \<Rightarrow> None
         | Some m \<Rightarrow> Some \<lparr>group2model2channels =
               (\<lambda>g. map_option (\<lambda>mm md. map_option (js_sort (higher_priority idm)) (mm md)) (m g)),
             channelsIDM = idm\<rparr>)"

definition CacheGetChannel :: "channel_cache \<Rightarrow> int \<Rightarrow> string + channel" where
  "CacheGetChannel cache i = (case channelsIDM cache i of None \<Rightarrow> Inl ''channel does not exist'' | Some c \<Rightarrow> Inr c)"

definition CacheUpdateChannelStatus :: "int \<Rightarrow> int \<Rightarrow> channel_cache \<Rightarrow> channel_cache" where
  "CacheUpdateChannelStatus i status cache =
     (let cache' = (case channelsIDM cache i of
                      None \<Rightarrow> cache
                    | Some c \<Rightarrow> cache\<lparr>channelsIDM := (channelsIDM cache)(i := Some (c\<lparr>chan_status := status\<rparr>))\<rparr>)
      in if status \<noteq> ChannelStatusEnabled
         then cache'\<lparr>group2model2channels :=
                (\<lambda>g. map_option (\<lambda>mm md. map_option (remove1 i) (mm md)) (group2model2channels cache g))\<rparr>
         else cache')"

section \<open>The choice\<close>

definition channel_list :: "channel_cache \<Rightarrow> string \<Rightarrow> string \<Rightarrow> int list" where
  "channel_list cache g md =
     (case group2model2channels cache g of
        None \<Rightarrow> []
      | Some mm \<Rightarrow> (case mm md of None \<Rightarrow> [] | Some l \<Rightarrow> l))"

definition candidates_for :: "channel_cache \<Rightarrow> string \<Rightarrow> string \<Rightarrow> int list" where
  "candidates_for cache g md =
     (let channels = channel_list cache g md
      in if channels = [] then channel_list cache g (FormatMatchingModelName md) else channels)"

definition inconsistent :: string where
  "inconsistent = ''database inconsistency: channel does not exist''"

definition sorted_priorities :: "channel list \<Rightarrow> int list" where
  "sorted_priorities cs = rev (sorted_list_of_set (GetPriority ` set cs))"

definition smoothing :: "channel list \<Rightarrow> int \<times> int" where
  "smoothing cs =
     (let sumWeight = sum_list (map GetWeight cs)
      in if sumWeight = 0 then (1, 100)
         else if sumWeight div int (length cs) < 10 then (100, 0) else (1, 0))"

definition total_weight :: "channel list \<Rightarrow> int" where
  "total_weight cs =
     (let sumWeight = sum_list (map GetWeight cs)
      in (if sumWeight = 0 then int (length cs) * 100 else sumWeight) * fst (smoothing cs))"

fun pick_channel :: "int \<times> int \<Rightarrow> channel list \<Rightarrow> int \<Rightarrow> channel option" where
  "pick_channel s [] r = None"
| "pick_channel s (c # cs) r =
     (let r' = r - (GetWeight c * fst s + snd s) in if r' < 0 then Some c else pick_channel s cs r')"

definition GetRandomSatisfiedChannel ::
  "channel_cache \<Rightarrow> (int \<Rightarrow> int) \<Rightarrow> string \<Rightarrow> string \<Rightarrow> nat \<Rightarrow> string + channel option" where
  "GetRandomSatisfiedChannel cache rand g md retry =
     (case candidates_for cache g md of
        [] \<Rightarrow> Inr None
      | [i] \<Rightarrow> (case channelsIDM cache i of Some c \<Rightarrow> Inr (Some c) | None \<Rightarrow> Inl inconsistent)
      | ids \<Rightarrow>
          (case those (map (channelsIDM cache) ids) of
             None \<Rightarrow> Inl inconsistent
           | Some cs \<Rightarrow>
               (let ps = sorted_priorities cs;
                    target = ps ! (if retry \<ge> length ps then length ps - 1 else retry);
                    targets = filter (\<lambda>c. GetPriority c = target) cs
                in if targets = [] then Inl ''no channel found''
                   else case pick_channel (smoothing targets) targets (rand (total_weight targets)) of
                          Some c \<Rightarrow> Inr (Some c)
                        | None \<Rightarrow> Inl ''channel not found'')))"

section \<open>The weighted choice\<close>

definition share :: "channel list \<Rightarrow> channel \<Rightarrow> int" where
  "share cs c = GetWeight c * fst (smoothing cs) + snd (smoothing cs)"

lemma weight_nonneg [simp]: "0 \<le> GetWeight c"
  by (simp add: GetWeight_def split: option.splits)

lemma share_nonneg: "0 \<le> share cs c"
  by (simp add: share_def smoothing_def Let_def)

lemma sum_affine: "(\<Sum>c \<leftarrow> cs. GetWeight c * f + a) = sum_list (map GetWeight cs) * f + int (length cs) * a"
  by (induction cs) (simp_all add: algebra_simps)

lemma total_weight_shares: "total_weight cs = (\<Sum>c \<leftarrow> cs. share cs c)"
  unfolding share_def sum_affine by (simp add: total_weight_def smoothing_def Let_def)

lemma total_weight_pos: "cs \<noteq> [] \<Longrightarrow> 0 < total_weight cs"
proof -
  assume "cs \<noteq> []"
  moreover have "0 \<le> sum_list (map GetWeight cs)" by (rule sum_list_nonneg) auto
  ultimately show ?thesis by (auto simp: total_weight_def smoothing_def Let_def)
qed

text \<open>The search finds the channel whose interval of random numbers contains the one that was drawn.\<close>

lemma pick_channel_some:
  assumes "0 \<le> r" "r < (\<Sum>c \<leftarrow> cs. GetWeight c * fst s + snd s)"
  obtains c where "pick_channel s cs r = Some c" "c \<in> set cs" "0 < GetWeight c * fst s + snd s"
  using assms
proof (induction cs arbitrary: r thesis)
  case (Cons c cs)
  let ?r = "r - (GetWeight c * fst s + snd s)"
  show ?case
  proof (cases "?r < 0")
    case True
    with Cons.prems(1) [of c] Cons.prems(2) show ?thesis by (simp add: Let_def)
  next
    case False
    have "?r < (\<Sum>c \<leftarrow> cs. GetWeight c * fst s + snd s)" using Cons.prems(3) by simp
    then obtain d where "pick_channel s cs ?r = Some d" "d \<in> set cs" "0 < GetWeight d * fst s + snd s"
      using Cons.IH [of ?r] False by (metis linorder_not_less)
    with False Cons.prems(1) [of d] show ?thesis by (simp add: Let_def)
  qed
qed simp

lemma pick_channel_none: "c \<notin> set cs \<Longrightarrow> pick_channel s cs r \<noteq> Some c"
  by (induction cs arbitrary: r) (auto simp: Let_def)

lemma pick_count:
  assumes "distinct cs" "c \<in> set cs" "0 \<le> fst s" "0 \<le> snd s"
  shows "card {r. 0 \<le> r \<and> r < (\<Sum>d \<leftarrow> cs. GetWeight d * fst s + snd s) \<and> pick_channel s cs r = Some c} =
    nat (GetWeight c * fst s + snd s)"
  using assms(1,2)
proof (induction cs)
  case (Cons d ds)
  let ?w = "\<lambda>d. GetWeight d * fst s + snd s"
  have nonneg: "0 \<le> ?w d" for d using assms(3,4) by simp
  have rest: "0 \<le> (\<Sum>d \<leftarrow> ds. ?w d)" by (rule sum_list_nonneg) (use nonneg in auto)
  show ?case
  proof (cases "c = d")
    case True
    have "{r. 0 \<le> r \<and> r < (\<Sum>d \<leftarrow> d # ds. ?w d) \<and> pick_channel s (d # ds) r = Some c} = {0..<?w d}"
      using True Cons.prems(1) pick_channel_none [of c ds s] rest by (auto simp: Let_def split: if_splits)
    then show ?thesis using True by simp
  next
    case False
    then have c: "c \<in> set ds" using Cons.prems(2) by simp
    have "{r. 0 \<le> r \<and> r < (\<Sum>d \<leftarrow> d # ds. ?w d) \<and> pick_channel s (d # ds) r = Some c} =
        (\<lambda>r. r + ?w d) ` {r. 0 \<le> r \<and> r < (\<Sum>d \<leftarrow> ds. ?w d) \<and> pick_channel s ds r = Some c}" (is "?L = ?f ` ?R")
    proof (intro set_eqI iffI)
      fix r assume "r \<in> ?L"
      then have "r - ?w d \<in> ?R" using False by (auto simp: Let_def split: if_splits)
      then show "r \<in> ?f ` ?R" by (rule rev_image_eqI) simp
    next
      fix r assume "r \<in> ?f ` ?R"
      then show "r \<in> ?L" using nonneg [of d] by (auto simp: Let_def)
    qed
    moreover have "inj_on ?f ?R" by (auto simp: inj_on_def)
    ultimately show ?thesis using Cons c by (simp add: card_image)
  qed
qed simp



definition sample_channel :: "int \<Rightarrow> int \<Rightarrow> nat \<Rightarrow> channel" where
  "sample_channel i priority weight =
     \<lparr>chan_id = i, chan_status = 1, chan_group = ''default'', chan_models = ''gpt'', chan_priority = Some priority,
      chan_weight = Some weight\<rparr>"


section \<open>The priority of a choice\<close>

lemma those_map_Some [simp]: "those (map Some ys) = Some ys"
  by (induction ys) simp_all

lemma those_Some: "those xs = Some ys \<longleftrightarrow> xs = map Some ys"
proof
  show "those xs = Some ys \<Longrightarrow> xs = map Some ys"
  proof (induction xs arbitrary: ys)
    case (Cons x xs)
    then show ?case by (cases x; cases "those xs") auto
  qed simp
qed simp

lemma nth_descending:
  assumes "sorted_wrt (>) ps" "k < length ps"
  shows "card {p \<in> set ps. p > (ps ! k :: int)} = k"
  using assms
proof (induction ps arbitrary: k)
  case (Cons p ps)
  show ?case
  proof (cases k)
    case 0
    with Cons.prems(1) have "{q \<in> set (p # ps). q > (p # ps) ! k} = {}" by auto
    then show ?thesis using 0 by (metis card.empty)
  next
    case (Suc j)
    with Cons.prems have "p > ps ! j" "p \<notin> set ps" by auto
    then have "{q \<in> set (p # ps). q > (p # ps) ! k} = insert p {q \<in> set ps. q > ps ! j}" using Suc by auto
    with \<open>p \<notin> set ps\<close> Cons Suc show ?thesis by simp
  qed
qed simp

lemma sorted_priorities_desc:
  "sorted_wrt (>) (sorted_priorities cs)" "set (sorted_priorities cs) = GetPriority ` set cs"
  "length (sorted_priorities cs) = card (GetPriority ` set cs)"
proof -
  have "sorted_wrt (<) (sorted_list_of_set (GetPriority ` set cs))" by (rule strict_sorted_list_of_set)
  then show "sorted_wrt (>) (sorted_priorities cs)" by (simp add: sorted_priorities_def sorted_wrt_rev)
qed (simp_all add: sorted_priorities_def)

text \<open>The channels that a request can be sent to.\<close>

definition channels_for :: "channel_cache \<Rightarrow> string \<Rightarrow> string \<Rightarrow> channel list" where
  "channels_for cache g md = List.map_filter (channelsIDM cache) (candidates_for cache g md)"

definition consistent :: "channel_cache \<Rightarrow> bool" where
  "consistent cache \<longleftrightarrow> (\<forall>g md. \<forall>i \<in> set (channel_list cache g md). channelsIDM cache i \<noteq> None)"

lemma consistent_those:
  assumes "consistent cache"
  shows "those (map (channelsIDM cache) (candidates_for cache g md)) = Some (channels_for cache g md)"
proof -
  have "\<forall>i \<in> set (candidates_for cache g md). channelsIDM cache i \<noteq> None"
    using assms by (auto simp: consistent_def candidates_for_def Let_def split: if_splits)
  then have "map (channelsIDM cache) ids = map Some (List.map_filter (channelsIDM cache) ids)"
    if "set ids \<subseteq> set (candidates_for cache g md)" for ids
    using that by (induction ids) (auto simp: List.map_filter_simps)
  then show ?thesis by (simp add: those_Some channels_for_def)
qed



section \<open>The cache follows the channels\<close>

definition entries_of :: "(string \<Rightarrow> (string \<Rightarrow> int list option) option) \<Rightarrow> string \<Rightarrow> string \<Rightarrow> int list" where
  "entries_of m g md = (case m g of None \<Rightarrow> [] | Some mm \<Rightarrow> (case mm md of None \<Rightarrow> [] | Some l \<Rightarrow> l))"

lemma add_entries_append:
  "add_entries es m = Some m' \<Longrightarrow>
   entries_of m' g md = entries_of m g md @ map (\<lambda>e. snd (snd e)) (filter (\<lambda>e. fst e = g \<and> fst (snd e) = md) es)"
proof (induction es arbitrary: m)
  case (Cons e es)
  obtain g' md' i where e: "e = (g', md', i)" by (cases e)
  with Cons.prems obtain mm where mm: "m g' = Some mm" by (cases "m g'") auto
  let ?m = "m(g' := Some (mm(md' := Some ((case mm md' of None \<Rightarrow> [] | Some l \<Rightarrow> l) @ [i]))))"
  have "entries_of m' g md = entries_of ?m g md @ map (\<lambda>e. snd (snd e)) (filter (\<lambda>e. fst e = g \<and> fst (snd e) = md) es)"
    by (rule Cons.IH) (use Cons.prems mm in \<open>simp add: e fun_upd_def\<close>)
  moreover have "entries_of ?m g md = entries_of m g md @ (if g' = g \<and> md' = md then [i] else [])"
    using mm by (simp add: entries_of_def split: option.splits)
  ultimately show ?case by (simp add: e)
qed simp

definition serves :: "channel \<Rightarrow> string \<Rightarrow> string \<Rightarrow> bool" where
  "serves c g md \<longleftrightarrow> chan_status c = ChannelStatusEnabled \<and> g \<in> set (split_on (CHR '','') (chan_group c)) \<and>
     md \<in> set (split_on (CHR '','') (chan_models c))"

lemma init_lists:
  assumes "InitChannelCache channels groups = Some cache"
  shows "channelsIDM cache = find_channel channels"
    "channel_list cache g md = js_sort (higher_priority (find_channel channels))
       (map (\<lambda>e. snd (snd e)) (filter (\<lambda>e. fst e = g \<and> fst (snd e) = md) (concat (map channel_entries channels))))"
proof -
  let ?empty = "\<lambda>g. if g \<in> set groups then Some (\<lambda>_. None) else None"
  from assms obtain m where m: "add_entries (concat (map channel_entries channels)) ?empty = Some m"
    and cache: "cache = \<lparr>group2model2channels =
       (\<lambda>g. map_option (\<lambda>mm md. map_option (js_sort (higher_priority (find_channel channels))) (mm md)) (m g)),
       channelsIDM = find_channel channels\<rparr>"
    by (auto simp: InitChannelCache_def Let_def split: option.splits)
  show "channelsIDM cache = find_channel channels" by (simp add: cache)
  have "entries_of ?empty g md = []" by (simp add: entries_of_def)
  with add_entries_append [OF m, of g md]
  have "entries_of m g md = map (\<lambda>e. snd (snd e)) (filter (\<lambda>e. fst e = g \<and> fst (snd e) = md) (concat (map channel_entries channels)))"
    by simp
  moreover have "channel_list cache g md = js_sort (higher_priority (find_channel channels)) (entries_of m g md)"
    by (simp add: cache channel_list_def entries_of_def split: option.splits)
  ultimately show "channel_list cache g md = js_sort (higher_priority (find_channel channels))
       (map (\<lambda>e. snd (snd e)) (filter (\<lambda>e. fst e = g \<and> fst (snd e) = md) (concat (map channel_entries channels))))"
    by simp
qed

lemma find_channel_in:
  assumes "distinct (map chan_id channels)" "c \<in> set channels"
  shows "find_channel channels (chan_id c) = Some c"
  unfolding find_channel_def using assms
proof (induction channels rule: rev_induct)
  case (snoc d ds)
  then show ?case by (auto simp: row_def)
qed simp

lemma find_channel_id: "find_channel channels i = Some c \<Longrightarrow> c \<in> set channels \<and> chan_id c = i"
  unfolding find_channel_def by (auto dest: row_Some)

interpretation priority_order: comparator "higher_priority idm" for idm
  by unfold_locales (auto simp: higher_priority_def)

lemma init_serves:
  assumes "InitChannelCache channels groups = Some cache"
  shows "i \<in> set (channel_list cache g md) \<longleftrightarrow> (\<exists>c \<in> set channels. chan_id c = i \<and> serves c g md)"
proof -
  have "i \<in> set (channel_list cache g md) \<longleftrightarrow> (g, md, i) \<in> set (concat (map channel_entries channels))"
    using init_lists(2) [OF assms, of g md] by (force simp: image_iff)
  also have "\<dots> \<longleftrightarrow> (\<exists>c \<in> set channels. chan_id c = i \<and> serves c g md)"
    by (force simp: channel_entries_def serves_def split: if_splits)
  finally show ?thesis .
qed


lemma init_consistent:
  assumes "distinct (map chan_id channels)" "InitChannelCache channels groups = Some cache"
  shows "consistent cache"
  unfolding consistent_def
proof (intro allI ballI)
  fix g md i assume "i \<in> set (channel_list cache g md)"
  then obtain c where "c \<in> set channels" "chan_id c = i" using init_serves [OF assms(2)] by auto
  then show "channelsIDM cache i \<noteq> None"
    using find_channel_in [OF assms(1)] init_lists(1) [OF assms(2)] by fastforce
qed

text \<open>the cache follows the channels. After the cache was built every listed channel exists, the list of a group and
  a model has exactly the enabled channels that name both, and it runs from high to low priority.\<close>

theorem cache_exact:
  assumes "distinct (map chan_id channels)" "InitChannelCache channels groups = Some cache"
  shows "consistent cache \<and>
    (i \<in> set (channel_list cache g md) \<longleftrightarrow> (\<exists>c \<in> set channels. chan_id c = i \<and> serves c g md)) \<and>
    sorted_wrt (\<lambda>i j. priority_of (channelsIDM cache) i \<ge> priority_of (channelsIDM cache) j) (channel_list cache g md)"
proof -
  have "sorted_wrt (\<lambda>i j. \<not> higher_priority (find_channel channels) j i) (channel_list cache g md)"
    unfolding init_lists(2) [OF assms(2)] by (rule priority_order.js_sort_sorted)
  then show ?thesis
    using init_consistent [OF assms] init_serves [OF assms(2)] init_lists(1) [OF assms(2)]
    by (simp add: higher_priority_def not_less)
qed

definition sample_channels :: "channel list" where
  "sample_channels = [sample_channel 1 0 3, sample_channel 2 5 1, sample_channel 3 5 0, (sample_channel 4 9 9)\<lparr>chan_status := 3\<rparr>]"

theorem cache_exact_witness:
  "\<exists>cache. InitChannelCache sample_channels [''default''] = Some cache \<and> consistent cache \<and>
     channel_list cache ''default'' ''gpt'' = [2, 3, 1] \<and>
     sorted_wrt (\<lambda>i j. priority_of (channelsIDM cache) i \<ge> priority_of (channelsIDM cache) j) (channel_list cache ''default'' ''gpt'')"
proof -
  have "map_option (\<lambda>c. channel_list c ''default'' ''gpt'') (InitChannelCache sample_channels [''default'']) = Some [2, 3, 1]"
    by code_simp
  then obtain cache where c: "InitChannelCache sample_channels [''default''] = Some cache" "channel_list cache ''default'' ''gpt'' = [2, 3, 1]"
    by (auto simp: map_option_case split: option.splits)
  have "distinct (map chan_id sample_channels)" by code_simp
  from cache_exact [OF this c(1), where g = "''default''" and md = "''gpt''"] c show ?thesis by blast
qed


section \<open>Disabled channels\<close>

text \<open>The list of a channel names no group and no model twice.\<close>

definition tidy :: "channel \<Rightarrow> bool" where
  "tidy c \<longleftrightarrow> distinct (split_on (CHR '','') (chan_group c)) \<and> distinct (split_on (CHR '','') (chan_models c))"

lemma distinct_lists:
  assumes "InitChannelCache channels groups = Some cache" "distinct (map chan_id channels)" "\<forall>c \<in> set channels. tidy c"
  shows "distinct (channel_list cache g md)"
proof -
  have one: "distinct (channel_entries c)" if "tidy c" for c
  proof -
    have "inj_on (\<lambda>md. (g, md, chan_id c)) A" for g and A :: "string set" by (auto simp: inj_on_def)
    then show ?thesis using that
      by (auto simp: channel_entries_def tidy_def distinct_map inj_on_def intro!: distinct_concat)
  qed
  have "distinct (concat (map channel_entries cs))" if "distinct (map chan_id cs)" "\<forall>c \<in> set cs. tidy c" for cs
    using that
  proof (induction cs)
    case (Cons c cs)
    have ids: "snd (snd e) = chan_id c" if "e \<in> set (channel_entries c)" for e c
      using that by (auto simp: channel_entries_def split: if_splits)
    have "set (channel_entries c) \<inter> set (concat (map channel_entries cs)) = {}"
      using Cons.prems(1) ids by fastforce
    with Cons one show ?case by simp
  qed simp
  then have "distinct (concat (map channel_entries channels))" using assms(2,3) by blast
  then have "distinct (map (\<lambda>e. snd (snd e)) (filter (\<lambda>e. fst e = g \<and> fst (snd e) = md) (concat (map channel_entries channels))))"
    by (auto simp: distinct_map inj_on_def)
  then show ?thesis using init_lists(2) [OF assms(1), of g md] by (simp only: distinct_js_sort)
qed

lemma update_status_lists:
  "status \<noteq> ChannelStatusEnabled \<Longrightarrow>
   channel_list (CacheUpdateChannelStatus i status cache) g md = remove1 i (channel_list cache g md)"
  by (simp add: CacheUpdateChannelStatus_def channel_list_def Let_def split: option.splits)

lemma update_status_ids:
  "channelsIDM (CacheUpdateChannelStatus i status cache) j = None \<longleftrightarrow> channelsIDM cache j = None"
  "channelsIDM (CacheUpdateChannelStatus i status cache) j = Some c \<Longrightarrow> \<exists>d. channelsIDM cache j = Some d \<and> chan_id c = chan_id d"
  by (auto simp: CacheUpdateChannelStatus_def Let_def split: option.splits if_splits)

lemma chosen_is_candidate:
  assumes "GetRandomSatisfiedChannel cache rand g md retry = Inr (Some c)"
  shows "\<exists>i \<in> set (candidates_for cache g md). channelsIDM cache i = Some c"
proof -
  let ?ids = "candidates_for cache g md"
  consider "?ids = []" | i where "?ids = [i]" | i j is' where "?ids = i # j # is'" by (cases ?ids rule: remdups_adj.cases) auto
  then show ?thesis
  proof cases
    case 1
    with assms show ?thesis by (simp add: GetRandomSatisfiedChannel_def)
  next
    case (2 i)
    with assms show ?thesis by (simp add: GetRandomSatisfiedChannel_def split: option.splits)
  next
    case (3 i j is')
    show ?thesis
    proof (cases "those (map (channelsIDM cache) ?ids)")
      case None
      with 3 assms show ?thesis by (simp add: GetRandomSatisfiedChannel_def)
    next
      case (Some cs)
      let ?ps = "sorted_priorities cs"
      let ?targets = "filter (\<lambda>c. GetPriority c = ?ps ! (if retry \<ge> length ?ps then length ?ps - 1 else retry)) cs"
      have "pick_channel (smoothing ?targets) ?targets (rand (total_weight ?targets)) = Some c"
        using assms Some unfolding GetRandomSatisfiedChannel_def 3 list.case Let_def
        by (auto split: if_split_asm option.split_asm)
      then have "c \<in> set cs" using pick_channel_none [of c ?targets] by (cases "c \<in> set ?targets") auto
      then have "Some c \<in> channelsIDM cache ` set ?ids" using Some unfolding those_Some by (metis image_eqI list.set_map)
      then show ?thesis by (auto simp: image_iff)
    qed
  qed
qed




text \<open>A channel that names a model twice is listed twice, and disabling it removes one of the two.\<close>

theorem disabled_still_chosen:
  "map_option (\<lambda>cache. map_sum id (map_option chan_id)
       (GetRandomSatisfiedChannel (CacheUpdateChannelStatus 1 3 cache) (\<lambda>_. 0) ''default'' ''gpt'' 0))
     (InitChannelCache [(sample_channel 1 0 3)\<lparr>chan_models := ''gpt,gpt''\<rparr>] [''default'']) = Some (Inr (Some 1))"
  by code_simp

end
