(* ===== verification/Http_Status_Rules.thy ===== *)
theory Http_Status_Rules
  imports Js_Prelude
begin

text \<open>
  Model of \<^verbatim>\<open>web/default/src/lib/http-status-code-rules.ts\<close>: the parser of the comma
  separated status code rules (such as \<^verbatim>\<open>401, 500-599\<close>) that decide on which upstream answers
  a channel is disabled or retried.

  The source also accepts the full-width comma (code unit 65292), so strings are lists of
  code units here and \<open>units\<close> turns a literal into one. The result of the parser is the
  record \<open>parsed_rules\<close>; \<open>merge_ranges\<close> is the normal form of a list of ranges.
\<close>

type_synonym ustring = "nat list"

section \<open>Definitions\<close>

definition units :: "string \<Rightarrow> ustring" where
  "units s = map of_char s"

text \<open>White space and line terminators of JavaScript over all code units.\<close>

definition is_uws :: "nat \<Rightarrow> bool" where
  "is_uws c \<longleftrightarrow> c \<in> {9, 10, 11, 12, 13, 32, 160, 5760, 8232, 8233, 8239, 8287, 12288, 65279}
     \<or> 8192 \<le> c \<and> c \<le> 8202"

abbreviation COMMA :: nat where "COMMA \<equiv> 44"
abbreviation DASH :: nat where "DASH \<equiv> 45"
abbreviation FULLWIDTH_COMMA :: nat where "FULLWIDTH_COMMA \<equiv> 65292"

record status_code_range =
  rstart :: nat
  rend :: nat

record parsed_rules =
  pr_ok :: bool
  pr_ranges :: "status_code_range list"
  pr_tokens :: "ustring list"
  pr_normalized :: ustring
  pr_invalid :: "ustring list"

definition is_number :: "ustring \<Rightarrow> bool" where
  "is_number s \<longleftrightarrow> s \<noteq> [] \<and> list_all (\<lambda>c. 48 \<le> c \<and> c \<le> 57) s"

text \<open>\<open>Number.parseInt\<close> on a string of digits.\<close>

definition parse_int :: "ustring \<Rightarrow> nat" where
  "parse_int s = foldl (\<lambda>n c. 10 * n + (c - 48)) 0 s"

definition is_valid_code :: "nat \<Rightarrow> bool" where
  "is_valid_code code \<longleftrightarrow> 100 \<le> code \<and> code \<le> 599"

definition parse_token :: "ustring \<Rightarrow> status_code_range option" where
  "parse_token token =
     (let cleaned = filter (\<lambda>c. \<not> is_uws c) (trim_by is_uws token) in
      if cleaned = [] then None
      else if DASH \<in> set cleaned then
        (case split_on DASH cleaned of
           a # b # _ \<Rightarrow>
             if \<not> is_number a \<or> \<not> is_number b then None
             else let s = parse_int a; e = parse_int b in
               if \<not> is_valid_code s \<or> \<not> is_valid_code e \<or> s > e then None
               else Some \<lparr>rstart = s, rend = e\<rparr>
         | _ \<Rightarrow> None)
      else if \<not> is_number cleaned then None
      else let code = parse_int cleaned in
        if \<not> is_valid_code code then None else Some \<lparr>rstart = code, rend = code\<rparr>)"

text \<open>The comparator of the sort and the body of the reduce.\<close>

definition range_lt :: "status_code_range \<Rightarrow> status_code_range \<Rightarrow> bool" where
  "range_lt a b = (if rstart a \<noteq> rstart b then rstart a < rstart b else rend a < rend b)"

definition merge_step :: "status_code_range list \<Rightarrow> status_code_range \<Rightarrow> status_code_range list" where
  "merge_step merged current =
     (if merged = [] \<or> rstart current > rend (last merged) + 1 then merged @ [current]
      else butlast merged @ [(last merged)\<lparr>rend := max (rend (last merged)) (rend current)\<rparr>])"

definition merge_ranges :: "status_code_range list \<Rightarrow> status_code_range list" where
  "merge_ranges ranges =
     (if ranges = [] then [] else foldl merge_step [] (js_sort range_lt ranges))"

definition show_range :: "status_code_range \<Rightarrow> ustring" where
  "show_range r =
     (if rstart r = rend r then units (show_nat (rstart r))
      else units (show_nat (rstart r)) @ [DASH] @ units (show_nat (rend r)))"

text \<open>The segments the parser sees: full-width commas count as commas, empty segments do not
  count.\<close>

definition segments_of :: "ustring \<Rightarrow> ustring list" where
  "segments_of raw =
     filter (\<lambda>s. s \<noteq> [])
       (map (trim_by is_uws)
         (split_on COMMA (replace_all_char FULLWIDTH_COMMA [COMMA] raw)))"

definition parse_http_status_code_rules :: "ustring option \<Rightarrow> parsed_rules" where
  "parse_http_status_code_rules input =
     (let raw = trim_by is_uws (case input of None \<Rightarrow> [] | Some s \<Rightarrow> s) in
      if raw = [] then
        \<lparr>pr_ok = True, pr_ranges = [], pr_tokens = [], pr_normalized = [], pr_invalid = []\<rparr>
      else
        let segments = segments_of raw;
            ranges = List.map_filter parse_token segments;
            invalid = filter (\<lambda>s. parse_token s = None) segments in
        if invalid \<noteq> [] then
          \<lparr>pr_ok = False, pr_ranges = [], pr_tokens = [], pr_normalized = raw,
            pr_invalid = invalid\<rparr>
        else
          let merged = merge_ranges ranges; tokens = map show_range merged in
          \<lparr>pr_ok = True, pr_ranges = merged, pr_tokens = tokens,
            pr_normalized = join [COMMA] tokens, pr_invalid = []\<rparr>)"

text \<open>The set of codes a list of ranges stands for, and the normal form of such a list.\<close>

definition codes :: "status_code_range list \<Rightarrow> nat set" where
  "codes rs = (\<Union>r \<in> set rs. {rstart r .. rend r})"

definition range_ok :: "status_code_range \<Rightarrow> bool" where
  "range_ok r \<longleftrightarrow> 100 \<le> rstart r \<and> rstart r \<le> rend r \<and> rend r \<le> 599"

definition separated_ranges :: "status_code_range list \<Rightarrow> bool" where
  "separated_ranges rs \<longleftrightarrow> sorted_wrt (\<lambda>a b. rend a + 1 < rstart b) rs"

section \<open>Merging\<close>

interpretation range_order: comparator range_lt
  by unfold_locales (auto simp: range_lt_def split: if_splits)

text \<open>The reduce keeps the prefix it has built separated, and the last range of the prefix
  starts no later than the ranges still to come.\<close>

lemma merge_step_snoc:
  "merge_step (ms @ [m]) r =
     (if rstart r > rend m + 1 then ms @ [m, r] else ms @ [m\<lparr>rend := max (rend m) (rend r)\<rparr>])"
  by (simp add: merge_step_def)

lemma merge_step_Nil [simp]: "merge_step [] r = [r]"
  by (simp add: merge_step_def)

definition merge_inv :: "status_code_range list \<Rightarrow> nat \<Rightarrow> bool" where
  "merge_inv ms k \<longleftrightarrow> separated_ranges ms \<and> (\<forall>m \<in> set ms. range_ok m) \<and>
     (ms \<noteq> [] \<longrightarrow> rstart (last ms) \<le> k)"

lemma merge_inv_step:
  assumes "merge_inv ms (rstart r)" and "range_ok r"
  shows "merge_inv (merge_step ms r) (rstart r)"
    and "codes (merge_step ms r) = codes ms \<union> {rstart r .. rend r}"
proof -
  have "merge_inv (merge_step ms r) (rstart r) \<and>
      codes (merge_step ms r) = codes ms \<union> {rstart r .. rend r}"
  proof (cases ms rule: rev_cases)
    case Nil
    then show ?thesis using assms
      by (simp add: merge_inv_def separated_ranges_def codes_def)
  next
    case (snoc ms' m)
    have sep: "\<And>a. a \<in> set ms' \<Longrightarrow> rend a + 1 < rstart m"
      and m: "range_ok m" "rstart m \<le> rstart r"
      using assms(1) snoc by (auto simp: merge_inv_def separated_ranges_def sorted_wrt_append)
    show ?thesis
    proof (cases "rstart r > rend m + 1")
      case True
      have "rend a + 1 < rstart r" if "a \<in> set ms'" for a
        using sep [OF that] m True by (auto simp: range_ok_def)
      then show ?thesis using True snoc assms
        by (auto simp: merge_step_snoc merge_inv_def separated_ranges_def sorted_wrt_append codes_def)
    next
      case False
      have "{rstart m..max (rend m) (rend r)} = {rstart m..rend m} \<union> {rstart r..rend r}"
        using False m assms(2) by (auto simp: range_ok_def)
      then show ?thesis using False snoc assms m
        by (auto simp: merge_step_snoc merge_inv_def separated_ranges_def sorted_wrt_append
            codes_def range_ok_def)
    qed
  qed
  then show "merge_inv (merge_step ms r) (rstart r)"
    and "codes (merge_step ms r) = codes ms \<union> {rstart r .. rend r}" by auto
qed

lemma merge_inv_mono: "merge_inv ms k \<Longrightarrow> k \<le> k' \<Longrightarrow> merge_inv ms k'"
  by (auto simp: merge_inv_def)

lemma foldl_merge_step:
  assumes "sorted_wrt (\<lambda>a b. \<not> range_lt b a) rs" and "\<forall>r \<in> set rs. range_ok r"
    and "\<forall>r \<in> set rs. k \<le> rstart r" and "merge_inv ms k"
  shows "(\<exists>k'. merge_inv (foldl merge_step ms rs) k') \<and>
    codes (foldl merge_step ms rs) = codes ms \<union> codes rs"
  using assms
proof (induction rs arbitrary: ms k)
  case Nil
  then show ?case by (auto simp: codes_def)
next
  case (Cons r rs)
  have "merge_inv ms (rstart r)" using Cons.prems merge_inv_mono by auto
  then have step: "merge_inv (merge_step ms r) (rstart r)"
    "codes (merge_step ms r) = codes ms \<union> {rstart r..rend r}"
    using Cons.prems merge_inv_step by auto
  have "\<forall>r' \<in> set rs. rstart r \<le> rstart r'"
    using Cons.prems(1) by (auto simp: range_lt_def split: if_splits)
  from Cons.IH [OF _ _ this step(1)] step(2) Cons.prems(1,2)
  show ?case by (auto simp: codes_def)
qed

lemma merge_ranges_spec:
  assumes "\<forall>r \<in> set rs. range_ok r"
  shows "separated_ranges (merge_ranges rs)" and "\<forall>r \<in> set (merge_ranges rs). range_ok r"
    and "codes (merge_ranges rs) = codes rs"
proof -
  have "merge_inv [] 0" by (simp add: merge_inv_def separated_ranges_def)
  moreover have "\<forall>r \<in> set (js_sort range_lt rs). range_ok r" using assms by simp
  ultimately have "(\<exists>k'. merge_inv (foldl merge_step [] (js_sort range_lt rs)) k') \<and>
      codes (foldl merge_step [] (js_sort range_lt rs)) = codes [] \<union> codes (js_sort range_lt rs)"
    using foldl_merge_step [OF range_order.js_sort_sorted] by blast
  moreover have "codes (js_sort range_lt rs) = codes rs" by (simp add: codes_def)
  ultimately show "separated_ranges (merge_ranges rs)"
    and "\<forall>r \<in> set (merge_ranges rs). range_ok r"
    and "codes (merge_ranges rs) = codes rs"
    by (auto simp: merge_ranges_def merge_inv_def codes_def separated_ranges_def)
qed

lemma foldl_merge_step_separated:
  assumes "separated_ranges (ms @ rs)"
  shows "foldl merge_step ms rs = ms @ rs"
  using assms
proof (induction rs arbitrary: ms)
  case Nil
  then show ?case by simp
next
  case (Cons r rs)
  have "merge_step ms r = ms @ [r]"
    using Cons.prems
    by (cases ms rule: rev_cases) (auto simp: merge_step_snoc separated_ranges_def sorted_wrt_append)
  then show ?case using Cons by simp
qed

lemma separated_sorted:
  assumes "separated_ranges rs" and "\<forall>r \<in> set rs. range_ok r"
  shows "sorted_wrt (\<lambda>a b. \<not> range_lt b a) rs"
  using assms unfolding separated_ranges_def
  by (induction rs) (auto simp: range_lt_def range_ok_def)

lemma merge_ranges_id:
  "separated_ranges rs \<Longrightarrow> \<forall>r \<in> set rs. range_ok r \<Longrightarrow> merge_ranges rs = rs"
  using separated_sorted [of rs] foldl_merge_step_separated [of "[]" rs]
  by (simp add: merge_ranges_def range_order.js_sort_id)

section \<open>Tokens\<close>

lemma set_units: "c \<in> set (units (show_nat n)) \<Longrightarrow> 48 \<le> c \<and> c \<le> 57"
  by (auto simp: units_def is_digit_def dest!: show_nat_digits)

lemma digit_unit_not_ws: "48 \<le> c \<Longrightarrow> c \<le> 57 \<Longrightarrow> \<not> is_uws c"
  by (auto simp: is_uws_def)

lemma parse_int_units: "parse_int (units s) = digits_val s"
proof -
  have "foldl (\<lambda>n c. 10 * n + (c - 48)) k (map of_char s) =
      foldl (\<lambda>n c. 10 * n + digit_val c) k s" for k :: nat
    by (induction s arbitrary: k) (auto simp: digit_val_def)
  then show ?thesis by (simp add: parse_int_def digits_val_def units_def)
qed

lemma is_number_show_nat [simp]: "is_number (units (show_nat n))"
  using set_units by (auto simp: is_number_def list_all_iff) (simp add: units_def)

lemma show_range_units: "c \<in> set (show_range r) \<Longrightarrow> c = DASH \<or> 48 \<le> c \<and> c \<le> 57"
  by (auto simp: show_range_def dest: set_units split: if_splits)

lemma show_range_no_ws: "c \<in> set (show_range r) \<Longrightarrow> \<not> is_uws c"
  using show_range_units [of c r] digit_unit_not_ws [of c] by (auto simp: is_uws_def)

lemma show_range_not_Nil [simp]: "show_range r \<noteq> []"
  by (simp add: show_range_def units_def)

lemma trim_by_no_ws:
  assumes "\<And>c. c \<in> set s \<Longrightarrow> \<not> ws c"
  shows "trim_by ws s = s"
  using assms hd_in_set [of s] last_in_set [of s] by (intro trim_by_id) auto

text \<open>Printing a range and reading it back: the two directions of the token syntax.\<close>

lemma parse_token_show_range:
  assumes "range_ok r"
  shows "parse_token (show_range r) = Some r"
proof -
  let ?s = "show_range r"
  have clean: "filter (\<lambda>c. \<not> is_uws c) (trim_by is_uws ?s) = ?s"
    by (simp add: trim_by_no_ws show_range_no_ws filter_id_conv)
  have nodash: "DASH \<notin> set (units (show_nat n))" for n using set_units by force
  have valid: "is_valid_code (rstart r)" "is_valid_code (rend r)" "rstart r \<le> rend r"
    using assms by (auto simp: range_ok_def is_valid_code_def)
  show ?thesis
  proof (cases "rstart r = rend r")
    case True
    then have "?s = units (show_nat (rstart r))" by (simp add: show_range_def)
    with True show ?thesis
      using clean nodash valid show_range_not_Nil [of r]
      by (cases r) (simp add: parse_token_def parse_int_units Let_def)
  next
    case False
    then have s: "?s = units (show_nat (rstart r)) @ DASH # units (show_nat (rend r))"
      by (simp add: show_range_def)
    have "split_on DASH ?s = [units (show_nat (rstart r)), units (show_nat (rend r))]"
      unfolding s using nodash by (simp add: split_on_append_sep split_on_no_sep)
    moreover have "DASH \<in> set ?s" using s by simp
    ultimately show ?thesis
      using clean valid by (cases r) (simp add: parse_token_def parse_int_units Let_def)
  qed
qed

lemma parse_token_ok: "parse_token s = Some r \<Longrightarrow> range_ok r"
  by (auto simp: parse_token_def range_ok_def is_valid_code_def Let_def
      split: if_splits list.splits)

interpretation token_list: separated COMMA "\<lambda>s. \<exists>r. s = show_range r"
  by unfold_locales (auto dest!: show_range_units)

lemma replace_all_char_id: "c \<notin> set s \<Longrightarrow> replace_all_char c r s = s"
  by (induction s) (auto simp: replace_all_char_def)

text \<open>The normalized text reads back as the very segments it was printed from.\<close>

lemma segments_of_tokens:
  assumes "rs \<noteq> []"
  shows "segments_of (join [COMMA] (map show_range rs)) = map show_range rs"
proof -
  have "FULLWIDTH_COMMA \<notin> set (join [COMMA] (map show_range rs))"
    using set_join [of "[COMMA]" "map show_range rs"] by (force dest: show_range_units)
  moreover have "split_on COMMA (join [COMMA] (map show_range rs)) = map show_range rs"
    using assms by (intro token_list.split_join) auto
  moreover have "map (trim_by is_uws) (map show_range rs) = map show_range rs"
    by (simp add: trim_by_no_ws show_range_no_ws)
  ultimately show ?thesis
    by (simp add: segments_of_def replace_all_char_id filter_id_conv del: map_map)
qed

lemma tokens_text_trimmed:
  assumes "rs \<noteq> []"
  shows "trim_by is_uws (join [COMMA] (map show_range rs)) = join [COMMA] (map show_range rs)"
    and "join [COMMA] (map show_range rs) \<noteq> []"
proof -
  have "c \<in> set (join [COMMA] (map show_range rs)) \<Longrightarrow> \<not> is_uws c" for c
    using set_join [of "[COMMA]" "map show_range rs"] by (auto simp: show_range_no_ws is_uws_def [of COMMA])
  then show "trim_by is_uws (join [COMMA] (map show_range rs)) = join [COMMA] (map show_range rs)"
    by (rule trim_by_no_ws)
  show "join [COMMA] (map show_range rs) \<noteq> []"
    using assms by (cases rs) (auto simp: join_Cons)
qed

lemma map_filter_parse_tokens:
  "\<forall>r \<in> set rs. range_ok r \<Longrightarrow> List.map_filter parse_token (map show_range rs) = rs"
  by (induction rs) (auto simp: List.map_filter_def parse_token_show_range)

text \<open>What the segments of an input stand for.\<close>

definition segment_codes :: "ustring list \<Rightarrow> nat set" where
  "segment_codes segs = (\<Union>s \<in> set segs. case parse_token s of None \<Rightarrow> {} | Some r \<Rightarrow> {rstart r .. rend r})"

lemma codes_map_filter: "codes (List.map_filter parse_token segs) = segment_codes segs"
  by (induction segs) (auto simp: codes_def segment_codes_def List.map_filter_def split: option.splits)

lemma map_filter_parse_ok: "\<forall>r \<in> set (List.map_filter parse_token segs). range_ok r"
  by (auto simp: List.map_filter_def dest: parse_token_ok)

text \<open>The shape of an accepted result, and that its normalized text parses to it.\<close>

definition accepted :: "status_code_range list \<Rightarrow> parsed_rules" where
  "accepted rs = \<lparr>pr_ok = True, pr_ranges = rs, pr_tokens = map show_range rs,
     pr_normalized = join [COMMA] (map show_range rs), pr_invalid = []\<rparr>"

lemma parse_accepted_form:
  assumes "pr_ok (parse_http_status_code_rules input)"
  obtains rs where "separated_ranges rs" "\<forall>r \<in> set rs. range_ok r"
    and "parse_http_status_code_rules input = accepted rs"
proof (cases "trim_by is_uws (case input of None \<Rightarrow> [] | Some s \<Rightarrow> s) = []")
  case True
  then have "parse_http_status_code_rules input = accepted []"
    by (simp add: parse_http_status_code_rules_def accepted_def)
  then show ?thesis by (rule that [of "[]", rotated 2]) (simp_all add: separated_ranges_def)
next
  case False
  let ?segs = "segments_of (trim_by is_uws (case input of None \<Rightarrow> [] | Some s \<Rightarrow> s))"
  let ?rs = "merge_ranges (List.map_filter parse_token ?segs)"
  have "filter (\<lambda>s. parse_token s = None) ?segs = []"
    using assms False by (simp add: parse_http_status_code_rules_def Let_def split: if_splits)
  then have "parse_http_status_code_rules input = accepted ?rs"
    using False by (simp add: parse_http_status_code_rules_def Let_def accepted_def)
  then show ?thesis
    using merge_ranges_spec(1,2) [OF map_filter_parse_ok] by (intro that [of ?rs]) auto
qed

lemma parse_accepted:
  assumes "separated_ranges rs" "\<forall>r \<in> set rs. range_ok r"
  shows "parse_http_status_code_rules (Some (pr_normalized (accepted rs))) = accepted rs"
proof (cases "rs = []")
  case True
  then show ?thesis by (simp add: parse_http_status_code_rules_def accepted_def)
next
  case False
  have "filter (\<lambda>s. parse_token s = None) (map show_range rs) = []"
    using assms(2) by (simp add: filter_empty_conv parse_token_show_range)
  moreover have "List.map_filter parse_token (map show_range rs) = rs"
    using assms(2) by (rule map_filter_parse_tokens)
  moreover have "merge_ranges rs = rs" using assms by (rule merge_ranges_id)
  ultimately show ?thesis
    using tokens_text_trimmed [OF False] segments_of_tokens [OF False]
    by (simp add: parse_http_status_code_rules_def accepted_def Let_def)
qed

section \<open>Properties\<close>

text \<open>the ranges of every parse result are in normal form: each lies within 100 and 599
  with its start no later than its end, they are in ascending order, and between two of them
  at least one code is missing, so no two could be merged further.\<close>

theorem rules_normal_form:
  "separated_ranges (pr_ranges (parse_http_status_code_rules input)) \<and>
   list_all range_ok (pr_ranges (parse_http_status_code_rules input))"
proof -
  have "separated_ranges (merge_ranges (List.map_filter parse_token segs))"
    and "list_all range_ok (merge_ranges (List.map_filter parse_token segs))" for segs
    using merge_ranges_spec [OF map_filter_parse_ok] by (auto simp: list_all_iff)
  then show ?thesis
    by (simp add: parse_http_status_code_rules_def Let_def separated_ranges_def)
qed


text \<open>normalization is stable: when rules are accepted, parsing their normalized text
  again is accepted with the same ranges, the same tokens and the same normalized text, so
  saving and reloading a setting never changes it.\<close>

theorem rules_normalize_idempotent:
  assumes "pr_ok (parse_http_status_code_rules input)"
  shows "parse_http_status_code_rules (Some (pr_normalized (parse_http_status_code_rules input)))
    = parse_http_status_code_rules input"
proof -
  obtain rs where rs: "separated_ranges rs" "\<forall>r \<in> set rs. range_ok r"
    and res: "parse_http_status_code_rules input = accepted rs"
    using assms by (rule parse_accepted_form)
  have "parse_http_status_code_rules (Some (pr_normalized (accepted rs))) = accepted rs"
    using rs by (rule parse_accepted)
  then show ?thesis by (simp only: res)
qed

lemmas rules_eval = parse_http_status_code_rules_def segments_of_def parse_token_def units_def
  trim_by_def is_uws_def replace_all_char_def is_number_def parse_int_def is_valid_code_def
  merge_ranges_def merge_step_def range_lt_def show_range_def Let_def List.map_filter_def
  show_nat.simps digit_char_def

theorem rules_normalize_idempotent_witness:
  "pr_ok (parse_http_status_code_rules (Some (units '' 500-505 , 401,504-510''))) \<and>
   parse_http_status_code_rules
     (Some (pr_normalized (parse_http_status_code_rules (Some (units '' 500-505 , 401,504-510'')))))
   = parse_http_status_code_rules (Some (units '' 500-505 , 401,504-510''))"
proof -
  have ok: "pr_ok (parse_http_status_code_rules (Some (units '' 500-505 , 401,504-510'')))"
    by (simp add: rules_eval)
  show ?thesis using ok rules_normalize_idempotent [OF ok] by (rule conjI)
qed

end
