(* ===== verification/Server_Status_Rules.thy ===== *)
theory Server_Status_Rules
  imports Http_Status_Rules
begin

text \<open>
  Model of \<^verbatim>\<open>setting/operation_setting/status_code_ranges.go\<close>: the server's own reader of the status code rules
  that the dashboard edits, their text form, and the decisions that the server takes by them. Strings are lists of
  code points, integers of the language are unbounded here and \<open>Atoi\<close> refuses what does not fit 64 bits. The sort
  of the source is by a total order, so its result does not depend on the algorithm.
\<close>

section \<open>Definitions\<close>

definition is_go_space :: "nat \<Rightarrow> bool" where
  "is_go_space c \<longleftrightarrow> c \<in> {9, 10, 11, 12, 13, 32, 133, 160, 5760, 8232, 8233, 8239, 8287, 12288} \<or> 8192 \<le> c \<and> c \<le> 8202"

text \<open>\<open>strconv.Atoi\<close>: an optional sign and digits whose value fits a 64 bit integer.\<close>

definition Atoi :: "ustring \<Rightarrow> int option" where
  "Atoi s =
     (let (negative, ds) = (case s of
            c # cs \<Rightarrow> if c = DASH then (True, cs) else if c = 43 then (False, cs) else (False, s)
          | [] \<Rightarrow> (False, []));
          n = (if negative then - int (parse_int ds) else int (parse_int ds))
      in if is_number ds \<and> - (2 ^ 63) \<le> n \<and> n < 2 ^ 63 then Some n else None)"

record code_range =
  cr_start :: int
  cr_end :: int

definition parseHTTPStatusCodeToken :: "ustring \<Rightarrow> code_range option" where
  "parseHTTPStatusCodeToken token =
     (let t = filter (\<lambda>c. c \<noteq> 32) (trim_by is_go_space token)
      in if t = [] then None
         else if DASH \<in> set t
         then (case split_on DASH t of
                 [a, b] \<Rightarrow>
                   if a = [] \<or> b = [] then None
                   else (case (Atoi a, Atoi b) of
                           (Some s, Some e) \<Rightarrow>
                             if s > e then None
                             else if s < 100 \<or> e > 599 then None
                             else Some \<lparr>cr_start = s, cr_end = e\<rparr>
                         | _ \<Rightarrow> None)
               | _ \<Rightarrow> None)
         else (case Atoi t of
                 None \<Rightarrow> None
               | Some code \<Rightarrow> if code < 100 \<or> code > 599 then None else Some \<lparr>cr_start = code, cr_end = code\<rparr>))"

definition range_less :: "code_range \<Rightarrow> code_range \<Rightarrow> bool" where
  "range_less a b = (if cr_start a = cr_start b then cr_end a < cr_end b else cr_start a < cr_start b)"

definition merge_range :: "code_range list \<Rightarrow> code_range \<Rightarrow> code_range list" where
  "merge_range merged r =
     (let l = last merged
      in if cr_start r \<le> cr_end l + 1
         then (if cr_end r > cr_end l then butlast merged @ [l\<lparr>cr_end := cr_end r\<rparr>] else merged)
         else merged @ [r])"

definition rule_segments :: "ustring \<Rightarrow> ustring list" where
  "rule_segments input =
     filter (\<lambda>s. s \<noteq> []) (map (trim_by is_go_space) (split_on COMMA (replace_all_char FULLWIDTH_COMMA [COMMA] input)))"

definition ParseHTTPStatusCodeRanges :: "ustring \<Rightarrow> ustring + code_range list" where
  "ParseHTTPStatusCodeRanges raw =
     (let input = trim_by is_go_space raw
      in if input = [] then Inr []
         else let segments = rule_segments input;
                  ranges = List.map_filter parseHTTPStatusCodeToken segments;
                  invalid = filter (\<lambda>s. parseHTTPStatusCodeToken s = None) segments
              in if invalid \<noteq> [] then Inl (units ''invalid http status code rules: '' @ join (units '', '') invalid)
                 else (case js_sort range_less ranges of
                         [] \<Rightarrow> Inr []
                       | r # rs \<Rightarrow> Inr (foldl merge_range [r] rs)))"

definition show_code :: "int \<Rightarrow> ustring" where
  "show_code n = units (show_int n)"

definition statusCodeRangesToString :: "code_range list \<Rightarrow> ustring" where
  "statusCodeRangesToString ranges =
     join [COMMA] (map (\<lambda>r. if cr_start r = cr_end r then show_code (cr_start r)
                            else show_code (cr_start r) @ [DASH] @ show_code (cr_end r)) ranges)"

fun match_ranges :: "code_range list \<Rightarrow> int \<Rightarrow> bool" where
  "match_ranges [] code = False"
| "match_ranges (r # rs) code =
     (if code < cr_start r then False else if code \<le> cr_end r then True else match_ranges rs code)"

definition shouldMatchStatusCodeRanges :: "code_range list \<Rightarrow> int \<Rightarrow> bool" where
  "shouldMatchStatusCodeRanges ranges code = (if code < 100 \<or> code > 599 then False else match_ranges ranges code)"

text \<open>The two settings and their initial values.\<close>

record status_settings =
  AutomaticDisableStatusCodeRanges :: "code_range list"
  AutomaticRetryStatusCodeRanges :: "code_range list"

definition default_settings :: status_settings where
  "default_settings =
     \<lparr>AutomaticDisableStatusCodeRanges = [\<lparr>cr_start = 401, cr_end = 401\<rparr>],
      AutomaticRetryStatusCodeRanges =
        [\<lparr>cr_start = 100, cr_end = 199\<rparr>, \<lparr>cr_start = 300, cr_end = 399\<rparr>, \<lparr>cr_start = 401, cr_end = 407\<rparr>,
         \<lparr>cr_start = 409, cr_end = 499\<rparr>, \<lparr>cr_start = 500, cr_end = 503\<rparr>, \<lparr>cr_start = 505, cr_end = 523\<rparr>,
         \<lparr>cr_start = 525, cr_end = 599\<rparr>]\<rparr>"

definition AutomaticDisableStatusCodesFromString :: "ustring \<Rightarrow> status_settings \<Rightarrow> (ustring + unit) \<times> status_settings" where
  "AutomaticDisableStatusCodesFromString s st =
     (case ParseHTTPStatusCodeRanges s of
        Inl err \<Rightarrow> (Inl err, st)
      | Inr ranges \<Rightarrow> (Inr (), st\<lparr>AutomaticDisableStatusCodeRanges := ranges\<rparr>))"

definition AutomaticRetryStatusCodesFromString :: "ustring \<Rightarrow> status_settings \<Rightarrow> (ustring + unit) \<times> status_settings" where
  "AutomaticRetryStatusCodesFromString s st =
     (case ParseHTTPStatusCodeRanges s of
        Inl err \<Rightarrow> (Inl err, st)
      | Inr ranges \<Rightarrow> (Inr (), st\<lparr>AutomaticRetryStatusCodeRanges := ranges\<rparr>))"

definition ShouldDisableByStatusCode :: "status_settings \<Rightarrow> int \<Rightarrow> bool" where
  "ShouldDisableByStatusCode st code = shouldMatchStatusCodeRanges (AutomaticDisableStatusCodeRanges st) code"

definition IsAlwaysSkipRetryStatusCode :: "int \<Rightarrow> bool" where
  "IsAlwaysSkipRetryStatusCode code \<longleftrightarrow> code \<in> {504, 524}"

definition IsAlwaysSkipRetryCode :: "string \<Rightarrow> bool" where
  "IsAlwaysSkipRetryCode errorCode \<longleftrightarrow> errorCode = ''bad_response_body''"

definition ShouldRetryByStatusCode :: "status_settings \<Rightarrow> int \<Rightarrow> bool" where
  "ShouldRetryByStatusCode st code =
     (if IsAlwaysSkipRetryStatusCode code then False
      else shouldMatchStatusCodeRanges (AutomaticRetryStatusCodeRanges st) code)"

section \<open>The ranges of the server and of the dashboard\<close>

definition server_range :: "status_code_range \<Rightarrow> code_range" where
  "server_range r = \<lparr>cr_start = int (rstart r), cr_end = int (rend r)\<rparr>"

lemma server_range_fields [simp]: "cr_start (server_range r) = int (rstart r)" "cr_end (server_range r) = int (rend r)"
  by (simp_all add: server_range_def)

lemma server_range_inj [simp]: "server_range r = server_range r' \<longleftrightarrow> r = r'"
  by (cases r; cases r') (simp add: server_range_def)

lemma js_sort_map:
  assumes "\<And>a b. lt' (f a) (f b) = lt a b"
  shows "js_sort lt' (map f xs) = map f (js_sort lt xs)"
proof -
  have "insert_by lt' (f x) (map f ys) = map f (insert_by lt x ys)" for x ys
    by (induction ys) (auto simp: assms)
  then show ?thesis by (induction xs) simp_all
qed

lemma merge_range_server:
  assumes "ms \<noteq> []"
  shows "merge_range (map server_range ms) (server_range r) = map server_range (merge_step ms r)"
proof (cases ms rule: rev_cases)
  case (snoc ms' m)
  have "(server_range m)\<lparr>cr_end := int (rend r)\<rparr> = server_range (m\<lparr>rend := rend r\<rparr>)" by (simp add: server_range_def)
  moreover have "m\<lparr>rend := rend m\<rparr> = m" by simp
  ultimately show ?thesis unfolding snoc
    by (auto simp: merge_range_def merge_step_snoc Let_def max_def)
qed (use assms in simp)

lemma foldl_merge_server:
  "ms \<noteq> [] \<Longrightarrow> foldl merge_range (map server_range ms) (map server_range rs) = map server_range (foldl merge_step ms rs)"
proof (induction rs arbitrary: ms)
  case (Cons r rs)
  have "merge_step ms r \<noteq> []" by (simp add: merge_step_def)
  with Cons show ?case by (simp add: merge_range_server)
qed simp

text \<open>The server merges as the dashboard does.\<close>

lemma merge_server:
  "(case js_sort range_less (map server_range rs) of [] \<Rightarrow> Inr [] | r # rest \<Rightarrow> Inr (foldl merge_range [r] rest)) =
    Inr (map server_range (merge_ranges rs))"
proof -
  have sorted: "js_sort range_less (map server_range rs) = map server_range (js_sort range_lt rs)"
    by (rule js_sort_map) (auto simp: range_less_def range_lt_def)
  show ?thesis
  proof (cases "js_sort range_lt rs")
    case Nil
    then have "rs = []" using length_js_sort [of range_lt rs] by (metis length_0_conv)
    then show ?thesis by (simp add: merge_ranges_def)
  next
    case (Cons q qs)
    then have "rs \<noteq> []" by auto
    with Cons sorted foldl_merge_server [of "[q]" qs] show ?thesis by (simp add: merge_ranges_def)
  qed
qed

text \<open>A token that the server accepts stands for a range within the bounds.\<close>

lemma server_token_ok:
  assumes "parseHTTPStatusCodeToken t = Some r"
  obtains q where "range_ok q" "r = server_range q"
proof -
  have r: "100 \<le> cr_start r \<and> cr_start r \<le> cr_end r \<and> cr_end r \<le> 599"
    using assms by (auto simp: parseHTTPStatusCodeToken_def Let_def split: if_splits list.splits option.splits)
  let ?q = "\<lparr>rstart = nat (cr_start r), rend = nat (cr_end r)\<rparr>"
  have "range_ok ?q" "r = server_range ?q" using r by (cases r; auto simp: range_ok_def server_range_def)+
  then show ?thesis by (rule that)
qed

lemma server_tokens:
  obtains qs where "\<forall>q \<in> set qs. range_ok q" "List.map_filter parseHTTPStatusCodeToken segs = map server_range qs"
proof (induction segs arbitrary: thesis)
  case Nil
  then show ?case by (simp add: List.map_filter_def)
next
  case (Cons s segs)
  obtain qs where qs: "\<forall>q \<in> set qs. range_ok q" "List.map_filter parseHTTPStatusCodeToken segs = map server_range qs"
    using Cons.IH by blast
  show ?case
  proof (cases "parseHTTPStatusCodeToken s")
    case None
    with qs Cons.prems show ?thesis by (simp add: List.map_filter_simps)
  next
    case (Some r)
    then obtain q where q: "range_ok q" "r = server_range q" by (rule server_token_ok)
    with qs Some show ?thesis by (intro Cons.prems [of "q # qs"]) (simp_all add: List.map_filter_simps)
  qed
qed


section \<open>Reading what the dashboard writes\<close>

lemma digit_no_space: "48 \<le> c \<Longrightarrow> c \<le> 57 \<Longrightarrow> \<not> is_go_space c \<and> c \<noteq> 32 \<and> c \<noteq> 43 \<and> c \<noteq> DASH"
  by (auto simp: is_go_space_def)

lemma Atoi_show_nat: "n \<le> 599 \<Longrightarrow> Atoi (units (show_nat n)) = Some (int n)"
proof -
  assume n: "n \<le> 599"
  let ?s = "units (show_nat n)"
  have "?s \<noteq> []" using is_number_show_nat [of n] by (auto simp: is_number_def)
  then obtain c cs where s: "?s = c # cs" by (cases ?s) auto
  then have "48 \<le> c" "c \<le> 57" using set_units [of c n] by auto
  then have "(case ?s of c # cs \<Rightarrow> if c = DASH then (True, cs) else if c = 43 then (False, cs) else (False, ?s)
      | [] \<Rightarrow> (False, [])) = (False, ?s)" unfolding s by simp
  then show ?thesis using n by (simp add: Atoi_def parse_int_units)
qed

lemma show_range_no_space: "c \<in> set (show_range r) \<Longrightarrow> \<not> is_go_space c \<and> c \<noteq> 32"
  using show_range_units [of c r] digit_no_space [of c] by (auto simp: is_go_space_def)

lemma server_reads_token:
  assumes "range_ok r"
  shows "parseHTTPStatusCodeToken (show_range r) = Some (server_range r)"
proof -
  let ?s = "show_range r"
  have clean: "filter (\<lambda>c. c \<noteq> 32) (trim_by is_go_space ?s) = ?s"
    using show_range_no_space [of _ r] by (subst trim_by_no_ws) (auto simp: filter_id_conv)
  have nodash: "DASH \<notin> set (units (show_nat n))" for n using set_units by force
  have full: "units (show_nat n) \<noteq> []" for n using is_number_show_nat [of n] by (auto simp: is_number_def)
  have r: "100 \<le> rstart r" "rstart r \<le> rend r" "rend r \<le> 599" using assms by (auto simp: range_ok_def)
  show ?thesis
  proof (cases "rstart r = rend r")
    case True
    then have "?s = units (show_nat (rstart r))" by (simp add: show_range_def)
    with True r clean nodash full show ?thesis
      by (simp add: parseHTTPStatusCodeToken_def Atoi_show_nat server_range_def Let_def)
  next
    case False
    then have s: "?s = units (show_nat (rstart r)) @ DASH # units (show_nat (rend r))" by (simp add: show_range_def)
    have "split_on DASH ?s = [units (show_nat (rstart r)), units (show_nat (rend r))]"
      unfolding s using nodash by (simp add: split_on_append_sep split_on_no_sep)
    moreover have "DASH \<in> set ?s" "?s \<noteq> []" using s by simp_all
    ultimately show ?thesis using clean r full
      by (simp add: parseHTTPStatusCodeToken_def Atoi_show_nat server_range_def Let_def)
  qed
qed

lemma server_segments:
  assumes "rs \<noteq> []"
  shows "trim_by is_go_space (join [COMMA] (map show_range rs)) = join [COMMA] (map show_range rs)"
    "rule_segments (join [COMMA] (map show_range rs)) = map show_range rs"
proof -
  let ?s = "join [COMMA] (map show_range rs)"
  have chars: "c = COMMA \<or> (\<exists>r. c \<in> set (show_range r))" if "c \<in> set ?s" for c
    using set_join [of "[COMMA]" "map show_range rs"] that by auto
  show "trim_by is_go_space ?s = ?s"
    using chars show_range_no_space by (intro trim_by_no_ws) (force simp: is_go_space_def [of COMMA])
  have "FULLWIDTH_COMMA \<notin> set ?s" using chars by (force dest: show_range_units)
  moreover have "split_on COMMA ?s = map show_range rs" using assms by (intro token_list.split_join) auto
  moreover have "map (trim_by is_go_space) (map show_range rs) = map show_range rs"
    using show_range_no_space by (simp add: trim_by_no_ws)
  ultimately show "rule_segments ?s = map show_range rs"
    by (simp add: rule_segments_def replace_all_char_id filter_id_conv del: map_map)
qed

lemma server_reads:
  assumes "separated_ranges rs" "\<forall>r \<in> set rs. range_ok r"
  shows "ParseHTTPStatusCodeRanges (join [COMMA] (map show_range rs)) = Inr (map server_range rs)"
proof (cases "rs = []")
  case True
  then show ?thesis by (simp add: ParseHTTPStatusCodeRanges_def)
next
  case False
  have "List.map_filter parseHTTPStatusCodeToken (map show_range rs) = map server_range rs"
    using assms(2) by (induction rs) (auto simp: List.map_filter_simps server_reads_token)
  moreover have "filter (\<lambda>s. parseHTTPStatusCodeToken s = None) (map show_range rs) = []"
    using assms(2) by (simp add: filter_empty_conv server_reads_token)
  moreover have "merge_ranges rs = rs" using assms by (rule merge_ranges_id)
  ultimately show ?thesis
    using server_segments [OF False] tokens_text_trimmed(2) [OF False]
    by (simp add: ParseHTTPStatusCodeRanges_def Let_def merge_server)
qed

section \<open>Decisions\<close>

text \<open>On separated ranges the search that stops early finds every code.\<close>

lemma match_separated:
  assumes "separated_ranges rs" "\<forall>r \<in> set rs. range_ok r"
  shows "match_ranges (map server_range rs) code \<longleftrightarrow> (\<exists>r \<in> set rs. int (rstart r) \<le> code \<and> code \<le> int (rend r))"
  using assms
proof (induction rs)
  case (Cons r rs)
  have later: "code < int (rstart r) \<Longrightarrow> q \<in> set rs \<Longrightarrow> \<not> int (rstart q) \<le> code" for q
    using Cons.prems by (auto simp: separated_ranges_def range_ok_def)
  have "separated_ranges rs" using Cons.prems by (simp add: separated_ranges_def)
  with Cons later show ?case by auto
qed simp

lemma range_codes:
  "(\<exists>r \<in> set rs. int (rstart r) \<le> code \<and> code \<le> int (rend r)) \<longleftrightarrow> 0 \<le> code \<and> nat code \<in> codes rs"
proof -
  have "int a \<le> code \<and> code \<le> int b \<longleftrightarrow> 0 \<le> code \<and> a \<le> nat code \<and> nat code \<le> b" for a b by linarith
  then show ?thesis by (auto simp: codes_def)
qed

lemma match_codes:
  assumes "separated_ranges rs" "\<forall>r \<in> set rs. range_ok r"
  shows "shouldMatchStatusCodeRanges (map server_range rs) code \<longleftrightarrow> 0 \<le> code \<and> nat code \<in> codes rs"
proof -
  have "100 \<le> code \<and> code \<le> 599" if "r \<in> set rs" "int (rstart r) \<le> code" "code \<le> int (rend r)" for r
    using assms(2) that by (auto simp: range_ok_def)
  then show ?thesis
    using match_separated [OF assms] by (auto simp: shouldMatchStatusCodeRanges_def range_codes [symmetric])
qed

text \<open>What an accepted text of rules means, and that its text form is read back.\<close>

lemma server_parse:
  assumes "ParseHTTPStatusCodeRanges s = Inr ranges"
  obtains rs where "ranges = map server_range rs" "separated_ranges rs" "\<forall>r \<in> set rs. range_ok r"
    "\<And>code. (\<exists>r \<in> set rs. int (rstart r) \<le> code \<and> code \<le> int (rend r)) \<longleftrightarrow>
       (\<exists>seg r. seg \<in> set (rule_segments (trim_by is_go_space s)) \<and> parseHTTPStatusCodeToken seg = Some r \<and> cr_start r \<le> code \<and> code \<le> cr_end r)"
proof -
  let ?segs = "rule_segments (trim_by is_go_space s)"
  obtain qs where qs: "\<forall>q \<in> set qs. range_ok q" "List.map_filter parseHTTPStatusCodeToken ?segs = map server_range qs"
    by (rule server_tokens)
  have ranges: "ranges = map server_range (merge_ranges qs)"
  proof (cases "trim_by is_go_space s = []")
    case True
    then have "?segs = []" by (simp add: rule_segments_def replace_all_char_def)
    with qs(2) have "qs = []" by (simp add: List.map_filter_simps)
    with True assms show ?thesis by (simp add: ParseHTTPStatusCodeRanges_def merge_ranges_def)
  next
    case False
    with assms qs(2) show ?thesis
      by (simp add: ParseHTTPStatusCodeRanges_def Let_def merge_server split: if_splits)
  qed
  note m = merge_ranges_spec [OF qs(1)]
  have "(\<exists>r \<in> set (merge_ranges qs). int (rstart r) \<le> code \<and> code \<le> int (rend r)) \<longleftrightarrow> (\<exists>q \<in> set qs. int (rstart q) \<le> code \<and> code \<le> int (rend q))" for code
    using m(3) by (simp add: range_codes)
  moreover have "(\<exists>q \<in> set qs. int (rstart q) \<le> code \<and> code \<le> int (rend q)) \<longleftrightarrow>
      (\<exists>seg r. seg \<in> set ?segs \<and> parseHTTPStatusCodeToken seg = Some r \<and> cr_start r \<le> code \<and> code \<le> cr_end r)" for code
  proof -
    have "(\<exists>q \<in> set qs. int (rstart q) \<le> code \<and> code \<le> int (rend q)) \<longleftrightarrow>
        (\<exists>r \<in> set (map server_range qs). cr_start r \<le> code \<and> code \<le> cr_end r)" by auto
    also have "set (map server_range qs) = {r. \<exists>seg \<in> set ?segs. parseHTTPStatusCodeToken seg = Some r}"
      unfolding qs(2) [symmetric] by (force simp: List.map_filter_def image_iff)
    finally show ?thesis by auto
  qed
  ultimately show ?thesis using that [OF ranges m(1,2)] by simp
qed

text \<open>C32: the retry setting means what its text lists. A text that the server accepts makes it retry exactly on the
  codes that lie in one of the listed ranges, apart from the two time-outs that are never retried; a text that it
  refuses leaves the setting as it was. The text form of the accepted setting is read back as the same setting.\<close>

theorem retry_rules_exact:
  "case AutomaticRetryStatusCodesFromString s st of
     (Inl _, st') \<Rightarrow> st' = st
   | (Inr _, st') \<Rightarrow>
       (\<forall>code. ShouldRetryByStatusCode st' code \<longleftrightarrow> code \<notin> {504, 524} \<and>
          (\<exists>seg r. seg \<in> set (rule_segments (trim_by is_go_space s)) \<and> parseHTTPStatusCodeToken seg = Some r \<and>
             cr_start r \<le> code \<and> code \<le> cr_end r)) \<and>
       ParseHTTPStatusCodeRanges (statusCodeRangesToString (AutomaticRetryStatusCodeRanges st')) =
         Inr (AutomaticRetryStatusCodeRanges st') \<and>
       AutomaticDisableStatusCodeRanges st' = AutomaticDisableStatusCodeRanges st"
proof (cases "ParseHTTPStatusCodeRanges s")
  case (Inl e)
  then show ?thesis by (simp add: AutomaticRetryStatusCodesFromString_def)
next
  case (Inr ranges)
  then obtain rs where rs: "ranges = map server_range rs" "separated_ranges rs" "\<forall>r \<in> set rs. range_ok r"
    and meaning: "\<And>code. (\<exists>r \<in> set rs. int (rstart r) \<le> code \<and> code \<le> int (rend r)) \<longleftrightarrow>
       (\<exists>seg r. seg \<in> set (rule_segments (trim_by is_go_space s)) \<and> parseHTTPStatusCodeToken seg = Some r \<and> cr_start r \<le> code \<and> code \<le> cr_end r)"
    by (rule server_parse) blast
  have "statusCodeRangesToString ranges = join [COMMA] (map show_range rs)"
    unfolding statusCodeRangesToString_def rs(1) map_map
    by (intro arg_cong [where f = "join [COMMA]"] map_cong) (auto simp: show_code_def show_range_def show_int_def)
  moreover have "shouldMatchStatusCodeRanges ranges code \<longleftrightarrow> (\<exists>r \<in> set rs. int (rstart r) \<le> code \<and> code \<le> int (rend r))" for code
  proof -
    have "100 \<le> code \<and> code \<le> 599" if "r \<in> set rs" "int (rstart r) \<le> code" "code \<le> int (rend r)" for r
      using rs(3) that by (auto simp: range_ok_def)
    then show ?thesis using match_separated [OF rs(2,3)] rs(1) by (auto simp: shouldMatchStatusCodeRanges_def)
  qed
  ultimately show ?thesis using Inr server_reads [OF rs(2,3)] rs(1)
    by (simp add: AutomaticRetryStatusCodesFromString_def ShouldRetryByStatusCode_def IsAlwaysSkipRetryStatusCode_def meaning)
qed

end
