(* ===== verification/Relay_Retry.thy ===== *)
theory Relay_Retry
  imports Channel_Selection Server_Status_Rules
begin

text \<open>
  The retries of a relayed request: \<^verbatim>\<open>CacheGetRandomSatisfiedChannel\<close> of \<^verbatim>\<open>service/channel_select.go\<close>, and the
  decision \<^verbatim>\<open>shouldRetry\<close> and the loop of \<^verbatim>\<open>Relay\<close> in \<^verbatim>\<open>controller/relay.go\<close>. What an attempt does (the
  handler of the request, the preparation of the chosen channel, the body of the request) is an argument, as are the
  cache at the time of each attempt and the random numbers; other requests and the disabling of channels may change
  the cache between attempts.
\<close>

section \<open>Errors and the decision to retry\<close>

record api_failure =
  af_code :: string
  af_status :: int
  af_skip_retry :: bool

definition IsChannelError :: "api_failure \<Rightarrow> bool" where
  "IsChannelError e \<longleftrightarrow> starts_with ''channel:'' (af_code e)"

definition IsSkipRetryError :: "api_failure \<Rightarrow> bool" where
  "IsSkipRetryError e \<longleftrightarrow> af_skip_retry e"

definition shouldRetry :: "status_settings \<Rightarrow> bool \<Rightarrow> bool \<Rightarrow> api_failure option \<Rightarrow> int \<Rightarrow> bool" where
  "shouldRetry settings affinitySkip specificChannel failure retryTimes =
     (case failure of
        None \<Rightarrow> False
      | Some e \<Rightarrow>
          if affinitySkip then False
          else if IsChannelError e then True
          else if IsSkipRetryError e then False
          else if retryTimes \<le> 0 then False
          else if specificChannel then False
          else if af_status e \<ge> 200 \<and> af_status e < 300 then False
          else if af_status e < 100 \<or> af_status e > 599 then True
          else if IsAlwaysSkipRetryCode (af_code e) then False
          else ShouldRetryByStatusCode settings (af_status e))"

section \<open>The choice of a channel for an attempt\<close>

text \<open>The retry counter, and the group that the context of the request remembers.\<close>

record retry_state =
  rs_retry :: nat
  rs_reset :: bool
  rs_group_index :: "nat option"
  rs_auto_group :: "string option"

record retry_config =
  rc_token_group :: string
  rc_model :: string
  rc_auto_enabled :: bool
  rc_auto_groups :: "string list"
  rc_cross_group :: bool
  rc_retry_times :: nat

definition IncreaseRetry :: "retry_state \<Rightarrow> retry_state" where
  "IncreaseRetry st = (if rs_reset st then st\<lparr>rs_reset := False\<rparr> else st\<lparr>rs_retry := Suc (rs_retry st)\<rparr>)"

fun auto_search :: "retry_config \<Rightarrow> (string \<Rightarrow> nat \<Rightarrow> string + channel option) \<Rightarrow> nat \<Rightarrow> nat \<Rightarrow> string list \<Rightarrow> retry_state \<Rightarrow>
    channel option \<times> string \<times> retry_state" where
  "auto_search cfg get startIndex i [] st = (None, rc_token_group cfg, st)"
| "auto_search cfg get startIndex i (autoGroup # groups) st =
     (let priorityRetry = (if i > startIndex then 0 else rs_retry st)
      in case get autoGroup priorityRetry of
           Inr (Some c) \<Rightarrow>
             (Some c, autoGroup,
              if rc_cross_group cfg \<and> priorityRetry \<ge> rc_retry_times cfg
              then st\<lparr>rs_auto_group := Some autoGroup, rs_group_index := Some (Suc i), rs_retry := 0, rs_reset := True\<rparr>
              else st\<lparr>rs_auto_group := Some autoGroup, rs_group_index := Some i\<rparr>)
         | _ \<Rightarrow> auto_search cfg get startIndex (Suc i) groups (st\<lparr>rs_group_index := Some (Suc i), rs_retry := 0\<rparr>))"

definition start_index :: "retry_state \<Rightarrow> nat" where
  "start_index st = (case rs_group_index st of None \<Rightarrow> 0 | Some i \<Rightarrow> i)"

definition CacheGetRandomSatisfiedChannel :: "retry_config \<Rightarrow> (string \<Rightarrow> nat \<Rightarrow> string + channel option) \<Rightarrow> retry_state \<Rightarrow>
    (string + channel option) \<times> string \<times> retry_state" where
  "CacheGetRandomSatisfiedChannel cfg get st =
     (if rc_token_group cfg = ''auto''
      then if \<not> rc_auto_enabled cfg then (Inl ''auto groups is not enabled'', rc_token_group cfg, st)
           else (let (c, g, st') = auto_search cfg get (start_index st) (start_index st) (drop (start_index st) (rc_auto_groups cfg)) st
                 in (Inr c, g, st'))
      else (get (rc_token_group cfg) (rs_retry st), rc_token_group cfg, st))"

section \<open>The loop\<close>

text \<open>What the loop meets, by the number of the attempt. The first attempt goes to the channel that the distributor
  has put into the context: \<^verbatim>\<open>ChannelMeta\<close> is unset until then, and every handler sets it when it starts.\<close>

record relay_world =
  w_first :: channel
  w_cache :: "nat \<Rightarrow> channel_cache"
  w_rand :: "nat \<Rightarrow> int \<Rightarrow> int"
  w_setup :: "nat \<Rightarrow> channel \<Rightarrow> api_failure option"
  w_body :: "nat \<Rightarrow> api_failure option"
  w_send :: "nat \<Rightarrow> channel \<Rightarrow> api_failure option"
  w_affinity_skip :: "nat \<Rightarrow> bool"
  w_specific_channel :: bool
  w_settings :: status_settings

definition get_channel_failed :: api_failure where
  "get_channel_failed = \<lparr>af_code = ''get_channel_failed'', af_status = 500, af_skip_retry = True\<rparr>"

definition getChannel :: "retry_config \<Rightarrow> relay_world \<Rightarrow> nat \<Rightarrow> retry_state \<Rightarrow> (api_failure + channel) \<times> retry_state" where
  "getChannel cfg w n st =
     (if n = 0 then (Inr (w_first w), st)
      else case CacheGetRandomSatisfiedChannel cfg
               (\<lambda>g retry. GetRandomSatisfiedChannel (w_cache w n) (w_rand w n) g (rc_model cfg) retry) st of
             (Inr (Some c), _, st') \<Rightarrow> (case w_setup w n c of Some e \<Rightarrow> (Inl e, st') | None \<Rightarrow> (Inr c, st'))
           | (_, _, st') \<Rightarrow> (Inl get_channel_failed, st'))"

text \<open>What is left of the retries, which every round of the loop lowers.\<close>

definition groups_left :: "retry_config \<Rightarrow> retry_state \<Rightarrow> nat" where
  "groups_left cfg st = (if rc_token_group cfg = ''auto'' then length (rc_auto_groups cfg) - start_index st else 0)"

definition budget :: "retry_config \<Rightarrow> retry_state \<Rightarrow> nat" where
  "budget cfg st = groups_left cfg st * Suc (rc_retry_times cfg) + (Suc (rc_retry_times cfg) - rs_retry st)"

lemma auto_search_progress:
  assumes "auto_search cfg get startIndex i groups st = (Some c, g, st')" "startIndex \<le> i"
    and "i > startIndex \<longrightarrow> rs_retry st = 0"
  obtains k where "i \<le> k" "k < i + length groups"
    "rs_group_index st' = Some k \<and> rs_reset st' = rs_reset st \<and> rs_retry st' = (if k = i then rs_retry st else 0) \<or>
     rs_group_index st' = Some (Suc k) \<and> rs_reset st' \<and> rs_retry st' = 0"
  using assms
proof (induction groups arbitrary: i st thesis)
  case (Cons h groups)
  let ?pr = "if i > startIndex then 0 else rs_retry st"
  show ?case
  proof (cases "\<exists>d. get h ?pr = Inr (Some d)")
    case True
    then obtain d where "get h ?pr = Inr (Some d)" by blast
    with Cons.prems(2) show ?thesis by (intro Cons.prems(1) [of i]) (auto simp: Let_def split: if_splits)
  next
    case False
    then have "auto_search cfg get startIndex (Suc i) groups (st\<lparr>rs_group_index := Some (Suc i), rs_retry := 0\<rparr>) = (Some c, g, st')"
      using Cons.prems(2) by (auto simp: Let_def split: sum.splits option.splits)
    then obtain k where k: "Suc i \<le> k" "k < Suc i + length groups"
      "rs_group_index st' = Some k \<and> rs_reset st' = rs_reset st \<and> rs_retry st' = 0 \<or>
       rs_group_index st' = Some (Suc k) \<and> rs_reset st' \<and> rs_retry st' = 0"
      by (rule Cons.IH [rotated]) (use Cons.prems(3) in auto)
    then show ?thesis by (intro Cons.prems(1) [of k]) auto
  qed
qed simp

lemma getChannel_budget:
  assumes "getChannel cfg w n st = (Inr c, st')" "rs_retry st \<le> rc_retry_times cfg"
  shows "2 * budget cfg (IncreaseRetry st') + of_bool (rs_reset (IncreaseRetry st')) < 2 * budget cfg st + of_bool (rs_reset st)"
    and "budget cfg (IncreaseRetry st') + 1 \<le> budget cfg st + of_bool (rs_reset st)"
    and "\<not> rs_reset (IncreaseRetry st')"
proof -
  show reset: "\<not> rs_reset (IncreaseRetry st')" by (simp add: IncreaseRetry_def)
  show le: "budget cfg (IncreaseRetry st') + 1 \<le> budget cfg st + of_bool (rs_reset st)"
  proof (cases "st' = st")
    case True
    with assms(2) show ?thesis by (auto simp: IncreaseRetry_def budget_def groups_left_def start_index_def)
  next
    case False
    let ?get = "\<lambda>g retry. GetRandomSatisfiedChannel (w_cache w n) (w_rand w n) g (rc_model cfg) retry"
    from False assms(1) have n: "n \<noteq> 0" by (auto simp: getChannel_def split: if_splits)
    with assms(1) False obtain g where auto: "rc_token_group cfg = ''auto''"
      and search: "auto_search cfg ?get (start_index st) (start_index st) (drop (start_index st) (rc_auto_groups cfg)) st = (Some c, g, st')"
      by (auto simp: getChannel_def CacheGetRandomSatisfiedChannel_def split: if_splits prod.splits sum.splits option.splits)
    from auto_search_progress [OF search] obtain k where k: "start_index st \<le> k" "k < start_index st + length (drop (start_index st) (rc_auto_groups cfg))"
      "rs_group_index st' = Some k \<and> rs_reset st' = rs_reset st \<and> rs_retry st' = (if k = start_index st then rs_retry st else 0) \<or>
       rs_group_index st' = Some (Suc k) \<and> rs_reset st' \<and> rs_retry st' = 0" by auto
    let ?L = "length (rc_auto_groups cfg)" and ?R = "Suc (rc_retry_times cfg)" and ?s = "start_index st"
    from k(1,2) have kL: "?s \<le> k" "k < ?L" by auto
    have old: "budget cfg st = (?L - ?s) * ?R + (?R - rs_retry st)" using auto by (simp add: budget_def groups_left_def)
    show ?thesis
    proof (cases "rs_group_index st' = Some ?s")
      case True
      with k kL have "rs_reset st' = rs_reset st" "rs_retry st' = rs_retry st" by auto
      with True assms(2) auto show ?thesis
        by (auto simp: old budget_def groups_left_def start_index_def IncreaseRetry_def)
    next
      case False
      with k(3) kL obtain m where m: "rs_group_index st' = Some m" "?s < m" "rs_retry st' = 0" by (auto split: if_splits)
      have "groups_left cfg (IncreaseRetry st') = ?L - m"
        using m auto by (simp add: groups_left_def start_index_def IncreaseRetry_def)
      moreover have "Suc (?L - m) * ?R \<le> (?L - ?s) * ?R" using m(2) kL by (intro mult_le_mono1) linarith
      moreover have "budget cfg st1 \<le> Suc (groups_left cfg st1) * ?R" for st1
        unfolding budget_def by simp
      ultimately have "budget cfg (IncreaseRetry st') \<le> (?L - ?s) * ?R" by (metis le_trans)
      with old assms(2) show ?thesis by simp
    qed
  qed
  show "2 * budget cfg (IncreaseRetry st') + of_bool (rs_reset (IncreaseRetry st')) < 2 * budget cfg st + of_bool (rs_reset st)"
    using le reset by (cases "rs_reset st") auto
qed


function relay_loop :: "retry_config \<Rightarrow> relay_world \<Rightarrow> nat \<Rightarrow> retry_state \<Rightarrow> api_failure option \<Rightarrow> channel list \<times> api_failure option" where
  "relay_loop cfg w n st failure =
     (if rs_retry st > rc_retry_times cfg then ([], failure)
      else case getChannel cfg w n st of
             (Inl e, _) \<Rightarrow> ([], Some e)
           | (Inr c, st') \<Rightarrow>
               (case w_body w n of
                  Some e \<Rightarrow> ([c], Some e)
                | None \<Rightarrow>
                    (case w_send w n c of
                       None \<Rightarrow> ([c], None)
                     | Some e \<Rightarrow>
                         if shouldRetry (w_settings w) (w_affinity_skip w n) (w_specific_channel w) (Some e)
                              (int (rc_retry_times cfg) - int (rs_retry st'))
                         then (let (cs, r) = relay_loop cfg w (Suc n) (IncreaseRetry st') (Some e) in (c # cs, r))
                         else ([c], Some e))))"
  by pat_completeness auto
termination
  by (relation "measure (\<lambda>(cfg, w, n, st, failure). 2 * budget cfg st + of_bool (rs_reset st))")
    (auto simp: not_less dest!: getChannel_budget(1) [OF sym])

declare relay_loop.simps [simp del]

text \<open>The loop starts without retries and with the group in which the distributor has found the first channel.\<close>

definition fresh_retry :: "nat option \<Rightarrow> retry_state" where
  "fresh_retry groupIndex = \<lparr>rs_retry = 0, rs_reset = False, rs_group_index = groupIndex, rs_auto_group = None\<rparr>"

definition Relay :: "retry_config \<Rightarrow> relay_world \<Rightarrow> nat option \<Rightarrow> channel list \<times> api_failure option" where
  "Relay cfg w groupIndex = relay_loop cfg w 0 (fresh_retry groupIndex) None"

section \<open>Properties\<close>

definition loop_ok :: "retry_config \<Rightarrow> relay_world \<Rightarrow> nat \<Rightarrow> retry_state \<Rightarrow> api_failure option \<Rightarrow> channel list \<Rightarrow> api_failure option \<Rightarrow> bool" where
  "loop_ok cfg w n st failure cs r \<longleftrightarrow>
     length cs \<le> budget cfg st + of_bool (rs_reset st) \<and>
     (\<forall>k. Suc k < length cs \<longrightarrow> w_body w (n + k) = None \<and> w_send w (n + k) (cs ! k) \<noteq> None) \<and>
     (r = None \<longleftrightarrow> cs \<noteq> [] \<and> w_body w (n + length cs - 1) = None \<and> w_send w (n + length cs - 1) (last cs) = None \<or>
        cs = [] \<and> failure = None \<and> rs_retry st > rc_retry_times cfg)"

lemma loop_ok_step:
  assumes "loop_ok cfg w (Suc n) st' (Some e) cs r" "w_body w n = None" "w_send w n c = Some e"
    and "budget cfg st' + 1 \<le> budget cfg st + of_bool (rs_reset st)" "\<not> rs_reset st'"
  shows "loop_ok cfg w n st failure (c # cs) r"
proof -
  have "w_body w (n + k) = None \<and> w_send w (n + k) ((c # cs) ! k) \<noteq> None" if "Suc k < length (c # cs)" for k
    using assms(1-3) that by (cases k) (auto simp: loop_ok_def)
  then show ?thesis using assms by (cases "cs = []") (auto simp: loop_ok_def)
qed

lemma relay_loop_ok: "relay_loop cfg w n st failure = (cs, r) \<Longrightarrow> loop_ok cfg w n st failure cs r"
proof (induction cfg w n st failure arbitrary: cs r rule: relay_loop.induct)
  case (1 cfg w n st failure)
  note run = 1(2) [unfolded relay_loop.simps [of cfg w n st]]
  show ?case
  proof (cases "rs_retry st > rc_retry_times cfg")
    case True
    with run show ?thesis by (auto simp: loop_ok_def)
  next
    case False
    then have pos: "0 < budget cfg st" by (simp add: budget_def)
    obtain x st' where g: "getChannel cfg w n st = (x, st')" by fastforce
    show ?thesis
    proof (cases x)
      case (Inl e)
      with run g False show ?thesis by (auto simp: loop_ok_def)
    next
      case (Inr c)
      note less = getChannel_budget(2,3) [OF g [unfolded Inr]]
      show ?thesis
      proof (cases "w_body w n = None \<and> (\<exists>e. w_send w n c = Some e \<and> shouldRetry (w_settings w) (w_affinity_skip w n)
          (w_specific_channel w) (Some e) (int (rc_retry_times cfg) - int (rs_retry st')))")
        case True
        then obtain e where e: "w_body w n = None" "w_send w n c = Some e" "shouldRetry (w_settings w) (w_affinity_skip w n)
          (w_specific_channel w) (Some e) (int (rc_retry_times cfg) - int (rs_retry st'))" by blast
        obtain cs' r' where rec: "relay_loop cfg w (Suc n) (IncreaseRetry st') (Some e) = (cs', r')" by fastforce
        with run g Inr e False have res: "cs = c # cs'" "r = r'" by auto
        have "loop_ok cfg w (Suc n) (IncreaseRetry st') (Some e) cs' r'"
          using 1(1) [OF False g [symmetric] Inr e(1,2,3) rec] .
        with e less False show ?thesis unfolding res by (intro loop_ok_step) auto
      next
        case no: False
        with run g Inr False have "cs = [c]" "r = (case w_body w n of Some e \<Rightarrow> Some e | None \<Rightarrow> w_send w n c)"
          by (auto split: option.splits if_splits)
        with pos show ?thesis by (auto simp: loop_ok_def split: option.splits)
      qed
    qed
  qed
qed

text \<open>C4: every request comes to an end, with the right result. Whatever the channels answer and however the cache
  changes meanwhile, the loop returns. With a plain group it makes at most one attempt more than the configured
  retries, with automatic groups at most that many for each group and once more. Every attempt but the last has
  failed, and the request succeeds exactly when the last attempt did.\<close>

theorem relay_ends:
  "let (cs, r) = Relay cfg w groupIndex;
       groups = (if rc_token_group cfg = ''auto'' then length (rc_auto_groups cfg) else 0)
   in cs \<noteq> [] \<and> length cs \<le> (groups + 1) * (rc_retry_times cfg + 1) \<and>
      (\<forall>k. Suc k < length cs \<longrightarrow> w_body w k = None \<and> w_send w k (cs ! k) \<noteq> None) \<and>
      (r = None \<longleftrightarrow> w_body w (length cs - 1) = None \<and> w_send w (length cs - 1) (last cs) = None)"
proof -
  obtain cs r where run: "Relay cfg w groupIndex = (cs, r)" by fastforce
  then have loop: "relay_loop cfg w 0 (fresh_retry groupIndex) None = (cs, r)" by (simp add: Relay_def)
  note ok = relay_loop_ok [OF loop, unfolded loop_ok_def]
  have "cs \<noteq> []"
    using loop by (auto simp: relay_loop.simps [of cfg w 0] getChannel_def fresh_retry_def split: option.splits if_splits prod.splits)
  moreover have "budget cfg (fresh_retry groupIndex) \<le>
      ((if rc_token_group cfg = ''auto'' then length (rc_auto_groups cfg) else 0) + 1) * (rc_retry_times cfg + 1)"
  proof -
    have "groups_left cfg (fresh_retry groupIndex) \<le> (if rc_token_group cfg = ''auto'' then length (rc_auto_groups cfg) else 0)"
      by (simp add: groups_left_def)
    from mult_le_mono1 [OF this, of "rc_retry_times cfg + 1"] show ?thesis by (simp add: budget_def fresh_retry_def)
  qed
  ultimately show ?thesis using ok by (auto simp: run fresh_retry_def)
qed


text \<open>Two groups with two priorities each, three retries, and channels that always fail.\<close>

definition two_groups :: channel_cache where
  "two_groups = the (InitChannelCache
     [(sample_channel 1 5 1)\<lparr>chan_group := ''a''\<rparr>, (sample_channel 2 0 1)\<lparr>chan_group := ''a''\<rparr>,
      (sample_channel 3 5 1)\<lparr>chan_group := ''b''\<rparr>, (sample_channel 4 0 1)\<lparr>chan_group := ''b''\<rparr>] [''a'', ''b''])"

definition auto_config :: retry_config where
  "auto_config = \<lparr>rc_token_group = ''auto'', rc_model = ''gpt'', rc_auto_enabled = True, rc_auto_groups = [''a'', ''b''],
     rc_cross_group = True, rc_retry_times = 3\<rparr>"

definition failing_world :: relay_world where
  "failing_world =
     \<lparr>w_first = (sample_channel 1 5 1)\<lparr>chan_group := ''a''\<rparr>, w_cache = (\<lambda>_. two_groups), w_rand = (\<lambda>_ _. 0),
      w_setup = (\<lambda>_ _. None), w_body = (\<lambda>_. None),
      w_send = (\<lambda>_ _. Some \<lparr>af_code = ''bad_response_status_code'', af_status = 500, af_skip_retry = False\<rparr>),
      w_affinity_skip = (\<lambda>_. False), w_specific_channel = False, w_settings = default_settings\<rparr>"

theorem relay_ends_witness:
  "map chan_id (fst (Relay auto_config failing_world (Some 0))) = [1, 2, 2, 2, 3, 4, 4, 4] \<and>
   length (fst (Relay auto_config failing_world (Some 0))) \<le> 3 * 4 \<and> snd (Relay auto_config failing_world (Some 0)) \<noteq> None"
proof -
  have "map chan_id (fst (Relay auto_config failing_world (Some 0))) = [1, 2, 2, 2, 3, 4, 4, 4]" by code_simp
  moreover obtain cs r where run: "Relay auto_config failing_world (Some 0) = (cs, r)" by fastforce
  have "w_send failing_world n c \<noteq> None" for n c by (simp add: failing_world_def)
  moreover have "rc_token_group auto_config = ''auto''" "length (rc_auto_groups auto_config) = 2" "rc_retry_times auto_config = 3"
    by (simp_all add: auto_config_def)
  ultimately show ?thesis using relay_ends [of auto_config failing_world "Some 0"] by (auto simp: run)
qed

text \<open>groups are not left when their priorities are used up. The comment on the choice of a channel says that a
  request goes to the next automatic group after one attempt for each priority of a group. Once the priorities are
  used up the lowest is tried again instead, until the retries are, and only then the next group follows.\<close>

theorem group_kept_after_priorities:
  "map chan_id (fst (Relay auto_config failing_world (Some 0))) = [1, 2, 2, 2, 3, 4, 4, 4] \<and>
   GetRandomSatisfiedChannel two_groups (\<lambda>_. 0) ''a'' ''gpt'' 2 = GetRandomSatisfiedChannel two_groups (\<lambda>_. 0) ''a'' ''gpt'' 1"
  by code_simp

end
