(* ===== verification/Rate_Limiter.thy ===== *)
theory Rate_Limiter
  imports Js_Prelude
begin

text \<open>
  Model of \<^verbatim>\<open>common/rate-limit.go\<close>: the limiter that keeps the times of the last accepted requests of each key in
  memory, with the task that forgets idle keys. The mutex makes each of its methods one step. Times are seconds and
  an argument of each step.
\<close>

section \<open>The limiter\<close>

type_synonym limiter = "string \<Rightarrow> int list option"

definition Request :: "string \<Rightarrow> nat \<Rightarrow> int \<Rightarrow> int \<Rightarrow> limiter \<Rightarrow> bool \<times> limiter" where
  "Request key maxRequestNum duration now store =
     (case store key of
        Some queue \<Rightarrow>
          if length queue < maxRequestNum then (True, store(key := Some (queue @ [now])))
          else if now - queue ! 0 \<ge> duration then (True, store(key := Some (tl queue @ [now])))
          else (False, store)
      | None \<Rightarrow> (True, store(key := Some [now])))"

definition clearExpiredItems :: "int \<Rightarrow> int \<Rightarrow> limiter \<Rightarrow> limiter" where
  "clearExpiredItems expiration now store =
     (\<lambda>key. case store key of
        None \<Rightarrow> None
      | Some queue \<Rightarrow> if queue = [] \<or> now - last queue > expiration then None else Some queue)"

text \<open>The limit on the requests of a user to models: all requests against one key and, to limit the successful ones,
  against a second key before the request; a third key counts the successful requests afterwards. The flag says
  whether the request succeeded.\<close>

definition memoryRateLimitHandler :: "int \<Rightarrow> nat \<Rightarrow> nat \<Rightarrow> string \<Rightarrow> int \<Rightarrow> bool \<Rightarrow> limiter \<Rightarrow> bool \<times> limiter" where
  "memoryRateLimitHandler duration totalMaxCount successMaxCount userId now succeeds store =
     (let totalKey = ''MRRL'' @ userId; successKey = ''MRRLS'' @ userId; checkKey = successKey @ ''_check'';
          (ok, store1) = (if totalMaxCount > 0 then Request totalKey totalMaxCount duration now store else (True, store))
      in if \<not> ok then (False, store1)
         else let (ok', store2) = Request checkKey successMaxCount duration now store1
              in if \<not> ok' then (False, store2)
                 else (True, if succeeds then snd (Request successKey successMaxCount duration now store2) else store2))"

text \<open>A history of the limiter: requests of a key and rounds of the clearing task, each with its time. The result is
  the limiter and the times of the accepted requests of one key.\<close>

datatype limiter_event = Ask int string | Clear int

fun event_time :: "limiter_event \<Rightarrow> int" where
  "event_time (Ask now _) = now"
| "event_time (Clear now) = now"

fun limiter_step :: "string \<Rightarrow> nat \<Rightarrow> int \<Rightarrow> int \<Rightarrow> limiter_event \<Rightarrow> limiter \<times> int list \<Rightarrow> limiter \<times> int list" where
  "limiter_step key m duration expiration (Ask now k) (store, accepted) =
     (let (ok, store') = Request k m duration now store
      in (store', if ok \<and> k = key then accepted @ [now] else accepted))"
| "limiter_step key m duration expiration (Clear now) (store, accepted) = (clearExpiredItems expiration now store, accepted)"

definition limiter_run :: "string \<Rightarrow> nat \<Rightarrow> int \<Rightarrow> int \<Rightarrow> limiter_event list \<Rightarrow> limiter \<times> int list" where
  "limiter_run key m duration expiration events =
     fold (limiter_step key m duration expiration) events (\<lambda>_. None, [])"

section \<open>The limit holds in every window\<close>

text \<open>The accepted times are the queue of the key after those that were dropped; dropped times are too old to matter
  or the queue is full, and between a request and the one that comes as many places later lies the whole duration.\<close>

definition spaced :: "nat \<Rightarrow> int \<Rightarrow> int list \<Rightarrow> bool" where
  "spaced m d ts \<longleftrightarrow> (\<forall>i. i + m < length ts \<longrightarrow> ts ! i + d \<le> ts ! (i + m))"

definition queue_of :: "string \<Rightarrow> limiter \<Rightarrow> int list" where
  "queue_of key store = (case store key of None \<Rightarrow> [] | Some q \<Rightarrow> q)"

definition limiter_ok :: "string \<Rightarrow> nat \<Rightarrow> int \<Rightarrow> int \<Rightarrow> limiter \<times> int list \<Rightarrow> bool" where
  "limiter_ok key m d c s \<longleftrightarrow> (case s of (store, accepted) \<Rightarrow>
     \<exists>old. accepted = old @ queue_of key store \<and> length (queue_of key store) \<le> m \<and> store key \<noteq> Some [] \<and>
       (length (queue_of key store) < m \<longrightarrow> (\<forall>x \<in> set old. x + d \<le> c)) \<and>
       sorted accepted \<and> (\<forall>x \<in> set accepted. x \<le> c) \<and> spaced m d accepted)"

lemma spaced_snoc:
  assumes "spaced m d ts" "m \<le> length ts \<Longrightarrow> ts ! (length ts - m) + d \<le> t" "0 < m"
  shows "spaced m d (ts @ [t])"
  unfolding spaced_def
proof (intro allI impI)
  fix i assume i: "i + m < length (ts @ [t])"
  show "(ts @ [t]) ! i + d \<le> (ts @ [t]) ! (i + m)"
  proof (cases "i + m < length ts")
    case True
    with assms(1) show ?thesis by (auto simp: spaced_def nth_append)
  next
    case False
    with i have "i + m = length ts" by simp
    then have "i = length ts - m" "m \<le> length ts" "i < length ts" using assms(3) by auto
    with assms(2) \<open>i + m = length ts\<close> show ?thesis by (simp add: nth_append)
  qed
qed

lemma limiter_ok_later: "limiter_ok key m d c s \<Longrightarrow> c \<le> c' \<Longrightarrow> limiter_ok key m d c' s"
  unfolding limiter_ok_def by (force split: prod.splits)

lemma accept_ok:
  assumes "limiter_ok key m d now (store, accepted)" "0 < m" "Request key m d now store = (ok, store')"
  shows "limiter_ok key m d now (store', if ok then accepted @ [now] else accepted)"
proof -
  let ?q = "queue_of key store"
  from assms(1) obtain old where old: "accepted = old @ ?q" "length ?q \<le> m" "store key \<noteq> Some []"
    "length ?q < m \<Longrightarrow> \<forall>x \<in> set old. x + d \<le> now" "sorted accepted" "\<forall>x \<in> set accepted. x \<le> now" "spaced m d accepted"
    by (auto simp: limiter_ok_def)
  consider (room) "length ?q < m" | (pass) "length ?q = m" "now - ?q ! 0 \<ge> d" | (full) "length ?q = m" "now - ?q ! 0 < d"
    using old(2) by linarith
  then show ?thesis
  proof cases
    case room
    then have res: "ok" "store' = store(key := Some (?q @ [now]))"
      using assms(2,3) by (auto simp: Request_def queue_of_def split: option.splits if_splits)
    have "spaced m d (accepted @ [now])"
    proof (rule spaced_snoc [OF old(7) _ assms(2)])
      assume "m \<le> length accepted"
      with room old(1) have "accepted ! (length accepted - m) \<in> set old" by (auto simp: nth_append)
      with old(4) room show "accepted ! (length accepted - m) + d \<le> now" by blast
    qed
    with res room old show ?thesis
      by (auto simp: limiter_ok_def queue_of_def sorted_append intro!: exI [of _ old])
  next
    case pass
    then have "?q \<noteq> []" using assms(2) by auto
    then obtain h q where q: "?q = h # q" by (cases ?q) auto
    with pass have res: "ok" "store' = store(key := Some (q @ [now]))"
      using assms(2,3) by (auto simp: Request_def queue_of_def split: option.splits if_splits)
    have "spaced m d (accepted @ [now])"
      by (rule spaced_snoc [OF old(7) _ assms(2)]) (use pass q old(1) in \<open>auto simp: nth_append\<close>)
    with res pass q old show ?thesis
      by (auto simp: limiter_ok_def queue_of_def sorted_append intro!: exI [of _ "old @ [h]"])
  next
    case full
    then have "\<not> ok" "store' = store"
      using assms(2,3) by (auto simp: Request_def queue_of_def split: option.splits if_splits)
    with assms(1) show ?thesis by simp
  qed
qed


lemma other_key_ok:
  assumes "limiter_ok key m d c (store, accepted)" "store' key = store key"
  shows "limiter_ok key m d c (store', accepted)"
  using assms by (simp add: limiter_ok_def queue_of_def)

lemma sorted_last: "sorted xs \<Longrightarrow> x \<in> set xs \<Longrightarrow> x \<le> last xs"
  by (induction xs) auto

lemma clear_ok:
  assumes "limiter_ok key m d now (store, accepted)" "d \<le> expiration"
  shows "limiter_ok key m d now (clearExpiredItems expiration now store, accepted)"
proof (cases "clearExpiredItems expiration now store key = store key")
  case True
  with assms(1) show ?thesis by (rule other_key_ok)
next
  case False
  then have gone: "clearExpiredItems expiration now store key = None" "queue_of key store \<noteq> []"
      "now - last (queue_of key store) > expiration"
    using assms(1) by (auto simp: clearExpiredItems_def queue_of_def limiter_ok_def split: option.splits if_splits)
  from assms(1) obtain old where old: "accepted = old @ queue_of key store" "sorted accepted" "\<forall>x \<in> set accepted. x \<le> now" "spaced m d accepted"
    by (auto simp: limiter_ok_def)
  have "last accepted = last (queue_of key store)" "accepted \<noteq> []" using old(1) gone(2) by auto
  then have "x \<le> last (queue_of key store)" if "x \<in> set accepted" for x
    using sorted_last [OF old(2) that] by simp
  then have "\<forall>x \<in> set accepted. x + d \<le> now" using gone(3) assms(2) by fastforce
  with old gone(1) show ?thesis by (auto simp: limiter_ok_def queue_of_def)
qed

lemma limiter_step_ok:
  assumes "limiter_ok key m d c s" "c \<le> event_time e" "0 < m" "d \<le> expiration"
  shows "limiter_ok key m d (event_time e) (limiter_step key m d expiration e s)"
proof -
  obtain store accepted where s: "s = (store, accepted)" by fastforce
  have ok: "limiter_ok key m d (event_time e) (store, accepted)" using limiter_ok_later [OF assms(1,2)] s by simp
  show ?thesis
  proof (cases e)
    case (Ask now k)
    obtain r store' where r: "Request k m d now store = (r, store')" by fastforce
    show ?thesis
    proof (cases "k = key")
      case True
      with accept_ok [of key m d now store accepted r store'] ok r Ask s assms(3) show ?thesis by simp
    next
      case False
      with r have "store' key = store key" by (auto simp: Request_def split: option.splits if_splits)
      with ok r Ask s False show ?thesis by (simp add: other_key_ok)
    qed
  next
    case (Clear now)
    with clear_ok [OF _ assms(4)] ok s show ?thesis by simp
  qed
qed

lemma limiter_run_ok:
  assumes "sorted (map event_time events)" "0 < m" "d \<le> expiration"
  shows "\<exists>c. limiter_ok key m d c (limiter_run key m d expiration events)"
proof -
  have "\<exists>c'. limiter_ok key m d c' (fold (limiter_step key m d expiration) es s)"
    if "sorted (map event_time es)" "limiter_ok key m d c s" "\<forall>e \<in> set es. c \<le> event_time e" for es s c
    using that
  proof (induction es arbitrary: s c)
    case (Cons e es)
    have "limiter_ok key m d (event_time e) (limiter_step key m d expiration e s)"
      using limiter_step_ok [OF Cons.prems(2) _ assms(2,3)] Cons.prems(3) by simp
    with Cons show ?case by fastforce
  qed auto
  moreover have "limiter_ok key m d (if events = [] then 0 else event_time (hd events)) (\<lambda>_. None, [])"
    by (simp add: limiter_ok_def queue_of_def spaced_def)
  moreover have "\<forall>e \<in> set events. (if events = [] then 0 else event_time (hd events)) \<le> event_time e"
    using assms(1) by (cases events) auto
  ultimately show ?thesis using assms(1) unfolding limiter_run_def by blast
qed

lemma spaced_window:
  assumes "sorted ts" "spaced m d ts" "0 < m"
  shows "length (filter (\<lambda>x. t \<le> x \<and> x < t + d) ts) \<le> m"
proof (rule ccontr)
  let ?I = "{i. i < length ts \<and> t \<le> ts ! i \<and> ts ! i < t + d}"
  assume "\<not> ?thesis"
  then have "m < card ?I" by (simp add: length_filter_conv_card)
  moreover have fin: "finite ?I" by simp
  ultimately have ne: "?I \<noteq> {}" by (metis card.empty not_less0)
  let ?a = "Min ?I"
  have a: "?a \<in> ?I" using Min_in [OF fin ne] .
  have "?I \<subseteq> {?a..Max ?I}" using fin by auto
  then have "card ?I \<le> Max ?I + 1 - ?a" using card_mono [of "{?a..Max ?I}" ?I] by simp
  with \<open>m < card ?I\<close> have "?a + m \<le> Max ?I" by linarith
  moreover have b: "Max ?I \<in> ?I" using Max_in [OF fin ne] .
  ultimately have "ts ! (?a + m) \<le> ts ! Max ?I" using assms(1) by (intro sorted_nth_mono) auto
  moreover have "ts ! ?a + d \<le> ts ! (?a + m)"
    using assms(2) \<open>?a + m \<le> Max ?I\<close> b unfolding spaced_def by auto
  ultimately show False using a b by auto
qed



text \<open>forgetting idle keys too early evades the limit. When idle keys are kept for a shorter time than the duration,
  a request that must wait passes after the key was forgotten.\<close>

theorem short_expiration_evades:
  assumes "0 \<le> expiration" "expiration + 1 < d"
  shows "snd (limiter_run key 1 d expiration [Ask 0 key, Clear (expiration + 1), Ask (expiration + 1) key]) = [0, expiration + 1] \<and>
    length (filter (\<lambda>x. 0 \<le> x \<and> x < 0 + d) [0, expiration + 1]) = 2"
  using assms by (simp add: limiter_run_def Request_def clearExpiredItems_def)

theorem short_expiration_evades_witness:
  "snd (limiter_run ''u'' 1 3600 1200 [Ask 0 ''u'', Clear 1201, Ask 1201 ''u'']) = [0, 1201]"
  using short_expiration_evades [of 1200 3600 "''u''"] by simp


section \<open>The limit on successful requests\<close>

definition failed_requests :: "int \<Rightarrow> nat \<Rightarrow> string \<Rightarrow> int \<Rightarrow> nat \<Rightarrow> limiter" where
  "failed_requests d m userId now k = ((\<lambda>store. snd (memoryRateLimitHandler d 0 m userId now False store)) ^^ k) (\<lambda>_. None)"

lemma failed_queue:
  "0 < m \<Longrightarrow> k \<le> m \<Longrightarrow> failed_requests d m userId now k (''MRRLS'' @ userId @ ''_check'') =
     (if k = 0 then None else Some (replicate k now))"
proof (induction k)
  case (Suc k)
  then show ?case
    by (cases k) (auto simp: failed_requests_def memoryRateLimitHandler_def Request_def Let_def replicate_append_same
        split: prod.splits)
qed (simp add: failed_requests_def)

text \<open>C39: failed requests use up the limit on successful ones. The key that is asked before a request counts every
  request, though the comment says that asking it records nothing. After as many failed requests as successful ones
  are allowed, the next request is refused until the duration has passed.\<close>

theorem failures_use_success_limit:
  assumes "0 < m" "now \<le> later" "later < now + d"
  shows "fst (memoryRateLimitHandler d 0 m userId later succeeds (failed_requests d m userId now m)) = False"
  using assms failed_queue [OF assms(1) order_refl, of d userId now]
  by (simp add: memoryRateLimitHandler_def Request_def Let_def)

theorem failures_use_success_limit_witness:
  "fst (memoryRateLimitHandler 60 0 2 ''7'' 130 True (failed_requests 60 2 ''7'' 100 2)) = False"
  by (rule failures_use_success_limit) simp_all

end
