(* ===== verification/Spec2Isabelle.thy ===== *)
theory Spec2Isabelle
  imports Chat_Stream Playground_State Agent_Loop Billing_Text Billing_System Relay_Retry Rate_Limiter
begin

text \<open>
  This library verifies parts of a gateway for language models: its server, which bills requests and relays them to
  channels of upstream providers, and its dashboard, with a playground in which a user chats with models and lets an
  agent work on files. Source paths below are relative to \<^verbatim>\<open>src\<close>; \<^verbatim>\<open>P/\<close> stands for
  \<^verbatim>\<open>web/default/src/features/playground/\<close>.

  \<^bold>\<open>The server.\<close> A request is checked against rate limits, takes quota from a wallet or a subscription and from the
  token before it is sent, tries channels until one answers, and is settled or refunded at the end.
  \<^item> \<open>Effects\<close> is the monad of fallible operations on a state that the server theories and the tools share.
  \<^item> \<open>Quota_Store\<close> (\<^verbatim>\<open>model/utils.go\<close>, \<^verbatim>\<open>user.go\<close>, \<^verbatim>\<open>token.go\<close>, \<^verbatim>\<open>channel.go\<close>, \<^verbatim>\<open>profit.go\<close>) has the tables as a
    record \<open>store\<close>, the quota operations and the batches. A list \<open>faults\<close> in the store decides which statements of the
    database fail, so a theorem for all stores covers all patterns of failures. Batching is transparent.
  \<^item> \<open>Quota_Books\<close> names the accounts and proves, in the locale \<open>quota_account\<close> that is interpreted for wallets and for
    tokens, that an operation changes its account by its amount or fails without effect.
  \<^item> \<open>Subscription_Store\<close> and \<open>Subscription_Limits\<close> (\<^verbatim>\<open>model/subscription.go\<close>): choice of a subscription, rolling limits,
    ledger, settlement and refund. Limits and totals are respected, a request is charged once, the subscription that
    ends first pays, and a late refund can evade a rolling limit.
  \<^item> \<open>Billing_Session\<close> (\<^verbatim>\<open>service/billing_session.go\<close>, \<^verbatim>\<open>funding_source.go\<close>, \<^verbatim>\<open>billing.go\<close>, \<^verbatim>\<open>quota.go\<close>) defines the sessions.
    \<open>Billing_Accounts\<close> and \<open>Billing_Opening\<close> prove what each method does to the accounts under failures; the locale
    \<open>chargeable\<close> is the interface of a funding source, with the wallet and the subscription as interpretations.
    \<open>Billing_System\<close> runs any number of sessions over one database: quota is conserved, and failures never leave a
    user ahead, except that a failed flush of a batch loses charges.
  \<^item> \<open>Channel_Selection\<close> (\<^verbatim>\<open>model/channel_cache.go\<close>) and \<open>Relay_Retry\<close> (\<^verbatim>\<open>service/channel_select.go\<close>, \<^verbatim>\<open>controller/relay.go\<close>):
    the cache lists exactly the enabled channels, retries go down the priorities, weights are met exactly, and the
    loop of a request ends within its bound of attempts.
  \<^item> \<open>Server_Status_Rules\<close> (\<^verbatim>\<open>setting/operation_setting/status_code_ranges.go\<close>): the rules by which the server retries and
    disables, and that they mean what their text lists.
  \<^item> \<open>Rate_Limiter\<close> (\<^verbatim>\<open>common/rate-limit.go\<close>, \<^verbatim>\<open>middleware/model-rate-limit.go\<close>): the limit holds in every window.

  \<^bold>\<open>The dashboard.\<close>
  \<^item> \<open>Js_Prelude\<close> and \<open>Js_Data\<close> model what the sources use of JavaScript: strings, splitting, sorting, sets and maps in
    insertion order, JSON values. The locale \<open>comparator\<close> has the laws of a sort and \<open>separated\<close> those of separated texts.
  \<^item> \<open>Http_Status_Rules\<close> (\<^verbatim>\<open>lib/http-status-code-rules.ts\<close>): parsing, merging and printing of status code rules.
  \<^item> \<open>Billing_Rules\<close> and \<open>Billing_Text\<close> (\<^verbatim>\<open>features/pricing/lib/billing-expr.ts\<close>): request rules of dynamic prices; the text
    that the editor writes is read back, apart from guarded conditions.
  \<^item> \<open>Playground_Types\<close>, \<open>Chat_Messages\<close>, \<open>Chat_Payload\<close> (\<^verbatim>\<open>P/types.ts\<close>, \<^verbatim>\<open>P/lib/message-utils.ts\<close>, \<^verbatim>\<open>P/lib/payload-builder.ts\<close>):
    messages, their versions and reasoning, and the request built from them.
  \<^item> \<open>Chat_Stream\<close> (\<^verbatim>\<open>P/hooks/use-stream-request.ts\<close>, \<^verbatim>\<open>P/hooks/use-chat-handler.ts\<close>): a state machine of the stream with its
    retry timer; a chat is never stuck, retries are bounded, the answer is the text of the last attempt.
  \<^item> \<open>Playground_State\<close> (\<^verbatim>\<open>P/hooks/use-playground-state.ts\<close>, \<^verbatim>\<open>P/lib/storage.ts\<close>): conversations and their storage.
  \<^item> \<open>Agent_Text\<close>, \<open>Agent_Diff\<close>, \<open>Agent_Workspace\<close> (\<^verbatim>\<open>P/lib/agent-tools.ts\<close>): tool calls in text, diffs, and the tools
    over a file system that may fail; a tool touches only the file it names.
  \<^item> \<open>Agent_Responses\<close>, \<open>Agent_Calls\<close>, \<open>Agent_Stream\<close>, \<open>Agent_Completion\<close>, \<open>Agent_Loop\<close> (\<^verbatim>\<open>P/index.tsx\<close>): history repair, the
    accumulation of streamed calls, both kinds of streams, and the run of the agent as a state machine with
    approvals and stops; without consent nothing changes, and every run ends.

  \<^bold>\<open>Bounds and fuel.\<close> Recursion is structural or has a termination proof; no definition uses fuel. The retry loop of
  the server and the parsers of the dashboard terminate by measures. Integers of the server are unbounded; they are
  64 bits wide in the source and quotas stay far below that. Times are seconds.

  \<^bold>\<open>Not modelled.\<close> Adaptors to providers, handlers of an attempt, token counting and prices (the actual quota is an
  argument of the settlement), Redis caches and limiters, profit accounting in money, purchases, sign-in, the
  classic dashboard and all markup: they are HTTP and form handling, tables of formats, or arithmetic of other
  packages. Log lines are left out. The relay controllers enter the billing theorems as the condition that a
  refunded session is not settled.

  This theory adds the property that spans the dashboard and the server.
\<close>

section \<open>Status code rules from the dashboard to the server\<close>

text \<open>C5: the server obeys the rules that the dashboard accepts. When the dashboard accepts a text of rules, the
  normalized text that it sends is accepted by the server with the same ranges, and the server then retries exactly
  on the status codes in these ranges, apart from the two time-outs that are never retried.\<close>

theorem dashboard_rules_obeyed:
  assumes "pr_ok (parse_http_status_code_rules input)"
  shows "let rules = parse_http_status_code_rules input;
             (r, st') = AutomaticRetryStatusCodesFromString (pr_normalized rules) st
    in r = Inr () \<and> AutomaticRetryStatusCodeRanges st' = map server_range (pr_ranges rules) \<and>
       (\<forall>code. ShouldRetryByStatusCode st' (int code) \<longleftrightarrow> code \<in> codes (pr_ranges rules) \<and> code \<noteq> 504 \<and> code \<noteq> 524)"
proof -
  obtain rs where rs: "separated_ranges rs" "\<forall>r \<in> set rs. range_ok r" and rules: "parse_http_status_code_rules input = accepted rs"
    using assms by (rule parse_accepted_form)
  have "ParseHTTPStatusCodeRanges (pr_normalized (accepted rs)) = Inr (map server_range rs)"
    using server_reads [OF rs] by (simp add: accepted_def)
  then show ?thesis
    using match_codes [OF rs]
    by (auto simp: rules AutomaticRetryStatusCodesFromString_def ShouldRetryByStatusCode_def IsAlwaysSkipRetryStatusCode_def accepted_def)
qed

theorem dashboard_rules_obeyed_witness:
  "let rules = parse_http_status_code_rules (Some (units ''401,500-510''));
       (r, st') = AutomaticRetryStatusCodesFromString (pr_normalized rules) default_settings
   in pr_ok rules \<and> r = Inr () \<and> ShouldRetryByStatusCode st' (int 510) \<and> \<not> ShouldRetryByStatusCode st' (int 504)"
proof -
  let ?rules = "parse_http_status_code_rules (Some (units ''401,500-510''))"
  let ?rs = "[\<lparr>rstart = 401, rend = 401\<rparr>, \<lparr>rstart = 500, rend = 510\<rparr>]"
  have "pr_normalized (accepted ?rs) = units ''401,500-510''"
    by (simp add: accepted_def show_range_def units_def show_nat.simps digit_char_def)
  with parse_accepted [of ?rs] have eval: "?rules = accepted ?rs" by (simp add: separated_ranges_def range_ok_def)
  then have ok: "pr_ok ?rules" and ranges: "pr_ranges ?rules = ?rs" by (simp_all only: accepted_def parsed_rules.simps)
  obtain rules where rules: "rules = ?rules" by blast
  obtain r st' where run: "AutomaticRetryStatusCodesFromString (pr_normalized rules) default_settings = (r, st')"
    by (cases "AutomaticRetryStatusCodesFromString (pr_normalized rules) default_settings")
  from dashboard_rules_obeyed [OF ok, of default_settings, folded rules]
  have "r = Inr ()" and retry: "\<And>code. ShouldRetryByStatusCode st' (int code) \<longleftrightarrow> code \<in> codes (pr_ranges rules) \<and> code \<noteq> 504 \<and> code \<noteq> 524"
    by (simp_all only: Let_def run prod.case)
  moreover have "ShouldRetryByStatusCode st' (int 510)" "\<not> ShouldRetryByStatusCode st' (int 504)"
    unfolding retry using ranges [folded rules] by (simp_all add: codes_def)
  ultimately show ?thesis using ok unfolding rules [symmetric] Let_def run prod.case by blast
qed

end
